(* ===== verification/Prelude.thy ===== *)
theory Prelude
  imports Main "HOL-Library.Word" "HOL-Library.AList" "HOL-Library.List_Lexorder"
    "HOL-Library.Char_ord" "HOL-Library.Multiset"
begin

text \<open>
  The vocabulary the components share: the machine integers of the wire types, the outcome of a
  C++ call (an assertion failure, an exception with the state left behind, or a value),
  \<open>std::unordered_map\<close> as an association list with distinct keys, the time and the condition
  variable results the environment supplies, and the generic lemmas on them.
\<close>

named_theorems outcome_simps "rewriting of outcomes and their sequencing"

section \<open>Machine integers\<close>

type_synonym u32 = "32 word"
type_synonym u64 = "64 word"

lemma unat_plus1:
  fixes x :: u64
  assumes "x \<noteq> - 1"
  shows "unat (x + 1) = Suc (unat x)"
proof -
  from assms have "1 + x \<noteq> 0"
    by (metis add.commute add_eq_0_iff)
  then show ?thesis
    by (simp add: unatSuc add.commute)
qed

lemma plus1_greater_iff: "(x :: u64) < x + 1 \<longleftrightarrow> x \<noteq> - 1"
proof (cases "x = - 1")
  case False
  then have "unat x < unat (x + 1)"
    by (simp add: unat_plus1)
  then show ?thesis
    using False by (simp add: word_less_nat_alt)
qed simp

lemma unat_of_nat_u64: "n < 2 ^ 64 \<Longrightarrow> unat (of_nat n :: u64) = n"
  by (simp add: unat_of_nat take_bit_nat_eq_self)

lemma unat_of_nat_le: "k \<le> unat (x :: u64) \<Longrightarrow> unat (of_nat k :: u64) = k"
  using unsigned_less [of x, where ?'a = nat] by (intro unat_of_nat_u64) simp

lemma less_imp_not_max: "(x :: u64) < y \<Longrightarrow> x \<noteq> - 1"
  by (metis word_n1_ge not_less)

section \<open>Outcomes of a call\<close>

text \<open>
  \<open>Abort\<close> is a failed \<open>assert\<close> (the build keeps assertions on) or an exception nobody
  catches: the process is gone. \<open>Raise e s\<close> is a C++ exception, with the state the code had
  reached when it was thrown, since nothing is rolled back. \<open>Return x s\<close> is a normal return.
\<close>

datatype ClientError =
    KEY_NOT_FOUND
  | NO_PARENT
  | HAS_CHILDREN
  | MALFORMED_KEY
  | NOT_PRIMARY_REPLICA
  | FAILED_TO_REACH_QUORUM
  | REPLICA_STATUS_NOT_NORMAL

datatype exn =
    QuorumNotReached
  | ReplicaStateNotNormal
  | RuntimeError string
  | InvalidArgument string
  | OutOfRange
  | XdrWrongUnion string
  | ClientException ClientError
  | SqlErr string
  | SqlDone string

datatype ('s, 'a) res = Abort | Raise exn 's | Return 'a 's

fun bind_res :: "('s, 'a) res \<Rightarrow> ('a \<Rightarrow> 's \<Rightarrow> ('s, 'b) res) \<Rightarrow> ('s, 'b) res" where
  "bind_res Abort f = Abort"
| "bind_res (Raise e s) f = Raise e s"
| "bind_res (Return x s) f = f x s"

definition assert_res :: "bool \<Rightarrow> ('s, 'a) res \<Rightarrow> ('s, 'a) res" where
  "assert_res b r = (if b then r else Abort)"

lemma assert_res_simps [simp, outcome_simps]:
  "assert_res True r = r"
  "assert_res False r = Abort"
  by (simp_all add: assert_res_def)

lemma assert_res_eq_Return [outcome_simps]: "assert_res b r = Return x s \<longleftrightarrow> b \<and> r = Return x s"
  by (simp add: assert_res_def)

lemma assert_res_eq_Raise [outcome_simps]: "assert_res b r = Raise e s \<longleftrightarrow> b \<and> r = Raise e s"
  by (simp add: assert_res_def)

lemma bind_res_eq_Return [outcome_simps]:
  "bind_res r f = Return y t \<longleftrightarrow> (\<exists>x s. r = Return x s \<and> f x s = Return y t)"
  by (cases r) auto

lemma bind_res_eq_Raise [outcome_simps]:
  "bind_res r f = Raise e t \<longleftrightarrow> r = Raise e t \<or> (\<exists>x s. r = Return x s \<and> f x s = Raise e t)"
  by (cases r) auto

lemma bind_res_eq_Abort [outcome_simps]:
  "bind_res r f = Abort \<longleftrightarrow> r = Abort \<or> (\<exists>x s. r = Return x s \<and> f x s = Abort)"
  by (cases r) auto

lemma bind_res_assoc:
  "bind_res (bind_res r f) g = bind_res r (\<lambda>x s. bind_res (f x s) g)"
  by (cases r) auto

lemma bind_res_Return_right [simp]: "bind_res r Return = r"
  by (cases r) auto

text \<open>The state a call leaves behind, whether it returned or threw.\<close>

fun res_state :: "('s, 'a) res \<Rightarrow> 's option" where
  "res_state Abort = None"
| "res_state (Raise e s) = Some s"
| "res_state (Return x s) = Some s"

section \<open>Unordered maps\<close>

text \<open>
  A \<open>std::unordered_map\<close> is an association list with distinct keys: the list order stands for
  the iteration order, which the C++ standard leaves open. \<open>find\<close> is \<^term>\<open>map_of\<close>,
  \<open>m[k] = v\<close> is \<^term>\<open>AList.update\<close>, \<open>erase\<close> is \<^term>\<open>AList.delete\<close>, \<open>clear\<close> is the
  empty list and \<open>size\<close> the length.
\<close>

type_synonym ('k, 'v) umap = "('k \<times> 'v) list"

abbreviation um_put :: "'k \<Rightarrow> 'v \<Rightarrow> ('k, 'v) umap \<Rightarrow> ('k, 'v) umap" where
  "um_put \<equiv> AList.update"

abbreviation um_erase :: "'k \<Rightarrow> ('k, 'v) umap \<Rightarrow> ('k, 'v) umap" where
  "um_erase \<equiv> AList.delete"

abbreviation um_wf :: "('k, 'v) umap \<Rightarrow> bool" where
  "um_wf m \<equiv> distinct (map fst m)"

declare map_of_eq_Some_iff [simp del] Some_eq_map_of_iff [simp del]

lemmas um_find_put [simp] = AList.update_conv'
lemmas um_find_erase [simp] = AList.delete_conv'

lemma um_wf_put [simp]: "um_wf m \<Longrightarrow> um_wf (um_put k v m)"
  by (rule distinct_update)

lemma um_wf_erase [simp]: "um_wf m \<Longrightarrow> um_wf (um_erase k m)"
  by (rule distinct_delete)

lemma um_keys_put: "fst ` set (um_put k v m) = insert k (fst ` set m)"
  by (simp add: dom_update)

lemma um_put_fresh: "map_of m k = None \<Longrightarrow> um_put k v m = m @ [(k, v)]"
  by (induction m) (auto split: if_splits)

lemma length_um_put:
  "length (um_put k v m) = (if map_of m k = None then Suc (length m) else length m)"
  by (induction m) auto

lemma um_size_dom: "um_wf m \<Longrightarrow> length m = card (dom (map_of m))"
  by (metis distinct_card dom_map_of_conv_image_fst length_map list.set_map)

section \<open>Time and condition variables\<close>

text \<open>
  \<open>std::chrono::system_clock\<close> counts nanoseconds; the clock's readings are inputs. A wait on a
  condition variable ends in one of two ways; \<open>no_timeout\<close> is a notification or a spurious
  wake-up, which C++ allows.
\<close>

type_synonym time_point = int

datatype cv_status = no_timeout | timeout

definition ns_per_sec :: int where
  "ns_per_sec = 1000000000"

end
