(* ===== verification/KvTypes.thy ===== *)
theory KvTypes
  imports Prelude
begin

text \<open>
  The types of the client interface (\<open>include/kvStore.hh\<close>): key/value pairs, the error codes
  and the discriminated union \<open>Result\<close> with its constructor, discriminant and accessors.
\<close>

record KvPair =
  kvp_key :: string
  kvp_val :: string

datatype Error =
    NONE
  | KEY_ALREADY_PRESENT
  | KEY_NOT_PRESENT
  | KEY_HAS_NO_PARENT
  | KEY_HAS_CHILDREN
  | KEY_MALFORMED
  | REPLICA_NOT_PRIMARY
  | QUORUM_NOT_REACHED
  | STATUS_NOT_NORMAL

fun Error_code :: "Error \<Rightarrow> u32" where
  "Error_code NONE = 0"
| "Error_code KEY_ALREADY_PRESENT = 1"
| "Error_code KEY_NOT_PRESENT = 2"
| "Error_code KEY_HAS_NO_PARENT = 3"
| "Error_code KEY_HAS_CHILDREN = 4"
| "Error_code KEY_MALFORMED = 5"
| "Error_code REPLICA_NOT_PRIMARY = 6"
| "Error_code QUORUM_NOT_REACHED = 7"
| "Error_code STATUS_NOT_NORMAL = 8"

fun Error_enum_name :: "Error \<Rightarrow> string" where
  "Error_enum_name NONE = ''NONE''"
| "Error_enum_name KEY_ALREADY_PRESENT = ''KEY_ALREADY_PRESENT''"
| "Error_enum_name KEY_NOT_PRESENT = ''KEY_NOT_PRESENT''"
| "Error_enum_name KEY_HAS_NO_PARENT = ''KEY_HAS_NO_PARENT''"
| "Error_enum_name KEY_HAS_CHILDREN = ''KEY_HAS_CHILDREN''"
| "Error_enum_name KEY_MALFORMED = ''KEY_MALFORMED''"
| "Error_enum_name REPLICA_NOT_PRIMARY = ''REPLICA_NOT_PRIMARY''"
| "Error_enum_name QUORUM_NOT_REACHED = ''QUORUM_NOT_REACHED''"
| "Error_enum_name STATUS_NOT_NORMAL = ''STATUS_NOT_NORMAL''"

text \<open>
  The union \<open>Result\<close>: one constructor per arm. Any discriminant other than 1 and 2 selects the
  error arm and is kept with it.
\<close>

datatype Result =
    Res_val string
  | Res_keys "string list"
  | Res_err u32 Error

definition xdr_field_number :: "u32 \<Rightarrow> int" where
  "xdr_field_number which = (if which = 1 then 1 else if which = 2 then 2 else 3)"

text \<open>The constructor value-initialises the selected arm; \<open>NONE\<close> is the error code 0.\<close>

definition Result_new :: "u32 \<Rightarrow> Result" where
  "Result_new which =
     (if which = 1 then Res_val [] else if which = 2 then Res_keys [] else Res_err which NONE)"

fun Result_discriminant :: "Result \<Rightarrow> u32" where
  "Result_discriminant (Res_val v) = 1"
| "Result_discriminant (Res_keys ks) = 2"
| "Result_discriminant (Res_err d e) = d"

text \<open>
  Setting the discriminant destroys the old arm and constructs the new one, but only when the
  field number changes: within the error arm the old discriminant stays.
\<close>

definition Result_set_discriminant :: "u32 \<Rightarrow> Result \<Rightarrow> Result" where
  "Result_set_discriminant which r =
     (if xdr_field_number which \<noteq> xdr_field_number (Result_discriminant r)
      then Result_new which else r)"

fun Result_val :: "Result \<Rightarrow> exn + string" where
  "Result_val (Res_val v) = Inr v"
| "Result_val _ = Inl (XdrWrongUnion ''Result: val accessed when not selected'')"

fun Result_keys :: "Result \<Rightarrow> exn + string list" where
  "Result_keys (Res_keys ks) = Inr ks"
| "Result_keys _ = Inl (XdrWrongUnion ''Result: keys accessed when not selected'')"

fun Result_err :: "Result \<Rightarrow> exn + Error" where
  "Result_err (Res_err d e) = Inr e"
| "Result_err _ = Inl (XdrWrongUnion ''Result: err accessed when not selected'')"

text \<open>A fresh \<open>Result\<close> whose error field has been assigned, and the two success arms.\<close>

abbreviation res_error :: "Error \<Rightarrow> Result" where
  "res_error e \<equiv> Res_err 0 e"

lemma Result_new_0: "Result_new 0 = res_error NONE"
  by (simp add: Result_new_def)

lemma Result_set_discriminant_val: "Result_set_discriminant 1 (res_error e) = Res_val []"
  by (simp add: Result_set_discriminant_def xdr_field_number_def Result_new_def)

lemma Result_set_discriminant_keys: "Result_set_discriminant 2 (res_error e) = Res_keys []"
  by (simp add: Result_set_discriminant_def xdr_field_number_def Result_new_def)

lemmas Result_simps [simp] =
  Result_new_0 Result_set_discriminant_val Result_set_discriminant_keys

end
