(* ===== verification/VrTypes.thy ===== *)
theory VrTypes
  imports KvTypes
begin

text \<open>
  The types of the replication protocol (\<open>server/vrTypes.hh\<close>, \<open>vsReplication.hh\<close>,
  \<open>viewChange.hh\<close>, \<open>recovery.hh\<close>): the 64-bit numbers, the status and operation enums, log
  entries and the eight messages, each a record with the fields of its struct.
\<close>

type_synonym ViewInt = u64
type_synonym OpInt = u64
type_synonym ReplicaId = u64
type_synonym CommitInt = u64
type_synonym Nonce = u64

datatype Status = NORMAL | VIEW_CHANGE | RECOVERING

datatype OpType = UPDATE | DELETE

fun Status_enum_name :: "Status \<Rightarrow> string" where
  "Status_enum_name NORMAL = ''NORMAL''"
| "Status_enum_name VIEW_CHANGE = ''VIEW_CHANGE''"
| "Status_enum_name RECOVERING = ''RECOVERING''"

fun OpType_enum_name :: "OpType \<Rightarrow> string" where
  "OpType_enum_name UPDATE = ''UPDATE''"
| "OpType_enum_name DELETE = ''DELETE''"

record LogEntry =
  le_kvPair :: KvPair
  le_opType :: OpType
  le_opNum :: OpInt
  le_committed :: bool

type_synonym OpLog = "LogEntry list"

record PrepInfo =
  pi_viewNum :: ViewInt
  pi_kvPair :: KvPair
  pi_opNum :: OpInt
  pi_opType :: OpType
  pi_commitNum :: CommitInt

record CommitInfo =
  ci_viewNum :: ViewInt
  ci_commitNum :: CommitInt

record PrepResponse =
  pr_viewNum :: ViewInt
  pr_opNum :: OpInt
  pr_replicaId :: ReplicaId

record ViewChangeRequest =
  vcr_viewNum :: ViewInt
  vcr_replicaId :: ReplicaId

record ViewChangeInfo =
  vci_viewNum :: ViewInt
  vci_opLog :: OpLog
  vci_oldViewNum :: ViewInt
  vci_opNum :: OpInt
  vci_commitNum :: CommitInt
  vci_replicaId :: ReplicaId

record ViewStartInfo =
  vsi_viewNum :: ViewInt
  vsi_opLog :: OpLog
  vsi_opNum :: OpInt
  vsi_commitNum :: CommitInt
  vsi_replicaId :: ReplicaId

record RecoveryRequest =
  rrq_replicaId :: ReplicaId
  rrq_nonce :: Nonce
  rrq_knownCommitNum :: CommitInt

record RecoveryResponse =
  rrs_viewNum :: ViewInt
  rrs_nonce :: Nonce
  rrs_replicaId :: ReplicaId
  rrs_isPrimary :: bool
  rrs_opLog :: OpLog
  rrs_opNum :: OpInt
  rrs_commitNum :: CommitInt

text \<open>A call on one of the three replica-to-replica interfaces.\<close>

datatype message =
    Prepare PrepInfo
  | PrepareOk PrepResponse
  | Commit CommitInfo
  | StartViewChange ViewChangeRequest
  | DoViewChange ViewChangeInfo
  | StartView ViewStartInfo
  | RecoveryReq RecoveryRequest
  | RecoveryResp RecoveryResponse

text \<open>A replica's address (\<open>include/endPoint.h\<close>).\<close>

record EndPoint =
  ep_ip :: string
  ep_port :: string

text \<open>The default-constructed end point, which \<open>operator[]\<close> inserts for an unknown id.\<close>

definition EndPoint_default :: EndPoint where
  "EndPoint_default = \<lparr>ep_ip = [], ep_port = []\<rparr>"

end
