(* ===== verification/OpLog.thy ===== *)
theory OpLog
  imports VrTypes
begin

text \<open>
  The operation log. The locale \<open>op_log\<close> is the contract of \<open>IOpLogHandler\<close>
  (\<open>server/opLogHandler.h\<close>) that the replicator, the view change and the recovery rely on; the
  rest models \<open>InMemOpLogHandler\<close> (\<open>server/inMemOpLogHandler.cc\<close>): an unordered map from
  operation numbers to entries and the vector of the numbers in the order they were appended.
\<close>

section \<open>The contract of a log handler\<close>

text \<open>
  What the clients of \<open>IOpLogHandler\<close> use: appending files an uncommitted entry under its
  number and leaves the others, \<open>commit\<close> sets one flag and fails without an entry, \<open>setLog\<close>
  installs a log so that \<open>getLog\<close> reads the same log back.
\<close>

locale op_log =
  fixes inv :: "'l \<Rightarrow> bool"
    and upd :: "KvPair \<Rightarrow> OpInt \<Rightarrow> 'l \<Rightarrow> 'l"
    and del :: "string \<Rightarrow> OpInt \<Rightarrow> 'l \<Rightarrow> 'l"
    and entry :: "OpInt \<Rightarrow> 'l \<Rightarrow> LogEntry option"
    and has :: "OpInt \<Rightarrow> 'l \<Rightarrow> bool"
    and contents :: "'l \<Rightarrow> OpLog \<times> 'l"
    and install :: "OpLog \<Rightarrow> 'l \<Rightarrow> 'l"
    and mark :: "OpInt \<Rightarrow> 'l \<Rightarrow> 'l option"
  assumes inv_upd: "inv l \<Longrightarrow> inv (upd kv n l)"
    and inv_del: "inv l \<Longrightarrow> inv (del k n l)"
    and inv_install: "inv (install es l)"
    and inv_mark: "inv l \<Longrightarrow> mark n l = Some l' \<Longrightarrow> inv l'"
    and entry_upd: "entry i (upd kv n l) =
      (if i = n then Some \<lparr>le_kvPair = kv, le_opType = UPDATE, le_opNum = n, le_committed = False\<rparr>
       else entry i l)"
    and entry_del: "entry i (del k n l) =
      (if i = n then Some \<lparr>le_kvPair = \<lparr>kvp_key = k, kvp_val = []\<rparr>, le_opType = DELETE,
                           le_opNum = n, le_committed = False\<rparr>
       else entry i l)"
    and has_entry: "has i l \<longleftrightarrow> entry i l \<noteq> None"
    and mark_None: "mark n l = None \<longleftrightarrow> entry n l = None"
    and mark_Some: "mark n l = Some l' \<Longrightarrow>
      entry i l' = (if i = n then map_option (le_committed_update (\<lambda>_. True)) (entry n l)
                    else entry i l)"
    and entry_opNum: "inv l \<Longrightarrow> entry i l = Some e \<Longrightarrow> le_opNum e = i"
    and contents_pure: "inv l \<Longrightarrow> snd (contents l) = l"
    and contents_set: "inv l \<Longrightarrow> e \<in> set (fst (contents l)) \<longleftrightarrow> entry (le_opNum e) l = Some e"
    and contents_upd: "inv l \<Longrightarrow> entry n l = None \<Longrightarrow>
      fst (contents (upd kv n l)) = fst (contents l) @
        [\<lparr>le_kvPair = kv, le_opType = UPDATE, le_opNum = n, le_committed = False\<rparr>]"
    and contents_del: "inv l \<Longrightarrow> entry n l = None \<Longrightarrow>
      fst (contents (del k n l)) = fst (contents l) @
        [\<lparr>le_kvPair = \<lparr>kvp_key = k, kvp_val = []\<rparr>, le_opType = DELETE, le_opNum = n,
          le_committed = False\<rparr>]"
    and entry_install: "\<lbrakk>e \<in> set es; \<And>e'. e' \<in> set es \<Longrightarrow> le_opNum e' = le_opNum e \<Longrightarrow> e' = e\<rbrakk> \<Longrightarrow>
      entry (le_opNum e) (install es l) = Some e"
    and entry_install_None: "i \<notin> le_opNum ` set es \<Longrightarrow> entry i (install es l) = None"
    and contents_install: "(\<And>e e'. e \<in> set es \<Longrightarrow> e' \<in> set es \<Longrightarrow> le_opNum e' = le_opNum e \<Longrightarrow> e' = e)
      \<Longrightarrow> fst (contents (install es l)) = es"
begin

lemma contents_functional:
  assumes "inv l" "e \<in> set (fst (contents l))" "e' \<in> set (fst (contents l))"
    and "le_opNum e' = le_opNum e"
  shows "e' = e"
  using assms by (simp add: contents_set)

text \<open>State transfer: a log shipped with \<open>getLog\<close> and installed with \<open>setLog\<close> is the same log.\<close>

lemma transfer_contents:
  assumes "inv l"
  shows "fst (contents (install (fst (contents l)) l')) = fst (contents l)"
  using contents_functional [OF assms] by (intro contents_install) blast

lemma transfer_entry:
  assumes "inv l"
  shows "entry i (install (fst (contents l)) l') = entry i l"
proof (cases "entry i l")
  case (Some e)
  with assms have "e \<in> set (fst (contents l))" and i: "le_opNum e = i"
    by (simp_all add: contents_set entry_opNum)
  then show ?thesis
    using Some entry_install [of e "fst (contents l)" l'] contents_functional [OF assms] by simp
next
  case None
  then have "i \<notin> le_opNum ` set (fst (contents l))"
    using assms by (auto simp: contents_set)
  then show ?thesis
    using None by (simp add: entry_install_None)
qed

text \<open>An appended operation is in the log, uncommitted, and can then be committed.\<close>

lemma append_then_mark:
  assumes "l' = upd kv n l"
  obtains l'' where "mark n l' = Some l''"
    and "entry n l'' = Some \<lparr>le_kvPair = kv, le_opType = UPDATE, le_opNum = n, le_committed = True\<rparr>"
    and "\<And>i. i \<noteq> n \<Longrightarrow> entry i l'' = entry i l"
proof -
  have "mark n l' \<noteq> None"
    using assms by (simp add: mark_None entry_upd)
  then obtain l'' where m: "mark n l' = Some l''"
    by blast
  then show ?thesis
    using that [OF m] assms by (simp add: mark_Some [OF m] entry_upd)
qed

end

section \<open>The in-memory log\<close>

record InMemOpLog =
  opLogMap :: "(OpInt, LogEntry) umap"
  opNums :: "OpInt list"

definition InMemOpLog_new :: InMemOpLog where
  "InMemOpLog_new = \<lparr>opLogMap = [], opNums = []\<rparr>"

definition appendUpdate :: "KvPair \<Rightarrow> OpInt \<Rightarrow> InMemOpLog \<Rightarrow> InMemOpLog" where
  "appendUpdate kvPair opNum l =
     (let entry = \<lparr>le_kvPair = kvPair, le_opType = UPDATE, le_opNum = opNum,
                   le_committed = False\<rparr>
      in l\<lparr>opNums := opNums l @ [opNum], opLogMap := um_put opNum entry (opLogMap l)\<rparr>)"

definition appendDelete :: "string \<Rightarrow> OpInt \<Rightarrow> InMemOpLog \<Rightarrow> InMemOpLog" where
  "appendDelete key opNum l =
     (let entry = \<lparr>le_kvPair = \<lparr>kvp_key = key, kvp_val = []\<rparr>, le_opType = DELETE,
                   le_opNum = opNum, le_committed = False\<rparr>
      in l\<lparr>opNums := opNums l @ [opNum], opLogMap := um_put opNum entry (opLogMap l)\<rparr>)"

definition logSize :: "InMemOpLog \<Rightarrow> nat" where
  "logSize l = length (opLogMap l)"

text \<open>\<open>getLogEntry\<close> asserts that the entry is there.\<close>

definition getLogEntry :: "OpInt \<Rightarrow> InMemOpLog \<Rightarrow> LogEntry option" where
  "getLogEntry opNum l = map_of (opLogMap l) opNum"

text \<open>
  \<open>getLog\<close> walks the number vector and reads each entry with \<open>operator[]\<close>, which inserts a
  default entry for a number the map does not have.
\<close>

definition LogEntry_default :: LogEntry where
  "LogEntry_default = \<lparr>le_kvPair = \<lparr>kvp_key = [], kvp_val = []\<rparr>, le_opType = UPDATE,
                       le_opNum = 0, le_committed = False\<rparr>"

fun getLog_loop :: "OpInt list \<Rightarrow> (OpInt, LogEntry) umap \<Rightarrow> OpLog \<Rightarrow> OpLog \<times> (OpInt, LogEntry) umap"
where
  "getLog_loop [] m acc = (acc, m)"
| "getLog_loop (n # ns) m acc =
     (case map_of m n of
        Some e \<Rightarrow> getLog_loop ns m (acc @ [e])
      | None \<Rightarrow> getLog_loop ns (um_put n LogEntry_default m) (acc @ [LogEntry_default]))"

definition getLog :: "InMemOpLog \<Rightarrow> OpLog \<times> InMemOpLog" where
  "getLog l = (let (log, m) = getLog_loop (opNums l) (opLogMap l) [] in (log, l\<lparr>opLogMap := m\<rparr>))"

fun setLog_loop :: "OpLog \<Rightarrow> InMemOpLog \<Rightarrow> InMemOpLog" where
  "setLog_loop [] l = l"
| "setLog_loop (e # es) l =
     setLog_loop es (l\<lparr>opNums := opNums l @ [le_opNum e],
                       opLogMap := um_put (le_opNum e) e (opLogMap l)\<rparr>)"

definition setLog :: "OpLog \<Rightarrow> InMemOpLog \<Rightarrow> InMemOpLog" where
  "setLog log l = setLog_loop log (l\<lparr>opNums := [], opLogMap := []\<rparr>)"

definition hasEntry :: "OpInt \<Rightarrow> InMemOpLog \<Rightarrow> bool" where
  "hasEntry opNum l = (map_of (opLogMap l) opNum \<noteq> None)"

text \<open>\<open>commit\<close> asserts that the entry is there and sets its flag.\<close>

definition commit :: "OpInt \<Rightarrow> InMemOpLog \<Rightarrow> InMemOpLog option" where
  "commit opNum l =
     (case map_of (opLogMap l) opNum of
        None \<Rightarrow> None
      | Some e \<Rightarrow> Some (l\<lparr>opLogMap := um_put opNum (e\<lparr>le_committed := True\<rparr>) (opLogMap l)\<rparr>))"

section \<open>The invariant of the log\<close>

text \<open>
  Every number of the vector has its entry, the map has no other keys, and each entry carries the
  number it is filed under.
\<close>

definition log_inv :: "InMemOpLog \<Rightarrow> bool" where
  "log_inv l \<longleftrightarrow> um_wf (opLogMap l) \<and> set (opNums l) = fst ` set (opLogMap l) \<and>
     (\<forall>(n, e) \<in> set (opLogMap l). le_opNum e = n)"

lemma log_inv_alt:
  "log_inv l \<longleftrightarrow> um_wf (opLogMap l) \<and> set (opNums l) = dom (map_of (opLogMap l)) \<and>
     (\<forall>n e. map_of (opLogMap l) n = Some e \<longrightarrow> le_opNum e = n)"
  by (auto simp: log_inv_def dom_map_of_conv_image_fst dest: map_of_SomeD)

lemma log_inv_nums: "log_inv l \<Longrightarrow> getLogEntry i l \<noteq> None \<longleftrightarrow> i \<in> set (opNums l)"
  by (simp add: log_inv_alt getLogEntry_def domIff)

lemma log_inv_new [simp]: "log_inv InMemOpLog_new"
  by (simp add: log_inv_def InMemOpLog_new_def)

lemma log_inv_append:
  "log_inv l \<Longrightarrow> le_opNum e = n \<Longrightarrow>
   log_inv (l\<lparr>opNums := opNums l @ [n], opLogMap := um_put n e (opLogMap l)\<rparr>)"
  by (auto simp: log_inv_alt)

lemma log_inv_appendUpdate [simp]: "log_inv l \<Longrightarrow> log_inv (appendUpdate kv n l)"
  by (simp add: appendUpdate_def log_inv_append)

lemma log_inv_appendDelete [simp]: "log_inv l \<Longrightarrow> log_inv (appendDelete k n l)"
  by (simp add: appendDelete_def log_inv_append)

lemma log_inv_setLog_loop: "log_inv l \<Longrightarrow> log_inv (setLog_loop log l)"
  by (induction log l rule: setLog_loop.induct) (simp_all add: log_inv_append)

lemma log_inv_setLog [simp]: "log_inv (setLog log l)"
  unfolding setLog_def by (rule log_inv_setLog_loop) (simp add: log_inv_def)

lemma log_inv_commit: "log_inv l \<Longrightarrow> commit n l = Some l' \<Longrightarrow> log_inv l'"
  by (auto simp: commit_def log_inv_alt split: option.splits if_splits)

text \<open>Under the invariant \<open>getLog\<close> never inserts: it reads the entries off in append order.\<close>

lemma getLog_loop_reads:
  "set ns \<subseteq> dom (map_of m) \<Longrightarrow> getLog_loop ns m acc = (acc @ map (\<lambda>n. the (map_of m n)) ns, m)"
  by (induction ns arbitrary: acc) auto

lemma getLog_inv:
  "log_inv l \<Longrightarrow> getLog l = (map (\<lambda>n. the (map_of (opLogMap l) n)) (opNums l), l)"
  by (simp add: getLog_def log_inv_alt getLog_loop_reads)

lemma fst_getLog: "log_inv l \<Longrightarrow> fst (getLog l) = map (\<lambda>n. the (map_of (opLogMap l) n)) (opNums l)"
  by (simp add: getLog_inv)

lemma log_inv_getLog: "log_inv l \<Longrightarrow> log_inv (snd (getLog l))"
  by (simp add: getLog_inv)

text \<open>What \<open>setLog\<close> installs: the last entry of each number, the numbers in order.\<close>

lemma setLog_loop_opNums: "opNums (setLog_loop es l) = opNums l @ map le_opNum es"
  by (induction es l rule: setLog_loop.induct) simp_all

lemma setLog_opNums [simp]: "opNums (setLog es l) = map le_opNum es"
  by (simp add: setLog_def setLog_loop_opNums)

lemma setLog_loop_map:
  "map_of (opLogMap (setLog_loop es l)) =
     map_of (opLogMap l) ++ map_of (rev (map (\<lambda>e. (le_opNum e, e)) es))"
  by (induction es l rule: setLog_loop.induct) (simp_all add: map_add_assoc [symmetric] map_add_def fun_eq_iff split: option.splits)

lemma setLog_map: "map_of (opLogMap (setLog es l)) = map_of (rev (map (\<lambda>e. (le_opNum e, e)) es))"
  by (simp add: setLog_def setLog_loop_map)

lemma getLogEntry_setLog:
  assumes "e \<in> set es" and "\<And>e'. e' \<in> set es \<Longrightarrow> le_opNum e' = le_opNum e \<Longrightarrow> e' = e"
  shows "getLogEntry (le_opNum e) (setLog es l) = Some e"
proof -
  have "map_of (rev (map (\<lambda>e. (le_opNum e, e)) es)) (le_opNum e) \<noteq> None"
    using assms(1) by (simp add: map_of_eq_None_iff image_image)
  then obtain e' where e': "map_of (rev (map (\<lambda>e. (le_opNum e, e)) es)) (le_opNum e) = Some e'"
    by blast
  then have "(le_opNum e, e') \<in> set (rev (map (\<lambda>e. (le_opNum e, e)) es))"
    by (rule map_of_SomeD)
  then have "e' \<in> set es" "le_opNum e' = le_opNum e"
    by auto
  then show ?thesis
    using e' assms(2) by (simp add: getLogEntry_def setLog_map)
qed

lemma getLogEntry_setLog_None:
  "i \<notin> le_opNum ` set es \<Longrightarrow> getLogEntry i (setLog es l) = None"
  by (simp add: getLogEntry_def setLog_map map_of_eq_None_iff image_image)

lemma getLog_setLog:
  assumes "\<And>e e'. e \<in> set es \<Longrightarrow> e' \<in> set es \<Longrightarrow> le_opNum e' = le_opNum e \<Longrightarrow> e' = e"
  shows "fst (getLog (setLog es l)) = es"
proof -
  have "map_of (opLogMap (setLog es l)) (le_opNum e) = Some e" if "e \<in> set es" for e
    using getLogEntry_setLog [OF that] assms [OF that] by (simp add: getLogEntry_def)
  then have "map (\<lambda>e. the (map_of (opLogMap (setLog es l)) (le_opNum e))) es = es"
    by (simp add: map_idI)
  then show ?thesis
    by (simp add: fst_getLog comp_def)
qed

lemma set_getLog:
  assumes "log_inv l"
  shows "e \<in> set (fst (getLog l)) \<longleftrightarrow> getLogEntry (le_opNum e) l = Some e"
proof -
  have "e \<in> (\<lambda>n. the (map_of (opLogMap l) n)) ` dom (map_of (opLogMap l)) \<longleftrightarrow>
      (\<exists>n. map_of (opLogMap l) n = Some e)"
    by (force simp: image_iff dom_def)
  also have "\<dots> \<longleftrightarrow> map_of (opLogMap l) (le_opNum e) = Some e"
    using assms by (auto simp: log_inv_alt)
  finally show ?thesis
    using assms by (simp add: fst_getLog log_inv_alt getLogEntry_def)
qed

lemma getLog_append_fresh:
  assumes "log_inv l" "map_of (opLogMap l) n = None" "le_opNum e = n"
  shows "fst (getLog (l\<lparr>opNums := opNums l @ [n], opLogMap := um_put n e (opLogMap l)\<rparr>)) =
    fst (getLog l) @ [e]"
proof -
  have "n \<notin> set (opNums l)"
    using assms(1,2) by (auto simp: log_inv_alt)
  then show ?thesis
    using assms by (auto simp: fst_getLog log_inv_append)
qed

interpretation mem: op_log log_inv appendUpdate appendDelete getLogEntry hasEntry getLog setLog commit
proof
  show "log_inv l \<Longrightarrow> getLogEntry i l = Some e \<Longrightarrow> le_opNum e = i" for l i e
    by (simp add: log_inv_alt getLogEntry_def)
  show "log_inv l \<Longrightarrow> snd (getLog l) = l" for l
    by (simp add: getLog_inv)
  show "getLogEntry i l' = (if i = n then map_option (le_committed_update (\<lambda>_. True))
      (getLogEntry n l) else getLogEntry i l)" if "commit n l = Some l'" for n l l' i
    using that by (auto simp: commit_def getLogEntry_def split: option.splits)
  show "commit n l = None \<longleftrightarrow> getLogEntry n l = None" for n l
    by (simp add: commit_def getLogEntry_def split: option.splits)
  show "getLogEntry (le_opNum e) (setLog es l) = Some e"
    if "e \<in> set es" "\<And>e'. e' \<in> set es \<Longrightarrow> le_opNum e' = le_opNum e \<Longrightarrow> e' = e" for e es l
    using that by (rule getLogEntry_setLog)
  show "i \<notin> le_opNum ` set es \<Longrightarrow> getLogEntry i (setLog es l) = None" for i es l
    by (rule getLogEntry_setLog_None)
qed (simp_all add: getLog_setLog set_getLog log_inv_commit hasEntry_def getLogEntry_def
       appendUpdate_def appendDelete_def getLog_append_fresh log_inv_append)

section \<open>State transfer\<close>

text \<open>C30. State transfer: a log read with \<open>getLog\<close> and installed elsewhere with \<open>setLog\<close> has the same
  entries in the same order and answers every query as the original.\<close>

theorem log_transfer_round_trip:
  assumes "log_inv l"
  shows "fst (getLog (setLog (fst (getLog l)) l')) = fst (getLog l) \<and>
    getLogEntry i (setLog (fst (getLog l)) l') = getLogEntry i l \<and>
    hasEntry i (setLog (fst (getLog l)) l') = hasEntry i l \<and> log_inv (setLog (fst (getLog l)) l')"
  using assms by (simp add: mem.transfer_contents mem.transfer_entry mem.has_entry mem.inv_install)

theorem log_transfer_round_trip_witness:
  "fst (getLog (setLog (fst (getLog (appendDelete ''/a'' 1 InMemOpLog_new))) InMemOpLog_new)) =
     [\<lparr>le_kvPair = \<lparr>kvp_key = ''/a'', kvp_val = []\<rparr>, le_opType = DELETE, le_opNum = 1, le_committed = False\<rparr>]"
proof -
  have inv: "log_inv (appendDelete ''/a'' 1 InMemOpLog_new)"
    by (simp add: mem.inv_del)
  have e: "fst (getLog (appendDelete ''/a'' 1 InMemOpLog_new)) =
      [\<lparr>le_kvPair = \<lparr>kvp_key = ''/a'', kvp_val = []\<rparr>, le_opType = DELETE, le_opNum = 1, le_committed = False\<rparr>]"
    by code_simp
  show ?thesis
    using log_transfer_round_trip [OF inv, of InMemOpLog_new] by (simp only: e)
qed

end
