(* ===== verification/CppString.thy ===== *)
theory CppString
  imports Prelude
begin

text \<open>
  The operations of \<open>std::string\<close> the program uses, on \<^typ>\<open>string\<close>; \<open>npos\<close> is
  \<^term>\<open>None\<close>. \<open>substr\<close> and \<open>erase\<close> throw when the position is past the end, which no call of
  the program does, so they are the plain list functions.
\<close>

definition str_find :: "string \<Rightarrow> string \<Rightarrow> nat \<Rightarrow> nat option" where
  "str_find s pat pos =
     List.find (\<lambda>i. i + length pat \<le> length s \<and> take (length pat) (drop i s) = pat)
       [pos..<Suc (length s)]"

definition str_find_char :: "string \<Rightarrow> char \<Rightarrow> nat \<Rightarrow> nat option" where
  "str_find_char s c pos = List.find (\<lambda>i. s ! i = c) [pos..<length s]"

definition str_find_first_not_of :: "string \<Rightarrow> char \<Rightarrow> nat option" where
  "str_find_first_not_of s c = List.find (\<lambda>i. s ! i \<noteq> c) [0..<length s]"

definition str_find_last_not_of :: "string \<Rightarrow> char \<Rightarrow> nat option" where
  "str_find_last_not_of s c = List.find (\<lambda>i. s ! i \<noteq> c) (rev [0..<length s])"

definition str_find_last_of :: "string \<Rightarrow> char \<Rightarrow> nat option" where
  "str_find_last_of s c = List.find (\<lambda>i. s ! i = c) (rev [0..<length s])"

definition str_substr :: "string \<Rightarrow> nat \<Rightarrow> nat \<Rightarrow> string" where
  "str_substr s pos n = take n (drop pos s)"

definition str_erase :: "string \<Rightarrow> nat \<Rightarrow> nat \<Rightarrow> string" where
  "str_erase s pos n = take pos s @ drop (pos + n) s"

section \<open>Searching\<close>

lemma str_find_None:
  "str_find s pat 0 = None \<longleftrightarrow> (\<nexists>p q. s = p @ pat @ q)"
proof -
  have "(\<exists>i \<le> length s. i + length pat \<le> length s \<and> take (length pat) (drop i s) = pat) \<longleftrightarrow>
      (\<exists>p q. s = p @ pat @ q)" (is "?L \<longleftrightarrow> ?R")
  proof
    assume ?L
    then obtain i where "take (length pat) (drop i s) = pat"
      by blast
    then have "s = take i s @ pat @ drop (length pat) (drop i s)"
      by (metis append_take_drop_id)
    then show ?R
      by blast
  next
    assume ?R
    then obtain p q where s: "s = p @ pat @ q"
      by blast
    show ?L
      by (rule exI [of _ "length p"]) (simp add: s)
  qed
  then show ?thesis
    unfolding str_find_def find_None_iff by (auto simp: less_Suc_eq_le)
qed

lemma str_find_Some_occurs:
  assumes "str_find s pat 0 = Some i"
  shows "i + length pat \<le> length s \<and> take (length pat) (drop i s) = pat"
  using assms unfolding str_find_def find_Some_iff by auto

lemma str_find_Some_least:
  assumes "s = p @ pat @ q"
  obtains i where "str_find s pat 0 = Some i" "i \<le> length p"
proof -
  let ?P = "\<lambda>i. i + length pat \<le> length s \<and> take (length pat) (drop i s) = pat"
  have "length p \<in> set [0..<Suc (length s)] \<and> ?P (length p)"
    using assms by simp
  then obtain i where i: "str_find s pat 0 = Some i"
    using assms str_find_None [of s pat] by auto
  moreover have "\<not> length p < i"
  proof
    assume "length p < i"
    then show False
      using i assms unfolding str_find_def find_Some_iff by (auto simp del: upt_Suc)
  qed
  ultimately show ?thesis
    using that by simp
qed

lemma str_find_Some_split:
  assumes "str_find s pat 0 = Some i"
  shows "\<exists>p r. s = p @ pat @ r \<and> i = length p"
proof -
  have occ: "take (length pat) (drop i s) = pat" and le: "i \<le> length s"
    using str_find_Some_occurs [OF assms] by linarith+
  have "s = take i s @ take (length pat) (drop i s) @ drop (length pat) (drop i s)"
    by (simp only: append_take_drop_id)
  then have "s = take i s @ pat @ drop (length pat) (drop i s)"
    by (simp only: occ)
  moreover have "i = length (take i s)"
    using le by simp
  ultimately show ?thesis
    by blast
qed

lemma str_find_prefix: "str_find (pat @ q) pat 0 = Some 0"
  by (simp add: str_find_def upt_conv_Cons del: upt_Suc)

lemma str_find_char_None: "str_find_char s c pos = None \<longleftrightarrow> c \<notin> set (drop pos s)"
proof -
  have "(\<exists>i. pos \<le> i \<and> i < length s \<and> s ! i = c) \<longleftrightarrow> c \<in> set (drop pos s)" (is "?L \<longleftrightarrow> ?R")
  proof
    assume ?L
    then obtain i where "pos \<le> i" "i < length s" "s ! i = c"
      by blast
    then have "drop pos s ! (i - pos) = c" "i - pos < length (drop pos s)"
      by auto
    then show ?R
      using nth_mem by metis
  next
    assume ?R
    then obtain j where "j < length s - pos" "drop pos s ! j = c"
      by (auto simp: in_set_conv_nth)
    then show ?L
      by (intro exI [of _ "pos + j"]) auto
  qed
  then show ?thesis
    unfolding str_find_char_def find_None_iff by auto
qed

lemma str_find_last_of_Some:
  "str_find_last_of s c = Some i \<longleftrightarrow> i < length s \<and> s ! i = c \<and> c \<notin> set (drop (Suc i) s)"
proof (induction s rule: rev_induct)
  case Nil
  then show ?case
    by (simp add: str_find_last_of_def)
next
  case (snoc x s)
  have rest: "List.find (\<lambda>i. (s @ [x]) ! i = c) (rev [0..<length s]) = str_find_last_of s c"
    unfolding str_find_last_of_def by (rule find_cong) (auto simp: nth_append)
  have step: "str_find_last_of (s @ [x]) c =
      (if x = c then Some (length s) else str_find_last_of s c)"
    by (simp add: str_find_last_of_def [of "s @ [x]"] rest)
  show ?case
    using snoc by (auto simp: step nth_append less_Suc_eq)
qed

lemma find_append_none: "List.find P xs = None \<Longrightarrow> List.find P (xs @ ys) = List.find P ys"
  by (induction xs) (auto split: if_splits)

lemma find_none: "(\<And>x. x \<in> set xs \<Longrightarrow> \<not> P x) \<Longrightarrow> List.find P xs = None"
  by (auto simp: find_None_iff)

lemma str_find_char_first:
  assumes "c \<notin> set u"
  shows "str_find_char (u @ c # w) c 0 = Some (length u)"
proof -
  let ?s = "u @ c # w"
  have "length u < length ?s"
    by simp
  then have split: "[0..<length ?s] = [0..<length u] @ length u # [Suc (length u)..<length ?s]"
    by (metis less_imp_add_positive upt_add_eq_append upt_conv_Cons zero_le)
  have "List.find (\<lambda>i. ?s ! i = c) [0..<length u] = None"
    using assms by (intro find_none) (auto simp: nth_append)
  then show ?thesis
    unfolding str_find_char_def split by (simp add: find_append_none)
qed

end
