(* ===== verification/KvMemStore.thy ===== *)
theory KvMemStore
  imports CppString KvTypes
begin

text \<open>
  The in-memory key/value store (\<open>server/kvMemStore.cc\<close>) and the replicator interface it calls
  (\<open>server/replicator.h\<close>). The process state starts here: later components extend the record
  \<open>kvmem\<close> with their own fields, and every operation is polymorphic in the extension. The
  store's mutex makes each operation atomic, so locking has no model of its own here.
\<close>

section \<open>State and interface\<close>

record kvmem =
  kvMap :: "(string, string) umap"
  replicatorRegistered :: bool

text \<open>The virtual functions of \<open>IReplicator\<close>, over the state of the process.\<close>

record 's IReplicator =
  replicateUpdate :: "string \<Rightarrow> string \<Rightarrow> 's \<Rightarrow> ('s, unit) res"
  replicateDelete :: "string \<Rightarrow> 's \<Rightarrow> ('s, unit) res"
  isPrimary :: "'s \<Rightarrow> bool"

section \<open>Operations\<close>

definition hasKey :: "string \<Rightarrow> 'a kvmem_scheme \<Rightarrow> bool" where
  "hasKey key s = (map_of (kvMap s) key \<noteq> None)"

definition KvMemStore_get :: "string \<Rightarrow> 'a kvmem_scheme \<Rightarrow> ('a kvmem_scheme, string) res" where
  "KvMemStore_get key s =
     (case map_of (kvMap s) key of
        None \<Rightarrow> Raise (RuntimeError (''Key '' @ key @ '' not found'')) s
      | Some v \<Rightarrow> Return v s)"

definition setInt :: "string \<Rightarrow> string \<Rightarrow> 'a kvmem_scheme \<Rightarrow> bool \<times> 'a kvmem_scheme" where
  "setInt key val s = (hasKey key s, s\<lparr>kvMap := um_put key val (kvMap s)\<rparr>)"

definition removeInt :: "string \<Rightarrow> 'a kvmem_scheme \<Rightarrow> 'a kvmem_scheme" where
  "removeInt key s = (if map_of (kvMap s) key \<noteq> None
     then s\<lparr>kvMap := um_erase key (kvMap s)\<rparr> else s)"

definition KvMemStore_set ::
  "'a kvmem_scheme IReplicator \<Rightarrow> string \<Rightarrow> string \<Rightarrow> 'a kvmem_scheme \<Rightarrow> ('a kvmem_scheme, bool) res"
where
  "KvMemStore_set R key val s =
     assert_res (isPrimary R s)
       (bind_res (replicateUpdate R key val s)
         (\<lambda>_ s'. let (update, s'') = setInt key val s' in Return update s''))"

definition KvMemStore_remove ::
  "'a kvmem_scheme IReplicator \<Rightarrow> string \<Rightarrow> 'a kvmem_scheme \<Rightarrow> ('a kvmem_scheme, unit) res"
where
  "KvMemStore_remove R key s =
     (if map_of (kvMap s) key = None
      then Raise (RuntimeError (''Key '' @ key @ '' not present'')) s
      else assert_res (isPrimary R s)
        (bind_res (replicateDelete R key s)
          (\<lambda>_ s'. Return () (s'\<lparr>kvMap := um_erase key (kvMap s')\<rparr>))))"

text \<open>
  \<open>list\<close> collects into a \<open>std::set\<close> (a sorted list without duplicates) every key other than
  the prefix that contains the prefix and has no \<open>ignoreInSuffix\<close> from the second character after
  its first occurrence on.
\<close>

definition list_match :: "string \<Rightarrow> char \<Rightarrow> string \<Rightarrow> bool" where
  "list_match prefix ignoreInSuffix key =
     (if key = prefix then False
      else case str_find key prefix 0 of
          None \<Rightarrow> False
        | Some pos \<Rightarrow> str_find_char key ignoreInSuffix (pos + length prefix + 1) = None)"

fun list_loop :: "string \<Rightarrow> char \<Rightarrow> (string, string) umap \<Rightarrow> string list \<Rightarrow> string list" where
  "list_loop prefix ign [] acc = acc"
| "list_loop prefix ign ((key, v) # m) acc =
     list_loop prefix ign m (if list_match prefix ign key then insort_insert key acc else acc)"

definition KvMemStore_list :: "string \<Rightarrow> char \<Rightarrow> 'a kvmem_scheme \<Rightarrow> string list" where
  "KvMemStore_list prefix ignoreInSuffix s = list_loop prefix ignoreInSuffix (kvMap s) []"

text \<open>
  The only caller of \<open>registerUpdateCb\<close> and \<open>registerDeleteCb\<close>, which hand both callbacks to the replicator and its two
  handlers; so one flag stands for the pointer to the replicator and for the callbacks being set.
\<close>

definition registerReplicator :: "'a kvmem_scheme \<Rightarrow> ('a kvmem_scheme, unit) res" where
  "registerReplicator s =
     assert_res (\<not> replicatorRegistered s) (Return () (s\<lparr>replicatorRegistered := True\<rparr>))"

text \<open>The callbacks through which committed operations reach a backup's store.\<close>

definition updateCb :: "string \<Rightarrow> string \<Rightarrow> 'a kvmem_scheme \<Rightarrow> 'a kvmem_scheme" where
  "updateCb key val s = snd (setInt key val s)"

definition deleteCb :: "string \<Rightarrow> 'a kvmem_scheme \<Rightarrow> 'a kvmem_scheme" where
  "deleteCb key s = removeInt key s"

section \<open>The store as a map\<close>

lemma kvMap_updateCb [simp]: "kvMap (updateCb k v s) = um_put k v (kvMap s)"
  by (simp add: updateCb_def setInt_def)

lemma map_of_kvMap_deleteCb [simp]:
  "map_of (kvMap (deleteCb k s)) = (map_of (kvMap s))(k := None)"
  by (auto simp: deleteCb_def removeInt_def fun_eq_iff)

lemma um_wf_deleteCb [simp]: "um_wf (kvMap s) \<Longrightarrow> um_wf (kvMap (deleteCb k s))"
  by (simp add: deleteCb_def removeInt_def)

lemma set_list_loop:
  "set (list_loop prefix ign m acc) = set acc \<union> {k \<in> fst ` set m. list_match prefix ign k}"
  by (induction prefix ign m acc rule: list_loop.induct) (auto simp: set_insort_insert)

lemma sorted_list_loop:
  "sorted acc \<Longrightarrow> distinct acc \<Longrightarrow>
   sorted (list_loop prefix ign m acc) \<and> distinct (list_loop prefix ign m acc)"
  by (induction prefix ign m acc rule: list_loop.induct)
    (auto simp: sorted_insort_insert distinct_insort_insert)

lemma KvMemStore_list_set:
  "set (KvMemStore_list prefix ign s) = {k \<in> dom (map_of (kvMap s)). list_match prefix ign k}"
  by (simp add: KvMemStore_list_def set_list_loop dom_map_of_conv_image_fst)

lemma KvMemStore_list_sorted:
  "sorted (KvMemStore_list prefix ign s) \<and> distinct (KvMemStore_list prefix ign s)"
  by (simp add: KvMemStore_list_def sorted_list_loop)

text \<open>
  The contract of a replicator, as the store and the client interface use it: replicating leaves
  the store alone, and the only exceptions are the two the interface catches.
\<close>

locale replicator_contract =
  fixes R :: "'a kvmem_scheme IReplicator"
  assumes update_frame: "res_state (replicateUpdate R k v s) = Some s' \<Longrightarrow> kvMap s' = kvMap s"
    and delete_frame: "res_state (replicateDelete R k s) = Some s' \<Longrightarrow> kvMap s' = kvMap s"
    and update_exn: "replicateUpdate R k v s = Raise e s' \<Longrightarrow>
      e = QuorumNotReached \<or> e = ReplicaStateNotNormal"
    and delete_exn: "replicateDelete R k s = Raise e s' \<Longrightarrow>
      e = QuorumNotReached \<or> e = ReplicaStateNotNormal"
begin

lemma set_Return:
  assumes "KvMemStore_set R k v s = Return u s'"
  shows "kvMap s' = um_put k v (kvMap s) \<and> u = hasKey k s"
  using assms update_frame [of k v s]
  by (auto simp: KvMemStore_set_def outcome_simps setInt_def hasKey_def)

lemma set_Raise:
  assumes "KvMemStore_set R k v s = Raise e s'"
  shows "kvMap s' = kvMap s \<and> (e = QuorumNotReached \<or> e = ReplicaStateNotNormal)"
  using assms update_frame [of k v s] update_exn [of k v s]
  by (auto simp: KvMemStore_set_def outcome_simps setInt_def)

lemma remove_Return:
  assumes "KvMemStore_remove R k s = Return u s'"
  shows "kvMap s' = um_erase k (kvMap s) \<and> hasKey k s"
  using assms delete_frame [of k s]
  by (auto simp: KvMemStore_remove_def outcome_simps hasKey_def split: if_splits)

lemma remove_Raise:
  assumes "KvMemStore_remove R k s = Raise e s'" "hasKey k s"
  shows "kvMap s' = kvMap s \<and> (e = QuorumNotReached \<or> e = ReplicaStateNotNormal)"
  using assms delete_frame [of k s] delete_exn [of k s]
  by (auto simp: KvMemStore_remove_def outcome_simps hasKey_def split: if_splits)

end

end
