(* ===== verification/ReplicaState.thy ===== *)
theory ReplicaState
  imports OpLog KvMemStore
begin

text \<open>
  The replica's protocol state (\<open>server/vsReplicaState.cc\<close>) and the part of the process state
  that the replicator, the view change and the recovery share by reference: the own id, the other
  replicas, the protocol state, the log, and the calls delivered to other replicas.
\<close>

section \<open>The class\<close>

record ReplicaState =
  rs_priId :: ReplicaId
  rs_status :: Status
  rs_viewNum :: ViewInt
  rs_opNum :: OpInt
  rs_commitNum :: CommitInt
  rs_lastCommitTime :: time_point

definition ReplicaState_new :: "time_point \<Rightarrow> ReplicaState" where
  "ReplicaState_new now = \<lparr>rs_priId = 0, rs_status = NORMAL, rs_viewNum = 0, rs_opNum = 0,
     rs_commitNum = 0, rs_lastCommitTime = now\<rparr>"

definition ReplicaState_set_priId :: "ReplicaId \<Rightarrow> ReplicaState \<Rightarrow> ReplicaState" where
  [simp]: "ReplicaState_set_priId x r = r\<lparr>rs_priId := x\<rparr>"

definition ReplicaState_set_status :: "Status \<Rightarrow> ReplicaState \<Rightarrow> ReplicaState" where
  [simp]: "ReplicaState_set_status x r = r\<lparr>rs_status := x\<rparr>"

definition ReplicaState_set_viewNum :: "ViewInt \<Rightarrow> ReplicaState \<Rightarrow> ReplicaState" where
  [simp]: "ReplicaState_set_viewNum x r = r\<lparr>rs_viewNum := x\<rparr>"

definition ReplicaState_set_opNum :: "OpInt \<Rightarrow> ReplicaState \<Rightarrow> ReplicaState" where
  [simp]: "ReplicaState_set_opNum x r = r\<lparr>rs_opNum := x\<rparr>"

definition ReplicaState_set_commitNum :: "CommitInt \<Rightarrow> ReplicaState \<Rightarrow> ReplicaState" where
  [simp]: "ReplicaState_set_commitNum x r = r\<lparr>rs_commitNum := x\<rparr>"

definition ReplicaState_set_lastCommitTime :: "time_point \<Rightarrow> ReplicaState \<Rightarrow> ReplicaState" where
  [simp]: "ReplicaState_set_lastCommitTime x r = r\<lparr>rs_lastCommitTime := x\<rparr>"

definition ReplicaState_incrementViewNum :: "ReplicaState \<Rightarrow> ViewInt \<times> ReplicaState" where
  [simp]: "ReplicaState_incrementViewNum r = (rs_viewNum r + 1, r\<lparr>rs_viewNum := rs_viewNum r + 1\<rparr>)"

definition ReplicaState_incrementOpNum :: "ReplicaState \<Rightarrow> OpInt \<times> ReplicaState" where
  [simp]: "ReplicaState_incrementOpNum r = (rs_opNum r + 1, r\<lparr>rs_opNum := rs_opNum r + 1\<rparr>)"

section \<open>The shared part of the process state\<close>

record base = kvmem +
  selfId :: ReplicaId
  replicas :: "(ReplicaId, EndPoint) umap"
  rstate :: ReplicaState
  oplog :: InMemOpLog
  netOut :: "(EndPoint \<times> message) list"

abbreviation priId :: "'a base_scheme \<Rightarrow> ReplicaId" where
  "priId s \<equiv> rs_priId (rstate s)"

abbreviation status :: "'a base_scheme \<Rightarrow> Status" where
  "status s \<equiv> rs_status (rstate s)"

abbreviation viewNum :: "'a base_scheme \<Rightarrow> ViewInt" where
  "viewNum s \<equiv> rs_viewNum (rstate s)"

abbreviation opNum :: "'a base_scheme \<Rightarrow> OpInt" where
  "opNum s \<equiv> rs_opNum (rstate s)"

abbreviation commitNum :: "'a base_scheme \<Rightarrow> CommitInt" where
  "commitNum s \<equiv> rs_commitNum (rstate s)"

abbreviation lastCommitTime :: "'a base_scheme \<Rightarrow> time_point" where
  "lastCommitTime s \<equiv> rs_lastCommitTime (rstate s)"

abbreviation set_priId :: "ReplicaId \<Rightarrow> 'a base_scheme \<Rightarrow> 'a base_scheme" where
  "set_priId x s \<equiv> s\<lparr>rstate := ReplicaState_set_priId x (rstate s)\<rparr>"

abbreviation set_status :: "Status \<Rightarrow> 'a base_scheme \<Rightarrow> 'a base_scheme" where
  "set_status x s \<equiv> s\<lparr>rstate := ReplicaState_set_status x (rstate s)\<rparr>"

abbreviation set_viewNum :: "ViewInt \<Rightarrow> 'a base_scheme \<Rightarrow> 'a base_scheme" where
  "set_viewNum x s \<equiv> s\<lparr>rstate := ReplicaState_set_viewNum x (rstate s)\<rparr>"

abbreviation set_opNum :: "OpInt \<Rightarrow> 'a base_scheme \<Rightarrow> 'a base_scheme" where
  "set_opNum x s \<equiv> s\<lparr>rstate := ReplicaState_set_opNum x (rstate s)\<rparr>"

abbreviation set_commitNum :: "CommitInt \<Rightarrow> 'a base_scheme \<Rightarrow> 'a base_scheme" where
  "set_commitNum x s \<equiv> s\<lparr>rstate := ReplicaState_set_commitNum x (rstate s)\<rparr>"

abbreviation set_lastCommitTime :: "time_point \<Rightarrow> 'a base_scheme \<Rightarrow> 'a base_scheme" where
  "set_lastCommitTime x s \<equiv> s\<lparr>rstate := ReplicaState_set_lastCommitTime x (rstate s)\<rparr>"

abbreviation set_oplog :: "InMemOpLog \<Rightarrow> 'a base_scheme \<Rightarrow> 'a base_scheme" where
  "set_oplog l s \<equiv> s\<lparr>oplog := l\<rparr>"

section \<open>Applying log entries to the store\<close>

text \<open>
  How every component applies a committed entry: the update or the delete callback of the store.
\<close>

definition apply_entry :: "LogEntry \<Rightarrow> 'a kvmem_scheme \<Rightarrow> 'a kvmem_scheme" where
  "apply_entry e s = (case le_opType e of
      UPDATE \<Rightarrow> updateCb (kvp_key (le_kvPair e)) (kvp_val (le_kvPair e)) s
    | DELETE \<Rightarrow> deleteCb (kvp_key (le_kvPair e)) s)"

text \<open>The same on the abstract store, and the replay of a list of entries.\<close>

definition entry_effect :: "LogEntry \<Rightarrow> (string \<Rightarrow> string option) \<Rightarrow> (string \<Rightarrow> string option)" where
  "entry_effect e m = (case le_opType e of
      UPDATE \<Rightarrow> m(kvp_key (le_kvPair e) \<mapsto> kvp_val (le_kvPair e))
    | DELETE \<Rightarrow> m(kvp_key (le_kvPair e) := None))"

fun replay :: "OpLog \<Rightarrow> (string \<Rightarrow> string option) \<Rightarrow> (string \<Rightarrow> string option)" where
  "replay [] m = m"
| "replay (e # es) m = replay es (entry_effect e m)"

lemma replay_append [simp]: "replay (es @ fs) m = replay fs (replay es m)"
  by (induction es arbitrary: m) simp_all

lemma apply_entry_effect [simp]:
  "map_of (kvMap (apply_entry e s)) = entry_effect e (map_of (kvMap s))"
  by (simp add: apply_entry_def entry_effect_def split: OpType.split)

lemma um_wf_apply_entry [simp]: "um_wf (kvMap s) \<Longrightarrow> um_wf (kvMap (apply_entry e s))"
  by (simp add: apply_entry_def split: OpType.split)

lemma entry_effect_committed [simp]: "entry_effect (e\<lparr>le_committed := b\<rparr>) = entry_effect e"
  by (rule ext) (simp add: entry_effect_def split: OpType.split)

lemma deleteCb_frame [simp]:
  "base.more (deleteCb k s) = base.more s"
  "selfId (deleteCb k s) = selfId s" "replicas (deleteCb k s) = replicas s"
  "rstate (deleteCb k s) = rstate s" "oplog (deleteCb k s) = oplog s"
  "netOut (deleteCb k s) = netOut s"
  by (simp_all add: deleteCb_def removeInt_def)

lemma updateCb_frame [simp]:
  "base.more (updateCb k v s) = base.more s"
  "selfId (updateCb k v s) = selfId s" "replicas (updateCb k v s) = replicas s"
  "rstate (updateCb k v s) = rstate s" "oplog (updateCb k v s) = oplog s"
  "netOut (updateCb k v s) = netOut s"
  by (simp_all add: updateCb_def setInt_def)

lemma apply_entry_frame [simp]:
  "base.more (apply_entry e s) = base.more s"
  "selfId (apply_entry e s) = selfId s" "replicas (apply_entry e s) = replicas s"
  "rstate (apply_entry e s) = rstate s" "oplog (apply_entry e s) = oplog s"
  "netOut (apply_entry e s) = netOut s"
  by (simp_all add: apply_entry_def split: OpType.split)

end
