(* ===== verification/VrCommon.thy ===== *)
theory VrCommon
  imports ReplicaState
begin

text \<open>
  The helpers of the protocol (\<open>server/vrCommon.h\<close>, \<open>server/vrCommon.cc\<close>): the majority count,
  the wait map whose entries count responses, and the blocking queue of
  \<open>server/concurrentQueue.h\<close> with its FIFO contract.
\<close>

section \<open>Quorums\<close>

text \<open>\<open>getAllReplicas\<close> has every replica but the own one.\<close>

definition getMajorityCnt :: "'a base_scheme \<Rightarrow> nat" where
  "getMajorityCnt s = (length (replicas s) + 1) div 2 + 1"

definition quorumReached :: "nat \<Rightarrow> 'a base_scheme \<Rightarrow> bool" where
  "quorumReached cnt s \<longleftrightarrow> cnt \<ge> getMajorityCnt s"

section \<open>Wait maps\<close>

text \<open>
  A \<open>Response\<close> is its counter; the mutex and the condition variable of it have no data.
  \<open>get\<close> creates a response with count 0 when there is none.
\<close>

type_synonym 't WaitMap = "('t, nat) umap"

definition WaitMap_add :: "'t \<Rightarrow> nat \<Rightarrow> 't WaitMap \<Rightarrow> 't WaitMap" where
  "WaitMap_add t resp m = um_put t resp m"

definition WaitMap_get :: "'t \<Rightarrow> 't WaitMap \<Rightarrow> nat \<times> 't WaitMap" where
  "WaitMap_get t m = (case map_of m t of Some cnt \<Rightarrow> (cnt, m) | None \<Rightarrow> (0, um_put t 0 m))"

definition WaitMap_clear :: "'t WaitMap \<Rightarrow> 't WaitMap" where
  "WaitMap_clear m = []"

definition WaitMap_erase :: "'t \<Rightarrow> 't WaitMap \<Rightarrow> 't WaitMap" where
  "WaitMap_erase t m = um_erase t m"

text \<open>\<open>++resp->cnt\<close> on the response that \<open>get\<close> returned.\<close>

definition WaitMap_incr :: "'t \<Rightarrow> 't WaitMap \<Rightarrow> 't WaitMap" where
  "WaitMap_incr t m = (let (cnt, m') = WaitMap_get t m in um_put t (cnt + 1) m')"

definition WaitMap_cnt :: "'t \<Rightarrow> 't WaitMap \<Rightarrow> nat" where
  "WaitMap_cnt t m = fst (WaitMap_get t m)"

lemma WaitMap_cnt_simps [simp]:
  "WaitMap_cnt t [] = 0"
  "WaitMap_cnt t (snd (WaitMap_get u m)) = WaitMap_cnt t m"
  "WaitMap_cnt t (WaitMap_incr u m) = (if t = u then Suc (WaitMap_cnt u m) else WaitMap_cnt t m)"
  "WaitMap_cnt t (WaitMap_erase u m) = (if t = u then 0 else WaitMap_cnt t m)"
  by (auto simp: WaitMap_cnt_def WaitMap_get_def WaitMap_incr_def WaitMap_erase_def Let_def
        split: option.splits prod.splits)

lemma WaitMap_cnt_find: "WaitMap_cnt t m = (case map_of m t of None \<Rightarrow> 0 | Some c \<Rightarrow> c)"
  by (simp add: WaitMap_cnt_def WaitMap_get_def split: option.split)

section \<open>Blocking queue\<close>

text \<open>
  \<open>pop\<close> waits while the queue is empty, so it has no result then: \<^term>\<open>None\<close> is a thread that
  keeps waiting.
\<close>

type_synonym 'a CQueue = "'a list"

definition CQueue_push :: "'a \<Rightarrow> 'a CQueue \<Rightarrow> 'a CQueue" where
  "CQueue_push x q = q @ [x]"

fun CQueue_pop :: "'a CQueue \<Rightarrow> ('a \<times> 'a CQueue) option" where
  "CQueue_pop [] = None"
| "CQueue_pop (x # q) = Some (x, q)"

locale fifo =
  fixes new :: 'q
    and push :: "'a \<Rightarrow> 'q \<Rightarrow> 'q"
    and pop :: "'q \<Rightarrow> ('a \<times> 'q) option"
    and contents :: "'q \<Rightarrow> 'a list"
  assumes contents_new: "contents new = []"
    and contents_push: "contents (push x q) = contents q @ [x]"
    and pop_None: "pop q = None \<longleftrightarrow> contents q = []"
    and pop_Some: "pop q = Some (x, q') \<Longrightarrow> contents q = x # contents q'"
begin

fun drain :: "nat \<Rightarrow> 'q \<Rightarrow> 'a list" where
  "drain 0 q = []"
| "drain (Suc n) q = (case pop q of None \<Rightarrow> [] | Some (x, q') \<Rightarrow> x # drain n q')"

lemma drain_contents: "drain n q = take n (contents q)"
proof (induction n arbitrary: q)
  case (Suc n)
  show ?case
  proof (cases "pop q")
    case None
    then show ?thesis
      using pop_None [of q] by simp
  next
    case (Some p)
    then show ?thesis
      using Suc pop_Some [of q "fst p" "snd p"] by (cases p) simp
  qed
qed simp

lemma contents_fold_push: "contents (fold push xs q) = contents q @ xs"
  by (induction xs arbitrary: q) (simp_all add: contents_push)

lemma push_then_drain: "drain (length xs) (fold push xs new) = xs"
  by (simp add: drain_contents contents_fold_push contents_new)

end

interpretation cq: fifo "[]" CQueue_push CQueue_pop "\<lambda>q. q"
proof
  show "CQueue_pop q = None \<longleftrightarrow> q = []" for q :: "'a CQueue"
    by (cases q) auto
  show "CQueue_pop q = Some (x, q') \<Longrightarrow> q = x # q'" for q q' :: "'a CQueue" and x
    by (cases q) auto
qed (simp_all add: CQueue_push_def)

section \<open>Majorities\<close>

text \<open>
  With \<open>n\<close> replicas in all, the count is the least majority, so two quorums share a replica.
\<close>

lemma getMajorityCnt_majority:
  assumes "length (replicas s) + 1 = n"
  shows "n < 2 * getMajorityCnt s" "2 * (getMajorityCnt s - 1) \<le> n"
  using assms by (auto simp: getMajorityCnt_def)

lemma quorums_intersect:
  assumes "finite E" "card E = length (replicas s) + 1" "A \<subseteq> E" "B \<subseteq> E"
    and "quorumReached (card A) s" "quorumReached (card B) s"
  shows "A \<inter> B \<noteq> {}"
proof
  assume "A \<inter> B = {}"
  then have "card A + card B = card (A \<union> B)"
    using assms(1,3,4) by (simp add: card_Un_disjoint finite_subset)
  also have "\<dots> \<le> card E"
    using assms(1,3,4) by (intro card_mono) auto
  finally show False
    using assms(2,5,6) by (simp add: quorumReached_def getMajorityCnt_def)
qed

section \<open>Quorums and queues\<close>

text \<open>C29. Quorums: with \<open>n\<close> replicas in all, \<open>getMajorityCnt\<close> is the least number above half of them, and
  two sets of replicas that reach the quorum share a replica.\<close>

theorem quorum_is_majority:
  assumes "finite E" "card E = length (replicas s) + 1" "A \<subseteq> E" "B \<subseteq> E"
    and "quorumReached (card A) s" "quorumReached (card B) s"
  shows "A \<inter> B \<noteq> {} \<and> (quorumReached k s \<longleftrightarrow> card E < 2 * k)"
  using quorums_intersect [OF assms] assms(2)
  by (auto simp: quorumReached_def getMajorityCnt_def)

definition ex_node :: base where
  "ex_node = \<lparr>kvMap = [], replicatorRegistered = True, selfId = 0,
     replicas = [(1, EndPoint_default), (2, EndPoint_default)], rstate = ReplicaState_new 0,
     oplog = InMemOpLog_new, netOut = []\<rparr>"

theorem quorum_is_majority_witness:
  "{0, 1::nat} \<inter> {1, 2} \<noteq> {} \<and> (quorumReached 1 ex_node \<longleftrightarrow> card {0, 1, 2::nat} < 2 * 1)"
  by (rule quorum_is_majority [of "{0, 1, 2}"])
    (auto simp: ex_node_def quorumReached_def getMajorityCnt_def)

text \<open>The queue between a handler and its thread is first in, first out: popping as often as was pushed
  gives the pushed items in their order, and a pop waits exactly on an empty queue.\<close>

lemma queue_in_order:
  "CQueue_pop (fold CQueue_push (x # xs) []) = Some (x, fold CQueue_push xs []) \<and>
   (CQueue_pop q = None \<longleftrightarrow> q = [])"
  using cq.contents_fold_push [of "x # xs" "[]"] cq.contents_fold_push [of xs "[]"] cq.pop_None [of q]
  by simp

end
