(* ===== verification/Rpc.thy ===== *)
theory Rpc
  imports VrCommon
begin

text \<open>
  Calls to other replicas: the connection of a client (\<open>include/clientBase.h\<close>,
  \<open>include/clientWrapper.h\<close>), the cache of connections and the retry loop that the three
  handlers share (\<open>getRepClient\<close> and \<open>invokePrepare\<close> in \<open>server/vsReplicator.cc\<close> and their
  counterparts), and \<open>invokeForAllReplicas\<close> (\<open>server/vrCommon.h\<close>).

  The XDR library and the network are an input: for each message, end point and attempt, whether
  \<open>tcp_connect\<close> succeeds, and whether the call is answered, delivered with its answer lost, or
  not delivered. The last two throw.
\<close>

datatype call_result = CallOk | CallLost | CallFailed

type_synonym network = "message \<Rightarrow> EndPoint \<Rightarrow> nat \<Rightarrow> bool \<times> call_result"

section \<open>Connections\<close>

text \<open>A client is its connection state: \<open>_srpcClient\<close> null or not.\<close>

definition client_isConnected :: "bool \<Rightarrow> bool" where
  "client_isConnected c = c"

text \<open>Opening an open client exits the process; a failed \<open>tcp_connect\<close> throws.\<close>

definition client_open :: "bool \<Rightarrow> bool \<Rightarrow> (bool, unit) res" where
  "client_open connect_ok c =
     (if client_isConnected c then Abort
      else if connect_ok then Return () True
      else Raise (RuntimeError ''tcp_connect'') c)"

definition client_close :: "bool \<Rightarrow> bool" where
  "client_close c = (if client_isConnected c then False else c)"

text \<open>The constructor of \<open>ClientWrapper\<close> opens a fresh client.\<close>

definition ClientWrapper_new :: "bool \<Rightarrow> (bool, unit) res" where
  "ClientWrapper_new connect_ok = client_open connect_ok False"

text \<open>
  The cache of wrappers, keyed by the end point's string; \<^term>\<open>None\<close> is the null pointer that
  \<open>operator[]\<close> inserts.
\<close>

type_synonym clWrappers = "(string, bool option) umap"

definition EndPoint_string :: "EndPoint \<Rightarrow> string" where
  "EndPoint_string ep = ep_ip ep @ '':'' @ ep_port ep"

definition getClient :: "bool \<Rightarrow> EndPoint \<Rightarrow> clWrappers \<Rightarrow> (clWrappers, unit) res" where
  "getClient connect_ok ep cl =
     (let key = EndPoint_string ep;
          cl = (case map_of cl key of None \<Rightarrow> um_put key None cl | Some _ \<Rightarrow> cl)
      in case map_of cl key of
           Some (Some c) \<Rightarrow>
             if client_isConnected c then Return () cl
             else (case ClientWrapper_new connect_ok of
                     Abort \<Rightarrow> Abort
                   | Raise e _ \<Rightarrow> Raise e cl
                   | Return _ c' \<Rightarrow> Return () (um_put key (Some c') cl))
         | _ \<Rightarrow> (case ClientWrapper_new connect_ok of
                     Abort \<Rightarrow> Abort
                   | Raise e _ \<Rightarrow> Raise e cl
                   | Return _ c' \<Rightarrow> Return () (um_put key (Some c') cl)))"

section \<open>The retry loop\<close>

text \<open>
  \<open>while (++tryCnt <= 2)\<close>: get the client, call, leave the loop; a throwing call closes the
  connection, a throwing connect leaves the wrapper of the first attempt, already closed. The
  result says whether a call was answered; \<open>out\<close> collects what was delivered.
\<close>

definition close_cached :: "EndPoint \<Rightarrow> clWrappers \<Rightarrow> clWrappers" where
  "close_cached ep cl =
     (case map_of cl (EndPoint_string ep) of
        Some (Some c) \<Rightarrow> um_put (EndPoint_string ep) (Some (client_close c)) cl
      | _ \<Rightarrow> cl)"

function invoke_loop ::
  "network \<Rightarrow> message \<Rightarrow> EndPoint \<Rightarrow> nat \<Rightarrow> clWrappers \<Rightarrow> (EndPoint \<times> message) list \<Rightarrow>
   bool \<times> clWrappers \<times> (EndPoint \<times> message) list"
where
  "invoke_loop nw msg ep tryCnt cl out =
     (if tryCnt + 1 \<le> 2 then
        case getClient (fst (nw msg ep (tryCnt + 1))) ep cl of
          Abort \<Rightarrow> (False, cl, out)
        | Raise e cl' \<Rightarrow> invoke_loop nw msg ep (tryCnt + 1) cl' out
        | Return _ cl' \<Rightarrow>
            (case snd (nw msg ep (tryCnt + 1)) of
               CallOk \<Rightarrow> (True, cl', out @ [(ep, msg)])
             | CallLost \<Rightarrow> invoke_loop nw msg ep (tryCnt + 1) (close_cached ep cl') (out @ [(ep, msg)])
             | CallFailed \<Rightarrow> invoke_loop nw msg ep (tryCnt + 1) (close_cached ep cl') out)
      else (False, cl, out))"
  by pat_completeness auto
termination
  by (relation "measure (\<lambda>(nw, msg, ep, tryCnt, cl, out). 2 - tryCnt)") auto

declare invoke_loop.simps [simp del]

definition invoke_rpc ::
  "network \<Rightarrow> message \<Rightarrow> EndPoint \<Rightarrow> clWrappers \<Rightarrow> (EndPoint \<times> message) list \<Rightarrow>
   bool \<times> clWrappers \<times> (EndPoint \<times> message) list"
where
  "invoke_rpc nw msg ep cl out = invoke_loop nw msg ep 0 cl out"

section \<open>Calling every replica\<close>

text \<open>
  One thread per replica, all joined; the handlers' client mutex runs the calls one after the
  other, in an order nothing fixes, for which the order of the map stands.
\<close>

definition invokeForAllReplicas ::
  "ReplicaId \<Rightarrow> (EndPoint \<Rightarrow> 'a base_scheme \<Rightarrow> 'a base_scheme) \<Rightarrow> 'a base_scheme \<Rightarrow> 'a base_scheme"
where
  "invokeForAllReplicas i f s =
     fold (\<lambda>(rid, ep) s'. if rid = i then s' else f ep s') (replicas s) s"

text \<open>A broadcast relates the first and the last state by everything that one call does.\<close>

lemma broadcast_rel:
  assumes "\<And>t. R t t" "\<And>t u v. R t u \<Longrightarrow> R u v \<Longrightarrow> R t v" "\<And>ep t. R t (f ep t)"
  shows "R s (invokeForAllReplicas i f s)"
proof -
  have "R s (fold (\<lambda>(rid, ep) t. if rid = i then t else f ep t) rs s)" for rs s
  proof (induction rs arbitrary: s)
    case (Cons x rs)
    have "R s (if fst x = i then s else f (snd x) s)"
      using assms(1,3) by simp
    from assms(2) [OF this Cons] show ?case
      by (simp add: split_beta)
  qed (simp add: assms(1))
  then show ?thesis
    by (simp add: invokeForAllReplicas_def)
qed

section \<open>Properties\<close>

lemma getClient_not_Abort [simp]: "getClient ok ep cl \<noteq> Abort"
  by (auto simp: getClient_def ClientWrapper_new_def client_open_def client_isConnected_def
        Let_def split: option.splits)

text \<open>After \<open>getClient\<close> returns, the cached client is connected.\<close>

lemma getClient_Return:
  "getClient ok ep cl = Return u cl' \<Longrightarrow> map_of cl' (EndPoint_string ep) = Some (Some True)"
  by (auto simp: getClient_def ClientWrapper_new_def client_open_def client_isConnected_def
        Let_def split: option.splits if_splits)

lemma getClient_connects: "ok \<Longrightarrow> \<exists>cl'. getClient ok ep cl = Return () cl'"
  by (auto simp: getClient_def ClientWrapper_new_def client_open_def client_isConnected_def
        Let_def split: option.splits)

text \<open>At most two deliveries, all of them this message to this end point.\<close>

lemma invoke_rpc_deliveries:
  assumes "invoke_rpc nw msg ep cl out = (ok, cl', out')"
  shows "\<exists>n \<le> 2. out' = out @ replicate n (ep, msg) \<and> (ok \<longrightarrow> n > 0)"
  using assms
  by (auto simp: invoke_rpc_def invoke_loop.simps [of _ _ _ 0] invoke_loop.simps [of _ _ _ "Suc 0"]
        invoke_loop.simps [of _ _ _ "Suc (Suc 0)"] numeral_2_eq_2
      split: res.splits call_result.splits intro: exI [of _ 0] exI [of _ 1] exI [of _ 2])

text \<open>
  A peer that is up is reached even through a stale connection: the first call throws, the loop
  reconnects and the second call is delivered once.
\<close>

lemma invoke_rpc_reconnects:
  assumes "fst (nw msg ep 1)" "fst (nw msg ep 2)" "snd (nw msg ep 2) = CallOk"
    and "snd (nw msg ep 1) = CallOk \<or> snd (nw msg ep 1) = CallFailed"
  shows "\<exists>cl'. invoke_rpc nw msg ep cl out = (True, cl', out @ [(ep, msg)])"
proof -
  obtain c1 where 1: "getClient (fst (nw msg ep (Suc 0))) ep cl = Return () c1"
    using getClient_connects assms(1) by force
  obtain c2 where 2: "getClient (fst (nw msg ep (Suc (Suc 0)))) ep (close_cached ep c1) = Return () c2"
    using getClient_connects assms(2) by (force simp: numeral_2_eq_2)
  show ?thesis
    using assms(3,4) 1 2
    by (auto simp: invoke_rpc_def invoke_loop.simps [of _ _ _ 0] invoke_loop.simps [of _ _ _ "Suc 0"]
          numeral_2_eq_2)
qed

text \<open>When no answer is lost, a call is delivered at most once.\<close>

definition no_lost_answer :: "network \<Rightarrow> bool" where
  "no_lost_answer nw \<longleftrightarrow> (\<forall>msg ep n. snd (nw msg ep n) \<noteq> CallLost)"

lemma invoke_rpc_at_most_once:
  assumes "no_lost_answer nw" "invoke_rpc nw msg ep cl out = (ok, cl', out')"
  shows "out' = out \<or> out' = out @ [(ep, msg)]"
  using assms
  by (auto simp: no_lost_answer_def invoke_rpc_def invoke_loop.simps [of _ _ _ 0]
        invoke_loop.simps [of _ _ _ "Suc 0"] invoke_loop.simps [of _ _ _ "Suc (Suc 0)"]
      split: res.splits call_result.splits)

text \<open>A call appends to what was delivered before.\<close>

lemma invoke_rpc_sends:
  obtains ok cl' o' where "invoke_rpc nw msg ep cl out = (ok, cl', out @ o')" "set o' \<subseteq> {(ep, msg)}"
proof -
  obtain ok cl' out' where r: "invoke_rpc nw msg ep cl out = (ok, cl', out')"
    by (metis prod_cases3)
  then obtain n where "out' = out @ replicate n (ep, msg)"
    using invoke_rpc_deliveries by blast
  then show ?thesis
    using r by (intro that [of ok cl' "replicate n (ep, msg)"]) auto
qed

section \<open>Delivery\<close>

text \<open>C32. A call to another replica is delivered at most twice, at least once when it is reported as
  answered, at most once when no answer is lost, and it is answered when the peer is up, even through a
  stale connection.\<close>

theorem call_delivery:
  assumes "invoke_rpc nw msg ep cl out = (ok, cl', out')"
  shows "\<exists>n \<le> 2. out' = out @ replicate n (ep, msg) \<and> (ok \<longrightarrow> 0 < n) \<and> (no_lost_answer nw \<longrightarrow> n \<le> 1) \<and>
    (fst (nw msg ep 1) \<and> fst (nw msg ep 2) \<and> snd (nw msg ep 1) \<noteq> CallLost \<and> snd (nw msg ep 2) = CallOk \<longrightarrow>
      ok \<and> n = 1)"
proof -
  obtain n where n: "n \<le> 2" "out' = out @ replicate n (ep, msg)" "ok \<longrightarrow> 0 < n"
    using invoke_rpc_deliveries [OF assms] by blast
  have "n \<le> 1" if "no_lost_answer nw"
    using invoke_rpc_at_most_once [OF that assms] n(2) by (auto dest: arg_cong [of _ _ length])
  moreover have "ok \<and> n = 1"
    if up: "fst (nw msg ep 1)" "fst (nw msg ep 2)" "snd (nw msg ep 1) \<noteq> CallLost" "snd (nw msg ep 2) = CallOk"
  proof -
    have "snd (nw msg ep 1) = CallOk \<or> snd (nw msg ep 1) = CallFailed"
      using up(3) by (cases "snd (nw msg ep 1)") auto
    from invoke_rpc_reconnects [of nw msg ep cl out, OF up(1,2,4) this] show ?thesis
      using assms n(2) by (auto dest: arg_cong [of _ _ length])
  qed
  ultimately show ?thesis
    using n by blast
qed

theorem call_delivery_witness:
  "\<exists>cl'. invoke_rpc (\<lambda>m ep i. (True, if i = 1 then CallFailed else CallOk)) (message.Commit \<lparr>ci_viewNum = 0, ci_commitNum = 1\<rparr>)
     EndPoint_default [] [] = (True, cl', [(EndPoint_default, message.Commit \<lparr>ci_viewNum = 0, ci_commitNum = 1\<rparr>)])"
proof -
  let ?nw = "\<lambda>m ep (i::nat). (True, if i = 1 then CallFailed else CallOk)"
  let ?m = "message.Commit \<lparr>ci_viewNum = 0, ci_commitNum = 1\<rparr>"
  obtain ok cl' out' where r: "invoke_rpc ?nw ?m EndPoint_default [] [] = (ok, cl', out')"
    by (metis prod_cases3)
  from call_delivery [OF r] have "ok \<and> out' = [(EndPoint_default, ?m)]"
    by auto
  then show ?thesis
    using r by auto
qed

end
