(* ===== verification/ViewChange.thy ===== *)
theory ViewChange
  imports Rpc
begin

text \<open>
  The view change (\<open>server/viewChangeHandler.cc\<close>): the handlers of the three view-change
  messages, \<open>changeView\<close>, which the heartbeat thread runs when it misses the primary, and
  \<open>updateNewView\<close>, which installs the new view.
\<close>

section \<open>State and environment\<close>

record vch = base +
  viewStartReqMap :: "ViewInt WaitMap"
  doViewChangeMap :: "ViewInt WaitMap"
  vcClWrappers :: clWrappers
  viewChangeInfoMap :: "(ViewInt, ViewChangeInfo list) umap"
  startViewMap :: "ViewInt WaitMap"
  viewStartInfoMap :: "(ViewInt, ViewStartInfo) umap"

text \<open>
  What \<open>changeView\<close> meets outside itself: the network, the clock, and its two waits on condition
  variables. A wait is a function on the state, because the message handlers run meanwhile.
\<close>

record 's vc_env =
  vce_net :: network
  vce_now :: time_point
  vce_wait_start :: "'s \<Rightarrow> cv_status \<times> 's"
  vce_wait_done :: "'s \<Rightarrow> cv_status \<times> 's"

section \<open>Helpers\<close>

definition getNextPrimaryCandidate :: "ReplicaId \<Rightarrow> 'a base_scheme \<Rightarrow> ReplicaId" where
  "getNextPrimaryCandidate currCandidate s =
     (let newPriId = currCandidate + 1
      in if unat newPriId > length (replicas s) then 0 else newPriId)"

definition invokeStartViewChange ::
  "network \<Rightarrow> ViewChangeRequest \<Rightarrow> EndPoint \<Rightarrow> 'a vch_scheme \<Rightarrow> 'a vch_scheme" where
  "invokeStartViewChange nw viewChangeReq ep s =
     (let (ok, cl, out) = invoke_rpc nw (StartViewChange viewChangeReq) ep (vcClWrappers s) (netOut s)
      in s\<lparr>vcClWrappers := cl, netOut := out\<rparr>)"

definition invokeDoViewChange ::
  "network \<Rightarrow> ViewChangeInfo \<Rightarrow> EndPoint \<Rightarrow> 'a vch_scheme \<Rightarrow> bool \<times> 'a vch_scheme" where
  "invokeDoViewChange nw viewChangeInfo ep s =
     (let (ok, cl, out) = invoke_rpc nw (DoViewChange viewChangeInfo) ep (vcClWrappers s) (netOut s)
      in (ok, s\<lparr>vcClWrappers := cl, netOut := out\<rparr>))"

definition invokeStartView ::
  "network \<Rightarrow> ViewStartInfo \<Rightarrow> EndPoint \<Rightarrow> 'a vch_scheme \<Rightarrow> 'a vch_scheme" where
  "invokeStartView nw viewStartInfo ep s =
     (let (ok, cl, out) = invoke_rpc nw (StartView viewStartInfo) ep (vcClWrappers s) (netOut s)
      in s\<lparr>vcClWrappers := cl, netOut := out\<rparr>)"

definition vc_cleanUp :: "'a vch_scheme \<Rightarrow> 'a vch_scheme" where
  "vc_cleanUp s =
     (if status s = NORMAL then
        s\<lparr>viewStartReqMap := WaitMap_clear (viewStartReqMap s),
          doViewChangeMap := WaitMap_clear (doViewChangeMap s),
          viewChangeInfoMap := [],
          startViewMap := WaitMap_clear (startViewMap s),
          viewStartInfoMap := []\<rparr>
      else s)"

text \<open>\<open>_replicas[id]\<close> inserts a default end point for an id the map does not have.\<close>

definition replicas_at :: "ReplicaId \<Rightarrow> 'a base_scheme \<Rightarrow> EndPoint \<times> 'a base_scheme" where
  "replicas_at i s =
     (case map_of (replicas s) i of
        Some ep \<Rightarrow> (ep, s)
      | None \<Rightarrow> (EndPoint_default, s\<lparr>replicas := um_put i EndPoint_default (replicas s)\<rparr>))"

section \<open>Message handlers\<close>

definition processStartViewChange :: "ViewChangeRequest \<Rightarrow> 'a vch_scheme \<Rightarrow> 'a vch_scheme" where
  "processStartViewChange viewChangeReq s =
     (if viewNum s > vcr_viewNum viewChangeReq then s
      else if status s = RECOVERING then s
      else let (cnt, m) = WaitMap_get (vcr_viewNum viewChangeReq) (viewStartReqMap s);
               s = s\<lparr>viewStartReqMap := m\<rparr>
           in if quorumReached cnt s then s
              else s\<lparr>viewStartReqMap := WaitMap_incr (vcr_viewNum viewChangeReq) (viewStartReqMap s)\<rparr>)"

definition viewChangeInfos :: "ViewInt \<Rightarrow> 'a vch_scheme \<Rightarrow> ViewChangeInfo list" where
  "viewChangeInfos v s = (case map_of (viewChangeInfoMap s) v of None \<Rightarrow> [] | Some is \<Rightarrow> is)"

definition processDoViewChange :: "ViewChangeInfo \<Rightarrow> 'a vch_scheme \<Rightarrow> 'a vch_scheme" where
  "processDoViewChange info s =
     (if viewNum s > vci_viewNum info then s
      else if status s = RECOVERING then s
      else s\<lparr>viewChangeInfoMap :=
               um_put (vci_viewNum info) (viewChangeInfos (vci_viewNum info) s @ [info])
                 (viewChangeInfoMap s),
             doViewChangeMap := WaitMap_incr (vci_viewNum info) (doViewChangeMap s)\<rparr>)"

definition processStartView :: "ViewStartInfo \<Rightarrow> 'a vch_scheme \<Rightarrow> ('a vch_scheme, unit) res" where
  "processStartView info s =
     (if viewNum s > vsi_viewNum info then Return () s
      else if status s = RECOVERING then Return () s
      else let newViewNum = vsi_viewNum info;
               s = (if status s \<noteq> VIEW_CHANGE then set_status VIEW_CHANGE s else s)
           in assert_res (map_of (viewStartInfoMap s) newViewNum = None)
                (let s = s\<lparr>viewStartInfoMap := um_put newViewNum info (viewStartInfoMap s),
                           startViewMap := WaitMap_incr newViewNum (startViewMap s)\<rparr>
                 in assert_res (WaitMap_cnt newViewNum (startViewMap s) = 1) (Return () s)))"

section \<open>Installing the new view\<close>

text \<open>
  The new primary's choice among the collected logs. When the old view number grows, the code
  takes the new candidate but keeps comparing with the old \<open>highestOpNum\<close>.
\<close>

fun candidate_loop :: "ViewChangeInfo list \<Rightarrow> nat \<Rightarrow> nat \<Rightarrow> ViewInt \<Rightarrow> OpInt \<Rightarrow> nat" where
  "candidate_loop [] i idx highestOldViewNum highestOpNum = idx"
| "candidate_loop (x # xs) i idx highestOldViewNum highestOpNum =
     (if vci_oldViewNum x = highestOldViewNum then
        if vci_opNum x > highestOpNum
        then candidate_loop xs (i + 1) i highestOldViewNum (vci_opNum x)
        else candidate_loop xs (i + 1) idx highestOldViewNum highestOpNum
      else if vci_oldViewNum x > highestOldViewNum
      then candidate_loop xs (i + 1) i (vci_oldViewNum x) highestOpNum
      else candidate_loop xs (i + 1) idx highestOldViewNum highestOpNum)"

definition candidateIdx :: "ViewChangeInfo list \<Rightarrow> nat" where
  "candidateIdx vcInfos =
     candidate_loop (tl vcInfos) 1 0 (vci_oldViewNum (hd vcInfos)) (vci_opNum (hd vcInfos))"

text \<open>
  The loop that applies the newly committed entries: \<open>i\<close> runs from the old commit number plus one
  while it is less than the number of entries.
\<close>

function apply_committed_loop :: "OpInt \<Rightarrow> 'a base_scheme \<Rightarrow> ('a base_scheme, unit) res" where
  "apply_committed_loop i s =
     (if i < of_nat (logSize (oplog s)) then
        case getLogEntry i (oplog s) of
          None \<Rightarrow> Abort
        | Some e \<Rightarrow>
            if le_committed e
            then (if replicatorRegistered s then apply_committed_loop (i + 1) (apply_entry e s)
                  else Abort)
            else apply_committed_loop (i + 1) s
      else Return () s)"
  by pat_completeness auto
termination
proof (relation "measure (\<lambda>(i, s). unat (of_nat (logSize (oplog s)) :: u64) - unat i)", goal_cases)
  case (2 i s e)
  then show ?case
    using unat_plus1 [OF less_imp_not_max [OF 2(1)]] by (simp add: word_less_nat_alt)
next
  case (3 i s e)
  then show ?case
    using unat_plus1 [OF less_imp_not_max [OF 3(1)]] by (simp add: word_less_nat_alt)
qed simp

declare apply_committed_loop.simps [simp del]

text \<open>The primary's part: adopt the candidate and build the message for the backups.\<close>

definition adopt_candidate :: "ViewInt \<Rightarrow> 'a vch_scheme \<Rightarrow> ('a vch_scheme, ViewStartInfo) res" where
  "adopt_candidate v s =
     (let vcInfos = viewChangeInfos v s
      in assert_res (length vcInfos \<ge> getMajorityCnt s)
           (let cand = vcInfos ! candidateIdx vcInfos;
                s = set_priId (selfId s) s;
                s = set_viewNum (vci_viewNum cand) s;
                s = set_opNum (vci_opNum cand) s;
                s = set_commitNum (vci_commitNum cand) s;
                s = set_oplog (setLog (vci_opLog cand) (oplog s)) s;
                (log, l) = getLog (oplog s);
                s = set_oplog l s
            in Return \<lparr>vsi_viewNum = vci_viewNum cand, vsi_opLog = log, vsi_opNum = vci_opNum cand,
                       vsi_commitNum = vci_commitNum cand, vsi_replicaId = selfId s\<rparr> s))"

text \<open>The backup's part; a missing entry would be a null pointer.\<close>

definition adopt_view :: "ViewInt \<Rightarrow> 'a vch_scheme \<Rightarrow> ('a vch_scheme, unit) res" where
  "adopt_view v s =
     (case map_of (viewStartInfoMap s) v of
        None \<Rightarrow> Abort
      | Some info \<Rightarrow>
          assert_res (vsi_viewNum info = v)
            (let s = set_priId (vsi_replicaId info) s;
                 s = set_viewNum (vsi_viewNum info) s;
                 s = set_opNum (vsi_opNum info) s;
                 s = set_commitNum (vsi_commitNum info) s;
                 s = set_oplog (setLog (vsi_opLog info) (oplog s)) s
             in Return () s))"

text \<open>The common rest: apply what is newly committed, then go back to normal.\<close>

definition finish_view :: "time_point \<Rightarrow> CommitInt \<Rightarrow> 'a vch_scheme \<Rightarrow> ('a vch_scheme, unit) res" where
  "finish_view now oldCommitNum s =
     (case getLogEntry oldCommitNum (oplog s) of
        None \<Rightarrow> Abort
      | Some e \<Rightarrow>
          assert_res (le_committed e)
            (bind_res (apply_committed_loop (oldCommitNum + 1) s) (\<lambda>_ s.
               let s = set_lastCommitTime now s in Return () (set_status NORMAL s))))"

definition updateNewView ::
  "network \<Rightarrow> time_point \<Rightarrow> ViewInt \<Rightarrow> bool \<Rightarrow> 'a vch_scheme \<Rightarrow> ('a vch_scheme, unit) res" where
  "updateNewView nw now v asPrimary s =
     (let oldCommitNum = commitNum s
      in if asPrimary then
           bind_res (adopt_candidate v s) (\<lambda>viewStartInfo s.
             bind_res (finish_view now oldCommitNum s) (\<lambda>_ s.
               assert_res (vsi_viewNum viewStartInfo = v)
                 (Return () (vc_cleanUp
                   (invokeForAllReplicas (selfId s) (invokeStartView nw viewStartInfo) s)))))
         else
           bind_res (adopt_view v s) (\<lambda>_ s.
             bind_res (finish_view now oldCommitNum s) (\<lambda>_ s. Return () (vc_cleanUp s))))"

section \<open>Changing the view\<close>

text \<open>
  The search for the next primary: \<open>newPriId\<close> advances until it is the own id or the call is
  answered; after \<open>_replicas.size() - 1\<close> failures the loop gives up with the last candidate. The
  fuel bounds the number of rounds.
\<close>

fun pick_primary ::
  "network \<Rightarrow> ViewChangeInfo \<Rightarrow> nat \<Rightarrow> nat \<Rightarrow> ReplicaId \<Rightarrow> 'a vch_scheme \<Rightarrow>
   (ReplicaId \<times> 'a vch_scheme) option"
where
  "pick_primary nw info 0 cnt newPriId s = None"
| "pick_primary nw info (Suc fuel) cnt newPriId s =
     (if newPriId = selfId s then Some (newPriId, s)
      else let (ep, s) = replicas_at newPriId s;
               (ok, s) = invokeDoViewChange nw info ep s
           in if ok then Some (newPriId, s)
              else if cnt + 1 = length (replicas s) - 1 then Some (newPriId, s)
              else pick_primary nw info fuel (cnt + 1) (getNextPrimaryCandidate newPriId s) s)"

text \<open>The wait of the new primary for \<open>doViewChange\<close> messages.\<close>

definition wait_as_primary :: "'a vch_scheme vc_env \<Rightarrow> ViewInt \<Rightarrow> 'a vch_scheme \<Rightarrow> ('a vch_scheme, unit) res"
where
  "wait_as_primary env v s =
     (let (st, s) = (if quorumReached (WaitMap_cnt v (doViewChangeMap s)) s
                     then (no_timeout, s) else vce_wait_done env s)
      in if st = timeout then Return () s
         else assert_res (quorumReached (WaitMap_cnt v (doViewChangeMap s)) s)
                (updateNewView (vce_net env) (vce_now env) v True s))"

text \<open>The wait of a backup for the new primary's \<open>startView\<close>.\<close>

definition wait_as_backup :: "'a vch_scheme vc_env \<Rightarrow> ViewInt \<Rightarrow> 'a vch_scheme \<Rightarrow> ('a vch_scheme, unit) res"
where
  "wait_as_backup env v s =
     (let s = s\<lparr>startViewMap := snd (WaitMap_get v (startViewMap s))\<rparr>;
          (st, s) = (if WaitMap_cnt v (startViewMap s) = 1
                     then (no_timeout, s) else vce_wait_done env s)
      in if st = timeout then Return () s
         else assert_res (WaitMap_cnt v (startViewMap s) = 1)
                (updateNewView (vce_net env) (vce_now env) v False s))"

text \<open>After the quorum of \<open>startViewChange\<close> requests. The information carries the commit number
  as its operation number too.\<close>

definition changeView_quorum ::
  "'a vch_scheme vc_env \<Rightarrow> ViewInt \<Rightarrow> ViewInt \<Rightarrow> 'a vch_scheme \<Rightarrow> ('a vch_scheme, unit) res" where
  "changeView_quorum env oldViewNum newViewNum s =
     (let (log, l) = getLog (oplog s);
          s = set_oplog l s;
          info = \<lparr>vci_viewNum = newViewNum, vci_opLog = log, vci_oldViewNum = oldViewNum,
                  vci_opNum = commitNum s, vci_commitNum = commitNum s,
                  vci_replicaId = selfId s\<rparr>;
          s = s\<lparr>viewChangeInfoMap :=
                  um_put newViewNum (viewChangeInfos newViewNum s @ [info]) (viewChangeInfoMap s)\<rparr>;
          s = s\<lparr>doViewChangeMap := WaitMap_incr newViewNum (doViewChangeMap s)\<rparr>
      in case pick_primary (vce_net env) info (length (replicas s) + 2) 0
                (getNextPrimaryCandidate (priId s) s) s of
           None \<Rightarrow> Abort
         | Some (newPriId, s) \<Rightarrow>
             let s = set_priId newPriId s
             in if newPriId = selfId s then wait_as_primary env newViewNum s
                else wait_as_backup env newViewNum s)"

definition changeView :: "'a vch_scheme vc_env \<Rightarrow> 'a vch_scheme \<Rightarrow> ('a vch_scheme, unit) res" where
  "changeView env s =
     (let s = set_status VIEW_CHANGE s;
          oldViewNum = viewNum s;
          (newViewNum, r) = ReplicaState_incrementViewNum (rstate s);
          s = s\<lparr>rstate := r\<rparr>
      in if map_of (viewStartInfoMap s) newViewNum \<noteq> None
         then updateNewView (vce_net env) (vce_now env) newViewNum False s
         else
           let req = \<lparr>vcr_viewNum = newViewNum, vcr_replicaId = selfId s\<rparr>;
               s = invokeForAllReplicas (selfId s) (invokeStartViewChange (vce_net env) req) s;
               s = s\<lparr>viewStartReqMap := WaitMap_incr newViewNum (viewStartReqMap s)\<rparr>;
               (st, s) = (if quorumReached (WaitMap_cnt newViewNum (viewStartReqMap s)) s
                          then (no_timeout, s) else vce_wait_start env s)
           in if st = timeout then Return () s
              else changeView_quorum env oldViewNum newViewNum s)"

end
