(* ===== verification/Recovery.thy ===== *)
theory Recovery
  imports ViewChange
begin

text \<open>
  Recovery of a restarted replica (\<open>server/recoveryHandler.cc\<close>): the request it broadcasts, the
  thread that answers requests, the collection of answers and the installation of the primary's
  log.
\<close>

section \<open>State\<close>

record rch = vch +
  recoveryReqQ :: "RecoveryRequest CQueue"
  recWaitMap :: "Nonce WaitMap"
  recClWrappers :: clWrappers
  recoveryRespMap :: "(Nonce, RecoveryResponse list) umap"
  respViewCnt :: "(ViewInt, nat) umap"
  receivedRespFromPri :: bool
  recThreadAlive :: bool

record 's rec_env =
  rce_net :: network
  rce_now :: time_point
  rce_wait :: "'s \<Rightarrow> cv_status \<times> 's"

section \<open>Operations\<close>

definition invokeRecoveryRequest ::
  "network \<Rightarrow> RecoveryRequest \<Rightarrow> EndPoint \<Rightarrow> 'a rch_scheme \<Rightarrow> 'a rch_scheme" where
  "invokeRecoveryRequest nw recoveryReq ep s =
     (let (ok, cl, out) = invoke_rpc nw (RecoveryReq recoveryReq) ep (recClWrappers s) (netOut s)
      in s\<lparr>recClWrappers := cl, netOut := out\<rparr>)"

definition invokeRecoveryResponse ::
  "network \<Rightarrow> RecoveryResponse \<Rightarrow> EndPoint \<Rightarrow> 'a rch_scheme \<Rightarrow> 'a rch_scheme" where
  "invokeRecoveryResponse nw recoveryResp ep s =
     (let (ok, cl, out) = invoke_rpc nw (RecoveryResp recoveryResp) ep (recClWrappers s) (netOut s)
      in s\<lparr>recClWrappers := cl, netOut := out\<rparr>)"

text \<open>
  \<open>responseDone\<close>: an answer from a primary, a quorum of answers to this nonce, and a view that a
  majority of answers named.
\<close>

definition responseDone :: "Nonce \<Rightarrow> 'a rch_scheme \<Rightarrow> bool \<times> 'a rch_scheme" where
  "responseDone nonce s =
     (let (cnt, m) = WaitMap_get nonce (recWaitMap s);
          s = s\<lparr>recWaitMap := m\<rparr>
      in (receivedRespFromPri s \<and> quorumReached cnt s \<and>
            list_ex (\<lambda>(v, n). n \<ge> getMajorityCnt s) (respViewCnt s), s))"

fun recoverStateFromLog :: "OpLog \<Rightarrow> 'a kvmem_scheme \<Rightarrow> ('a kvmem_scheme, unit) res" where
  "recoverStateFromLog [] s = Return () s"
| "recoverStateFromLog (e # es) s =
     (if le_committed e
      then assert_res (replicatorRegistered s) (recoverStateFromLog es (apply_entry e s))
      else recoverStateFromLog es s)"

definition rec_cleanup :: "'a rch_scheme \<Rightarrow> 'a rch_scheme" where
  "rec_cleanup s = s\<lparr>recWaitMap := WaitMap_clear (recWaitMap s), recClWrappers := [],
     recoveryRespMap := [], respViewCnt := [], receivedRespFromPri := False\<rparr>"

text \<open>The first view that a majority of answers named, 0 when there is none.\<close>

fun highest_view :: "nat \<Rightarrow> (ViewInt, nat) umap \<Rightarrow> ViewInt" where
  "highest_view majority [] = 0"
| "highest_view majority ((v, n) # m) = (if n \<ge> majority then v else highest_view majority m)"

text \<open>The loop over the answers: install the primary's log and stop.\<close>

fun recover_loop ::
  "time_point \<Rightarrow> ViewInt \<Rightarrow> RecoveryResponse list \<Rightarrow> 'a rch_scheme \<Rightarrow> ('a rch_scheme, unit) res" where
  "recover_loop now highestViewNum [] s = Return () s"
| "recover_loop now highestViewNum (r # rs) s =
     (if rrs_viewNum r = highestViewNum \<and> rrs_isPrimary r then
        bind_res (recoverStateFromLog (rrs_opLog r) s) (\<lambda>_ s.
          let s = set_priId (rrs_replicaId r) s;
              s = set_viewNum (rrs_viewNum r) s;
              s = set_opNum (rrs_opNum r) s;
              s = set_commitNum (rrs_commitNum r) s;
              s = set_oplog (setLog (rrs_opLog r) (oplog s)) s;
              s = set_lastCommitTime now s
          in Return () (set_status NORMAL s))
      else assert_res (highestViewNum \<ge> rrs_viewNum r) (recover_loop now highestViewNum rs s))"

definition recoveryResponses :: "Nonce \<Rightarrow> 'a rch_scheme \<Rightarrow> RecoveryResponse list" where
  "recoveryResponses nonce s = (case map_of (recoveryRespMap s) nonce of None \<Rightarrow> [] | Some rs \<Rightarrow> rs)"

definition recover :: "'a rch_scheme rec_env \<Rightarrow> 'a rch_scheme \<Rightarrow> ('a rch_scheme, unit) res" where
  "recover env s =
     (let s = set_status RECOVERING s;
          nonce = of_int (rce_now env div ns_per_sec);
          req = \<lparr>rrq_replicaId = selfId s, rrq_nonce = nonce, rrq_knownCommitNum = 0\<rparr>;
          s = invokeForAllReplicas (selfId s) (invokeRecoveryRequest (rce_net env) req) s;
          s = s\<lparr>recWaitMap := snd (WaitMap_get nonce (recWaitMap s))\<rparr>;
          (done, s) = responseDone nonce s;
          (st, s) = (if done then (no_timeout, s) else rce_wait env s)
      in if st = timeout then Raise (RuntimeError ''Recovery timed out'') s
         else
           let highestViewNum = highest_view (getMajorityCnt s) (respViewCnt s)
           in bind_res (recover_loop (rce_now env) highestViewNum (recoveryResponses nonce s) s)
                (\<lambda>_ s. assert_res (status s = NORMAL) (Return () (rec_cleanup s))))"

definition processRecoveryRequest :: "RecoveryRequest \<Rightarrow> 'a rch_scheme \<Rightarrow> 'a rch_scheme" where
  "processRecoveryRequest recoveryReq s =
     (if status s \<noteq> NORMAL then s
      else s\<lparr>recoveryReqQ := CQueue_push recoveryReq (recoveryReqQ s)\<rparr>)"

text \<open>
  One answer. The first component is \<open>notify\<close>: after each single answer \<open>responseDone\<close> is evaluated for the
  nonce the answer names, and when it holds \<open>notify_one\<close> wakes the thread that waits on that nonce, if there is one.
\<close>

definition processRecoveryResponse_notify ::
  "RecoveryResponse \<Rightarrow> 'a rch_scheme \<Rightarrow> bool \<times> 'a rch_scheme" where
  "processRecoveryResponse_notify resp s =
     (if status s \<noteq> RECOVERING then (False, s)
      else
        let nonce = rrs_nonce resp;
            s = (if rrs_isPrimary resp then s\<lparr>receivedRespFromPri := True\<rparr> else s);
            s = s\<lparr>respViewCnt := WaitMap_incr (rrs_viewNum resp) (respViewCnt s)\<rparr>;
            s = s\<lparr>recoveryRespMap :=
                    um_put nonce (recoveryResponses nonce s @ [resp]) (recoveryRespMap s)\<rparr>;
            s = s\<lparr>recWaitMap := WaitMap_incr nonce (recWaitMap s)\<rparr>
        in responseDone nonce s)"

definition processRecoveryResponse :: "RecoveryResponse \<Rightarrow> 'a rch_scheme \<Rightarrow> 'a rch_scheme" where
  "processRecoveryResponse resp s = snd (processRecoveryResponse_notify resp s)"

text \<open>
  The wait of \<open>recover\<close> while the answers \<open>rs\<close> arrive: the first one that notifies the waiter's nonce wakes it, and it
  returns when it has got its mutex back, after \<open>k\<close> further answers. When none notifies, the time runs out.
\<close>

fun await_response :: "Nonce \<Rightarrow> nat \<Rightarrow> RecoveryResponse list \<Rightarrow> 'a rch_scheme \<Rightarrow> cv_status \<times> 'a rch_scheme" where
  "await_response nonce k [] s = (timeout, s)"
| "await_response nonce k (r # rs) s =
     (let (notify, s) = processRecoveryResponse_notify r s
      in if notify \<and> rrs_nonce r = nonce then (no_timeout, fold processRecoveryResponse (take k rs) s)
         else await_response nonce k rs s)"

definition recovery_env :: "network \<Rightarrow> time_point \<Rightarrow> nat \<Rightarrow> RecoveryResponse list \<Rightarrow> 'a rch_scheme rec_env" where
  "recovery_env nw now k rs = \<lparr>rce_net = nw, rce_now = now, rce_wait = await_response (of_int (now div ns_per_sec)) k rs\<rparr>"

text \<open>A wait that returns at any time, notified or not (a spurious wake-up), after the answers \<open>rs\<close>.\<close>

definition woken_env :: "network \<Rightarrow> time_point \<Rightarrow> RecoveryResponse list \<Rightarrow> 'a rch_scheme rec_env" where
  "woken_env nw now rs = \<lparr>rce_net = nw, rce_now = now, rce_wait = (\<lambda>s. (no_timeout, fold processRecoveryResponse rs s))\<rparr>"

text \<open>
  One round of the thread \<open>processRecoveryReqInt\<close>: \<^term>\<open>None\<close> while it is blocked on the queue or
  gone. In a status other than normal the thread function returns, so the thread ends.
\<close>

definition processRecoveryReqInt :: "network \<Rightarrow> 'a rch_scheme \<Rightarrow> 'a rch_scheme option" where
  "processRecoveryReqInt nw s =
     (if \<not> recThreadAlive s then None
      else case CQueue_pop (recoveryReqQ s) of
          None \<Rightarrow> None
        | Some (recoveryReq, q) \<Rightarrow>
            let s = s\<lparr>recoveryReqQ := q\<rparr>
            in if status s \<noteq> NORMAL then Some (s\<lparr>recThreadAlive := False\<rparr>)
               else
                 let (isPri, log, l, op, cm) =
                       (if priId s = selfId s
                        then (True, fst (getLog (oplog s)), snd (getLog (oplog s)), opNum s, commitNum s)
                        else (False, [], oplog s, 0, 0));
                     s = set_oplog l s;
                     resp = \<lparr>rrs_viewNum = viewNum s, rrs_nonce = rrq_nonce recoveryReq,
                             rrs_replicaId = selfId s, rrs_isPrimary = isPri, rrs_opLog = log,
                             rrs_opNum = op, rrs_commitNum = cm\<rparr>;
                     (ep, s) = replicas_at (rrq_replicaId recoveryReq) s
                 in Some (invokeRecoveryResponse nw resp ep s))"

end
