(* ===== verification/Replicator.thy ===== *)
theory Replicator
  imports Recovery
begin

text \<open>
  The replicator (\<open>server/vsReplicator.cc\<close>): replication of an operation by the primary, the
  handlers of the prepare and commit messages, the thread that logs prepared operations and the
  heartbeat thread, which also starts recovery and view changes. The process state is complete
  here.
\<close>

section \<open>State and environment\<close>

record replica = rch +
  prepReqQ :: "PrepInfo CQueue"
  repWaitMap :: "OpInt WaitMap"
  repClWrappers :: clWrappers
  threadsStarted :: bool

text \<open>
  What a replicated operation meets: the network, the wait for the mutex \<open>_repMutex\<close> (the state in which it is
  acquired, whatever other threads did before), and the wait for the quorum.
\<close>

record 's rep_env =
  rpe_net :: network
  rpe_lock :: "'s \<Rightarrow> 's"
  rpe_wait :: "'s \<Rightarrow> cv_status \<times> 's"

text \<open>The constructors: \<open>VsReplicator\<close>, with its handlers, over an empty log. The flag
  \<open>_receivedRespFromPri\<close> is not initialised by the code, so its first value is an input.\<close>

definition replica_new ::
  "ReplicaId \<Rightarrow> (ReplicaId, EndPoint) umap \<Rightarrow> time_point \<Rightarrow> bool \<Rightarrow> replica" where
  "replica_new i reps now uninit =
     \<lparr>kvMap = [], replicatorRegistered = False, selfId = i, replicas = reps,
      rstate = ReplicaState_new now, oplog = InMemOpLog_new, netOut = [],
      viewStartReqMap = [], doViewChangeMap = [], vcClWrappers = [], viewChangeInfoMap = [],
      startViewMap = [], viewStartInfoMap = [],
      recoveryReqQ = [], recWaitMap = [], recClWrappers = [], recoveryRespMap = [],
      respViewCnt = [], receivedRespFromPri = uninit, recThreadAlive = True,
      prepReqQ = [], repWaitMap = [], repClWrappers = [], threadsStarted = False\<rparr>"

definition VsReplicator_start :: "bool \<Rightarrow> 'a replica_scheme \<Rightarrow> ('a replica_scheme, unit) res" where
  "VsReplicator_start recovering s =
     assert_res (\<not> threadsStarted s)
       (assert_res (replicatorRegistered s)
         (let s = (if recovering then set_status RECOVERING s else s)
          in Return () (s\<lparr>threadsStarted := True\<rparr>)))"

definition VsReplicator_isPrimary :: "'a base_scheme \<Rightarrow> bool" where
  "VsReplicator_isPrimary s \<longleftrightarrow> selfId s = priId s"

section \<open>Sending\<close>

definition invokePrepare ::
  "network \<Rightarrow> PrepInfo \<Rightarrow> EndPoint \<Rightarrow> 'a replica_scheme \<Rightarrow> 'a replica_scheme" where
  "invokePrepare nw prepInfo ep s =
     (let (ok, cl, out) = invoke_rpc nw (Prepare prepInfo) ep (repClWrappers s) (netOut s)
      in s\<lparr>repClWrappers := cl, netOut := out\<rparr>)"

definition invokePrepareOk ::
  "network \<Rightarrow> PrepResponse \<Rightarrow> EndPoint \<Rightarrow> 'a replica_scheme \<Rightarrow> 'a replica_scheme" where
  "invokePrepareOk nw prepResponse ep s =
     (let (ok, cl, out) = invoke_rpc nw (PrepareOk prepResponse) ep (repClWrappers s) (netOut s)
      in s\<lparr>repClWrappers := cl, netOut := out\<rparr>)"

definition invokeCommit ::
  "network \<Rightarrow> CommitInfo \<Rightarrow> EndPoint \<Rightarrow> 'a replica_scheme \<Rightarrow> 'a replica_scheme" where
  "invokeCommit nw commitInfo ep s =
     (let (ok, cl, out) = invoke_rpc nw (message.Commit commitInfo) ep (repClWrappers s) (netOut s)
      in s\<lparr>repClWrappers := cl, netOut := out\<rparr>)"

section \<open>Replicating an operation\<close>

definition log_append :: "PrepInfo \<Rightarrow> InMemOpLog \<Rightarrow> InMemOpLog" where
  "log_append p l = (case pi_opType p of
      UPDATE \<Rightarrow> appendUpdate (pi_kvPair p) (pi_opNum p) l
    | DELETE \<Rightarrow> appendDelete (kvp_key (pi_kvPair p)) (pi_opNum p) l)"

text \<open>The part before the wait, and whether the quorum is reached already.\<close>

definition replicate_begin :: "network \<Rightarrow> PrepInfo \<Rightarrow> 'a replica_scheme \<Rightarrow> bool \<times> 'a replica_scheme" where
  "replicate_begin nw p s =
     (let s = set_oplog (log_append p (oplog s)) s;
          s = s\<lparr>repWaitMap := snd (WaitMap_get (pi_opNum p) (repWaitMap s))\<rparr>;
          s = invokeForAllReplicas (selfId s) (invokePrepare nw p) s;
          s = s\<lparr>repWaitMap := WaitMap_incr (pi_opNum p) (repWaitMap s)\<rparr>
      in (quorumReached (WaitMap_cnt (pi_opNum p) (repWaitMap s)) s, s))"

text \<open>The part after the wait: commit, tell the backups, forget the response.\<close>

definition replicate_commit :: "network \<Rightarrow> PrepInfo \<Rightarrow> 'a replica_scheme \<Rightarrow> ('a replica_scheme, unit) res" where
  "replicate_commit nw p s =
     (case commit (pi_opNum p) (oplog s) of
        None \<Rightarrow> Abort
      | Some l \<Rightarrow>
          let s = set_oplog l s;
              s = set_commitNum (pi_opNum p) s;
              commitInfo = \<lparr>ci_viewNum = pi_viewNum p, ci_commitNum = pi_opNum p\<rparr>;
              s = invokeForAllReplicas (selfId s) (invokeCommit nw commitInfo) s
          in Return () (s\<lparr>repWaitMap := WaitMap_erase (pi_opNum p) (repWaitMap s)\<rparr>))"

definition VsReplicator_replicate ::
  "'a replica_scheme rep_env \<Rightarrow> PrepInfo \<Rightarrow> 'a replica_scheme \<Rightarrow> ('a replica_scheme, unit) res" where
  "VsReplicator_replicate env p s =
     (if status s \<noteq> NORMAL then Raise ReplicaStateNotNormal s
      else
        let (quorum, s) = replicate_begin (rpe_net env) p s;
            (st, s) = (if quorum then (no_timeout, s) else rpe_wait env s)
        in if st = timeout then Raise QuorumNotReached s
           else replicate_commit (rpe_net env) p s)"

text \<open>
  The caller has tested \<open>isPrimary\<close> without the mutex; waiting for it can take as long as a view change, and then
  the primary is asserted again.
\<close>

definition VsReplicator_replicateUpdate ::
  "'a replica_scheme rep_env \<Rightarrow> string \<Rightarrow> string \<Rightarrow> 'a replica_scheme \<Rightarrow> ('a replica_scheme, unit) res"
where
  "VsReplicator_replicateUpdate env key val s =
     assert_res (threadsStarted s)
       (let s = rpe_lock env s
        in assert_res (VsReplicator_isPrimary s)
         (let (n, r) = ReplicaState_incrementOpNum (rstate s);
              prepInfo = \<lparr>pi_viewNum = viewNum s, pi_kvPair = \<lparr>kvp_key = key, kvp_val = val\<rparr>,
                          pi_opNum = n, pi_opType = UPDATE, pi_commitNum = commitNum s\<rparr>
          in VsReplicator_replicate env prepInfo (s\<lparr>rstate := r\<rparr>)))"

definition VsReplicator_replicateDelete ::
  "'a replica_scheme rep_env \<Rightarrow> string \<Rightarrow> 'a replica_scheme \<Rightarrow> ('a replica_scheme, unit) res"
where
  "VsReplicator_replicateDelete env key s =
     assert_res (threadsStarted s)
       (let s = rpe_lock env s
        in assert_res (VsReplicator_isPrimary s)
         (let (n, r) = ReplicaState_incrementOpNum (rstate s);
              prepInfo = \<lparr>pi_viewNum = viewNum s, pi_kvPair = \<lparr>kvp_key = key, kvp_val = []\<rparr>,
                          pi_opNum = n, pi_opType = DELETE, pi_commitNum = commitNum s\<rparr>
          in VsReplicator_replicate env prepInfo (s\<lparr>rstate := r\<rparr>)))"

text \<open>The virtual functions the store calls.\<close>

definition vsReplicator :: "'a replica_scheme rep_env \<Rightarrow> 'a replica_scheme IReplicator" where
  "vsReplicator env =
     \<lparr>replicateUpdate = VsReplicator_replicateUpdate env,
      replicateDelete = VsReplicator_replicateDelete env,
      isPrimary = VsReplicator_isPrimary\<rparr>"

section \<open>Message handlers\<close>

definition processPrepare :: "PrepInfo \<Rightarrow> 'a replica_scheme \<Rightarrow> 'a replica_scheme" where
  "processPrepare prepInfo s =
     (if status s \<noteq> NORMAL then s
      else if pi_viewNum prepInfo \<noteq> viewNum s then s
      else s\<lparr>prepReqQ := CQueue_push prepInfo (prepReqQ s)\<rparr>)"

definition processPrepareOk :: "PrepResponse \<Rightarrow> 'a replica_scheme \<Rightarrow> 'a replica_scheme" where
  "processPrepareOk r s =
     (if status s \<noteq> NORMAL then s
      else if pr_viewNum r \<noteq> viewNum s then s
      else let (cnt, m) = WaitMap_get (pr_opNum r) (repWaitMap s);
               s = s\<lparr>repWaitMap := m\<rparr>
           in if quorumReached cnt s then s
              else s\<lparr>repWaitMap := WaitMap_incr (pr_opNum r) (repWaitMap s)\<rparr>)"

text \<open>
  \<open>processCommit\<close>. The second assertion contains an assignment: \<open>commitInfo->commitNum\<close> becomes
  the own commit number plus one, and the assertion fails only when that is 0.
\<close>

definition processCommit ::
  "time_point \<Rightarrow> CommitInfo \<Rightarrow> 'a replica_scheme \<Rightarrow> ('a replica_scheme, unit) res" where
  "processCommit now c s =
     (let s = set_lastCommitTime now s
      in if status s \<noteq> NORMAL then Return () s
         else if ci_viewNum c \<noteq> viewNum s then Return () s
         else
           assert_res (ci_commitNum c > 0 \<and> ci_commitNum c \<le> commitNum s \<longrightarrow>
               (case getLogEntry (ci_commitNum c) (oplog s) of None \<Rightarrow> False | Some e \<Rightarrow> le_committed e))
             (if ci_commitNum c > commitNum s then
                let n = commitNum s + 1
                in assert_res (n \<noteq> 0)
                     (if \<not> hasEntry n (oplog s) then Return () s
                      else
                        let s = set_commitNum n s
                        in case commit n (oplog s) of
                             None \<Rightarrow> Abort
                           | Some l \<Rightarrow>
                               let s = set_oplog l s
                               in case getLogEntry n (oplog s) of
                                    None \<Rightarrow> Abort
                                  | Some e \<Rightarrow> assert_res (replicatorRegistered s)
                                      (Return () (apply_entry e s)))
              else Return () s))"

text \<open>The messages of the two handlers pass through the replicator.\<close>

definition VsReplicator_processStartViewChange :: "ViewChangeRequest \<Rightarrow> 'a replica_scheme \<Rightarrow> 'a replica_scheme" where
  [simp]: "VsReplicator_processStartViewChange viewChangeReq s = processStartViewChange viewChangeReq s"

definition VsReplicator_processDoViewChange :: "ViewChangeInfo \<Rightarrow> 'a replica_scheme \<Rightarrow> 'a replica_scheme" where
  [simp]: "VsReplicator_processDoViewChange viewChangeInfo s = processDoViewChange viewChangeInfo s"

definition VsReplicator_processStartView :: "ViewStartInfo \<Rightarrow> 'a replica_scheme \<Rightarrow> ('a replica_scheme, unit) res" where
  [simp]: "VsReplicator_processStartView viewStartInfo = processStartView viewStartInfo"

definition VsReplicator_processRecoveryRequest :: "RecoveryRequest \<Rightarrow> 'a replica_scheme \<Rightarrow> 'a replica_scheme" where
  [simp]: "VsReplicator_processRecoveryRequest recoveryReq s = processRecoveryRequest recoveryReq s"

definition VsReplicator_processRecoveryResponse :: "RecoveryResponse \<Rightarrow> 'a replica_scheme \<Rightarrow> 'a replica_scheme" where
  [simp]: "VsReplicator_processRecoveryResponse recoveryResp s = processRecoveryResponse recoveryResp s"

text \<open>One round of the thread \<open>processPrepInfo\<close>: what it does once it has the mutex.\<close>

definition logPrepInfo :: "network \<Rightarrow> PrepInfo \<Rightarrow> 'a replica_scheme \<Rightarrow> ('a replica_scheme, unit) res" where
  "logPrepInfo nw p s =
     assert_res (pi_opNum p = opNum s + 1)
       (let s = set_opNum (pi_opNum p) s;
            s = set_oplog (log_append p (oplog s)) s;
            prepResponse = \<lparr>pr_viewNum = viewNum s, pr_opNum = pi_opNum p, pr_replicaId = selfId s\<rparr>;
            (priEp, s) = replicas_at (priId s) s
        in Return () (invokePrepareOk nw prepResponse priEp s))"

text \<open>
  The round: \<^term>\<open>None\<close> while it waits for a request. The status and the view are tested before the mutex is
  acquired, and not again afterwards; \<open>lock\<close> gives the state in which it is acquired.
\<close>

definition processPrepInfo_wait ::
  "('a replica_scheme \<Rightarrow> 'a replica_scheme) \<Rightarrow> network \<Rightarrow> 'a replica_scheme \<Rightarrow> ('a replica_scheme, unit) res option" where
  "processPrepInfo_wait lock nw s =
     (case CQueue_pop (prepReqQ s) of
        None \<Rightarrow> None
      | Some (p, q) \<Rightarrow> Some
          (let s = s\<lparr>prepReqQ := q\<rparr>
           in if VsReplicator_isPrimary s then Return () s
              else if status s \<noteq> NORMAL then Return () s
              else if pi_viewNum p \<noteq> viewNum s then Return () s
              else logPrepInfo nw p (lock s)))"

text \<open>A round that finds the mutex free.\<close>

definition processPrepInfo :: "network \<Rightarrow> 'a replica_scheme \<Rightarrow> ('a replica_scheme, unit) res option" where
  "processPrepInfo nw s = processPrepInfo_wait (\<lambda>s. s) nw s"

lemmas processPrepInfo_defs = processPrepInfo_def processPrepInfo_wait_def logPrepInfo_def

section \<open>The heartbeat\<close>

definition HEART_BEAT_TIMEOUT :: int where
  "HEART_BEAT_TIMEOUT = 3"

text \<open>An exception in a thread function that nothing catches ends the process.\<close>

fun uncaught :: "('s, 'x) res \<Rightarrow> ('s, 'x) res" where
  "uncaught (Raise e s) = Abort"
| "uncaught r = r"

record 's hb_env =
  hbe_net :: network
  hbe_now :: time_point
  hbe_recovery :: "'s rec_env"
  hbe_view_change :: "'s vc_env"

text \<open>One round of the loop; the result says whether the next round follows without the sleep.\<close>

definition heartBeat :: "'a replica_scheme hb_env \<Rightarrow> 'a replica_scheme \<Rightarrow> ('a replica_scheme, bool) res" where
  "heartBeat env s =
     bind_res (if status s = RECOVERING then uncaught (recover (hbe_recovery env) s) else Return () s)
       (\<lambda>_ s.
          if VsReplicator_isPrimary s \<and> status s = NORMAL then
            let commitInfo = \<lparr>ci_viewNum = viewNum s, ci_commitNum = commitNum s\<rparr>
            in Return False (invokeForAllReplicas (selfId s) (invokeCommit (hbe_net env) commitInfo) s)
          else if status s = VIEW_CHANGE then
            bind_res (uncaught (changeView (hbe_view_change env) s)) (\<lambda>_ s. Return False s)
          else if hbe_now env - lastCommitTime s > HEART_BEAT_TIMEOUT * ns_per_sec then
            bind_res (uncaught (changeView (hbe_view_change env) s)) (\<lambda>_ s.
              Return (VsReplicator_isPrimary s \<and> status s = NORMAL) s)
          else Return False s)"

end
