(* ===== verification/Replication.thy ===== *)
theory Replication
  imports Replicator
begin

text \<open>
  Normal operation of one replica. A replica is \<open>regular\<close> when its log holds the operations 1 to
  \<open>opNum\<close> in order, exactly the ones up to \<open>commitNum\<close> are marked committed, and its store is the
  replay of those. The theory shows which steps of \<open>Replicator\<close> keep a replica regular and what
  they do to its log; the cluster theory builds on it.
\<close>

section \<open>Logs as lists of operations\<close>

type_synonym operation = "KvPair \<times> OpType"

definition entry_op :: "LogEntry \<Rightarrow> operation" where
  "entry_op e = (le_kvPair e, le_opType e)"

definition log_ops :: "InMemOpLog \<Rightarrow> operation list" where
  "log_ops l = map entry_op (fst (getLog l))"

fun op_effect :: "operation \<Rightarrow> (string \<Rightarrow> string option) \<Rightarrow> (string \<Rightarrow> string option)" where
  "op_effect (kv, UPDATE) m = m(kvp_key kv \<mapsto> kvp_val kv)"
| "op_effect (kv, DELETE) m = m(kvp_key kv := None)"

definition replay_ops :: "operation list \<Rightarrow> (string \<Rightarrow> string option)" where
  "replay_ops os = fold op_effect os Map.empty"

definition prep_op :: "PrepInfo \<Rightarrow> operation" where
  "prep_op p = (case pi_opType p of
      UPDATE \<Rightarrow> (pi_kvPair p, UPDATE)
    | DELETE \<Rightarrow> (\<lparr>kvp_key = kvp_key (pi_kvPair p), kvp_val = []\<rparr>, DELETE))"

lemma entry_effect_op: "entry_effect e = op_effect (entry_op e)"
  by (rule ext) (simp add: entry_effect_def entry_op_def split: OpType.split)

lemma entry_op_committed [simp]: "entry_op (e\<lparr>le_committed := b\<rparr>) = entry_op e"
  by (simp add: entry_op_def)

lemma replay_ops_snoc [simp]: "replay_ops (os @ [x]) = op_effect x (replay_ops os)"
  by (simp add: replay_ops_def)

lemma replay_ops_Nil [simp]: "replay_ops [] = Map.empty"
  by (simp add: replay_ops_def)

section \<open>Regular replicas\<close>

definition regular :: "'a base_scheme \<Rightarrow> bool" where
  "regular s \<longleftrightarrow>
     log_inv (oplog s) \<and>
     opNums (oplog s) = map of_nat [1..<Suc (unat (opNum s))] \<and>
     commitNum s \<le> opNum s \<and>
     (\<forall>i e. getLogEntry i (oplog s) = Some e \<longrightarrow> (le_committed e \<longleftrightarrow> i \<le> commitNum s)) \<and>
     um_wf (kvMap s) \<and>
     map_of (kvMap s) = replay_ops (take (unat (commitNum s)) (log_ops (oplog s)))"

lemma regular_log_inv: "regular s \<Longrightarrow> log_inv (oplog s)"
  by (simp add: regular_def)

lemma regular_cong:
  assumes "kvMap t = kvMap s" "opNum t = opNum s" "commitNum t = commitNum s" "oplog t = oplog s"
  shows "regular t \<longleftrightarrow> regular s"
  by (simp add: regular_def assms)

lemma length_getLog: "log_inv l \<Longrightarrow> length (fst (getLog l)) = length (opNums l)"
  by (simp add: fst_getLog)

lemma regular_length: "regular s \<Longrightarrow> length (log_ops (oplog s)) = unat (opNum s)"
  by (simp add: regular_def log_ops_def length_getLog)

lemma regular_all:
  "regular s \<Longrightarrow> commitNum s = opNum s \<Longrightarrow> map_of (kvMap s) = replay_ops (log_ops (oplog s))"
  using regular_length [of s] by (simp add: regular_def)

text \<open>The entries of a regular log, by number.\<close>

lemma regular_entry_nth:
  assumes "regular s" "k < unat (opNum s)"
  shows "getLogEntry (of_nat (Suc k)) (oplog s) = Some (fst (getLog (oplog s)) ! k)"
    and "entry_op (fst (getLog (oplog s)) ! k) = log_ops (oplog s) ! k"
proof -
  from assms have nums: "opNums (oplog s) = map of_nat [1..<Suc (unat (opNum s))]"
      and inv: "log_inv (oplog s)"
    by (simp_all add: regular_def)
  have "of_nat (Suc k) \<in> set (opNums (oplog s))"
    unfolding nums set_map using assms(2) by (intro image_eqI [of _ _ "Suc k"]) auto
  then have "map_of (opLogMap (oplog s)) (of_nat (Suc k)) \<noteq> None"
    using inv by (auto simp: log_inv_alt)
  moreover have "opNums (oplog s) ! k = of_nat (Suc k)"
    using assms(2) by (simp add: nums nth_append del: upt_Suc)
  ultimately show "getLogEntry (of_nat (Suc k)) (oplog s) = Some (fst (getLog (oplog s)) ! k)"
    using assms(2) by (auto simp: fst_getLog [OF inv] nums getLogEntry_def simp del: upt_Suc)
  show "entry_op (fst (getLog (oplog s)) ! k) = log_ops (oplog s) ! k"
    using assms(2) by (simp add: log_ops_def length_getLog [OF inv] nums del: upt_Suc)
qed

lemma regular_hasEntry:
  assumes "regular s"
  shows "getLogEntry i (oplog s) \<noteq> None \<longleftrightarrow> 0 < i \<and> i \<le> opNum s"
proof -
  have "getLogEntry i (oplog s) \<noteq> None \<longleftrightarrow> i \<in> set (opNums (oplog s))"
    by (rule log_inv_nums) (rule regular_log_inv [OF assms])
  also have "\<dots> \<longleftrightarrow> (\<exists>k. 1 \<le> k \<and> k \<le> unat (opNum s) \<and> i = of_nat k)"
    using assms by (auto simp: regular_def less_Suc_eq_le simp del: upt_Suc)
  also have "\<dots> \<longleftrightarrow> 0 < i \<and> i \<le> opNum s"
  proof
    assume "\<exists>k. 1 \<le> k \<and> k \<le> unat (opNum s) \<and> i = of_nat k"
    then obtain k where k: "1 \<le> k" "k \<le> unat (opNum s)" "i = of_nat k"
      by blast
    then have "unat i = k"
      by (simp add: unat_of_nat_le)
    then show "0 < i \<and> i \<le> opNum s"
      using k by (simp add: word_less_nat_alt word_le_nat_alt)
  next
    assume "0 < i \<and> i \<le> opNum s"
    then show "\<exists>k. 1 \<le> k \<and> k \<le> unat (opNum s) \<and> i = of_nat k"
      by (intro exI [of _ "unat i"]) (simp add: word_less_nat_alt word_le_nat_alt)
  qed
  finally show ?thesis .
qed

subsection \<open>Appending the next operation\<close>

lemma log_append_inv: "log_inv l \<Longrightarrow> log_inv (log_append p l)"
  by (simp add: log_append_def split: OpType.split)

lemma log_append_nums: "opNums (log_append p l) = opNums l @ [pi_opNum p]"
  by (simp add: log_append_def appendUpdate_def appendDelete_def Let_def split: OpType.split)

lemma log_append_entry:
  "getLogEntry i (log_append p l) =
     (if i = pi_opNum p then Some \<lparr>le_kvPair = fst (prep_op p), le_opType = pi_opType p,
                                   le_opNum = pi_opNum p, le_committed = False\<rparr>
      else getLogEntry i l)"
  by (simp add: log_append_def prep_op_def mem.entry_upd mem.entry_del split: OpType.split)

lemma log_append_ops:
  assumes "log_inv l" "getLogEntry (pi_opNum p) l = None"
  shows "log_ops (log_append p l) = log_ops l @ [prep_op p]"
  using assms mem.contents_upd [OF assms] mem.contents_del [OF assms]
  by (simp add: log_ops_def log_append_def prep_op_def entry_op_def split: OpType.split)

lemma regular_append:
  assumes reg: "regular s" and n: "pi_opNum p = opNum s + 1" "opNum s \<noteq> - 1"
    and t: "opNum t = opNum s + 1" "commitNum t = commitNum s"
      "oplog t = log_append p (oplog s)" "kvMap t = kvMap s"
  shows "regular t" and "log_ops (oplog t) = log_ops (oplog s) @ [prep_op p]"
proof -
  have "\<not> pi_opNum p \<le> opNum s"
    using n by (simp add: not_le plus1_greater_iff)
  then have fresh: "getLogEntry (pi_opNum p) (oplog s) = None"
    using regular_hasEntry [OF reg] by blast
  have inv: "log_inv (oplog s)"
    using reg by (rule regular_log_inv)
  show ops: "log_ops (oplog t) = log_ops (oplog s) @ [prep_op p]"
    using t(3) log_append_ops [OF inv fresh] by simp
  have unat: "unat (opNum s + 1) = Suc (unat (opNum s))"
    using n(2) by (rule unat_plus1)
  have "opNum s < pi_opNum p" "commitNum s \<le> opNum s"
    using n reg by (simp_all add: plus1_greater_iff regular_def)
  then have c: "commitNum s < pi_opNum p"
    by (rule le_less_trans [rotated])
  have "unat (commitNum s) \<le> length (log_ops (oplog s))"
    using reg regular_length [OF reg] by (simp add: regular_def word_le_nat_alt)
  then show "regular t"
    using reg inv t n c ops unat
    by (auto simp: regular_def log_append_inv log_append_nums log_append_entry
          word_le_nat_alt split: if_splits)
qed

subsection \<open>Committing the next operation\<close>

lemma commit_opNums: "commit n l = Some l' \<Longrightarrow> opNums l' = opNums l"
  by (auto simp: commit_def split: option.splits)

lemma commit_log_ops:
  assumes "log_inv l" "commit n l = Some l'"
  shows "log_ops l' = log_ops l"
proof -
  have "entry_op (the (map_of (opLogMap l') i)) = entry_op (the (map_of (opLogMap l) i))" for i
    using assms(2) by (auto simp: commit_def entry_op_def split: option.splits)
  then show ?thesis
    using assms log_inv_commit [OF assms]
    by (simp add: log_ops_def fst_getLog commit_opNums [OF assms(2)])
qed

lemma regular_commit:
  assumes reg: "regular s" and lt: "commitNum s < opNum s"
    and l: "commit (commitNum s + 1) (oplog s) = Some l"
    and t: "opNum t = opNum s" "commitNum t = commitNum s + 1" "oplog t = l" "um_wf (kvMap t)"
      "map_of (kvMap t) = op_effect (log_ops (oplog s) ! unat (commitNum s)) (map_of (kvMap s))"
  shows "regular t"
proof -
  have inv: "log_inv (oplog s)"
    using reg by (rule regular_log_inv)
  have ne: "commitNum s \<noteq> - 1"
    using lt by (rule less_imp_not_max)
  have unat: "unat (commitNum s + 1) = Suc (unat (commitNum s))"
    using ne by (rule unat_plus1)
  have len: "unat (commitNum s) < length (log_ops (oplog s))"
    using lt by (simp add: regular_length [OF reg] word_less_nat_alt)
  have le: "i \<le> commitNum s + 1 \<longleftrightarrow> i \<le> commitNum s \<or> i = commitNum s + 1" for i
    using unat by (auto simp: word_le_nat_alt le_Suc_eq word_unat_eq_iff)
  have "commitNum s + 1 \<le> opNum s"
    using lt unat by (simp add: word_le_nat_alt word_less_nat_alt)
  moreover have "map_of (kvMap t) = replay_ops (take (Suc (unat (commitNum s))) (log_ops (oplog s)))"
    using reg t(5) len by (simp add: regular_def take_Suc_conv_app_nth)
  ultimately show ?thesis
    using reg t l inv unat
    by (auto simp: regular_def log_inv_commit [OF inv l] commit_opNums [OF l]
          commit_log_ops [OF inv l] mem.mark_Some [OF l] le split: if_splits)
qed

section \<open>Sending leaves the replica alone\<close>

text \<open>
  A call changes only the connections and what is on the network; a broadcast of such calls does
  the same for every replica of the map.
\<close>

definition sends :: "EndPoint set \<Rightarrow> message \<Rightarrow> 'a replica_scheme \<Rightarrow> 'a replica_scheme \<Rightarrow> bool" where
  "sends eps msg s t \<longleftrightarrow> (\<exists>cl out. t = s\<lparr>repClWrappers := cl, netOut := netOut s @ out\<rparr> \<and>
     set out \<subseteq> eps \<times> {msg})"

lemma sends_refl: "sends eps msg s s"
  unfolding sends_def by (intro exI [of _ "repClWrappers s"] exI [of _ "[]"]) simp

lemma sends_trans:
  assumes "sends A msg s t" "sends B msg t u"
  shows "sends (A \<union> B) msg s u"
proof -
  from assms obtain c1 o1 c2 o2 where
    "t = s\<lparr>repClWrappers := c1, netOut := netOut s @ o1\<rparr>" "set o1 \<subseteq> A \<times> {msg}"
    "u = t\<lparr>repClWrappers := c2, netOut := netOut t @ o2\<rparr>" "set o2 \<subseteq> B \<times> {msg}"
    by (auto simp: sends_def)
  then show ?thesis
    unfolding sends_def by (intro exI [of _ c2] exI [of _ "o1 @ o2"]) auto
qed

lemma sends_fold:
  assumes "\<And>ep t. sends {ep} msg t (f ep t)"
  shows "sends (snd ` set rs) msg s (fold (\<lambda>(rid, ep) t. if rid = i then t else f ep t) rs s)"
proof (induction rs arbitrary: s)
  case Nil
  show ?case
    by (simp add: sends_refl)
next
  case (Cons x rs)
  obtain rid ep where x: "x = (rid, ep)"
    by (cases x)
  have "sends {ep} msg s (if rid = i then s else f ep s)"
    using assms by (simp add: sends_refl)
  from sends_trans [OF this Cons] show ?case
    by (simp add: x)
qed

lemma sends_broadcast:
  assumes "\<And>ep t. sends {ep} msg t (f ep t)"
  shows "sends (snd ` set (replicas s)) msg s (invokeForAllReplicas i f s)"
  unfolding invokeForAllReplicas_def by (rule sends_fold) (rule assms)

lemma invokePrepare_sends: "sends {ep} (Prepare p) t (invokePrepare nw p ep t)"
  by (rule invoke_rpc_sends [of nw "Prepare p" ep "repClWrappers t" "netOut t"])
    (auto simp: sends_def invokePrepare_def)

lemma invokePrepareOk_sends: "sends {ep} (PrepareOk r) t (invokePrepareOk nw r ep t)"
  by (rule invoke_rpc_sends [of nw "PrepareOk r" ep "repClWrappers t" "netOut t"])
    (auto simp: sends_def invokePrepareOk_def)

lemma invokeCommit_sends: "sends {ep} (message.Commit c) t (invokeCommit nw c ep t)"
  by (rule invoke_rpc_sends [of nw "message.Commit c" ep "repClWrappers t" "netOut t"])
    (auto simp: sends_def invokeCommit_def)

lemma invokePrepareOk_once:
  assumes "no_lost_answer nw"
  shows "netOut (invokePrepareOk nw r ep t) \<in> {netOut t, netOut t @ [(ep, PrepareOk r)]}"
  using invoke_rpc_at_most_once [OF assms, of "PrepareOk r" ep "repClWrappers t" "netOut t"]
  by (auto simp: invokePrepareOk_def split: prod.split)

lemma sends_frame:
  assumes "sends eps msg s t"
  shows "kvMap t = kvMap s" "rstate t = rstate s" "oplog t = oplog s" "selfId t = selfId s"
    "replicas t = replicas s" "repWaitMap t = repWaitMap s" "prepReqQ t = prepReqQ s"
    "replicatorRegistered t = replicatorRegistered s" "threadsStarted t = threadsStarted s"
    and "\<exists>out. netOut t = netOut s @ out \<and> set out \<subseteq> eps \<times> {msg}"
  using assms by (auto simp: sends_def)

section \<open>The primary's steps\<close>

lemma replicate_begin_effect:
  assumes "replicate_begin nw p s = (q, t)"
  shows "kvMap t = kvMap s" "rstate t = rstate s" "oplog t = log_append p (oplog s)"
    "selfId t = selfId s" "replicas t = replicas s" "prepReqQ t = prepReqQ s"
    "replicatorRegistered t = replicatorRegistered s" "threadsStarted t = threadsStarted s"
    "\<exists>out. netOut t = netOut s @ out \<and> set out \<subseteq> snd ` set (replicas s) \<times> {Prepare p}"
    "WaitMap_cnt n (repWaitMap t) =
       WaitMap_cnt n (repWaitMap s) + (if n = pi_opNum p then 1 else 0)"
    "q \<longleftrightarrow> quorumReached (WaitMap_cnt (pi_opNum p) (repWaitMap t)) t"
proof -
  define u where "u = s\<lparr>oplog := log_append p (oplog s),
    repWaitMap := snd (WaitMap_get (pi_opNum p) (repWaitMap s))\<rparr>"
  define w where "w = invokeForAllReplicas (selfId s) (invokePrepare nw p) u"
  have w: "sends (snd ` set (replicas u)) (Prepare p) u w"
    unfolding w_def by (rule sends_broadcast) (rule invokePrepare_sends)
  have t: "t = w\<lparr>repWaitMap := WaitMap_incr (pi_opNum p) (repWaitMap w)\<rparr>"
    and q: "q \<longleftrightarrow> quorumReached (WaitMap_cnt (pi_opNum p) (repWaitMap t)) t"
    using assms by (auto simp: replicate_begin_def Let_def u_def w_def)
  show "kvMap t = kvMap s" "rstate t = rstate s" "oplog t = log_append p (oplog s)"
    "selfId t = selfId s" "replicas t = replicas s" "prepReqQ t = prepReqQ s"
    "replicatorRegistered t = replicatorRegistered s" "threadsStarted t = threadsStarted s"
    "WaitMap_cnt n (repWaitMap t) =
       WaitMap_cnt n (repWaitMap s) + (if n = pi_opNum p then 1 else 0)"
    by (simp_all add: t sends_frame [OF w], simp_all add: u_def)
  show "\<exists>out. netOut t = netOut s @ out \<and> set out \<subseteq> snd ` set (replicas s) \<times> {Prepare p}"
    using sends_frame(10) [OF w] by (simp add: t u_def)
  show "q \<longleftrightarrow> quorumReached (WaitMap_cnt (pi_opNum p) (repWaitMap t)) t"
    by (rule q)
qed

lemma replicate_commit_effect:
  assumes "commit (pi_opNum p) (oplog s) = Some l"
  obtains t where "replicate_commit nw p s = Return () t"
    "kvMap t = kvMap s" "rstate t = rs_commitNum_update (\<lambda>_. pi_opNum p) (rstate s)" "oplog t = l"
    "selfId t = selfId s" "replicas t = replicas s" "prepReqQ t = prepReqQ s"
    "replicatorRegistered t = replicatorRegistered s" "threadsStarted t = threadsStarted s"
    "\<exists>out. netOut t = netOut s @ out \<and> set out \<subseteq> snd ` set (replicas s) \<times>
       {message.Commit \<lparr>ci_viewNum = pi_viewNum p, ci_commitNum = pi_opNum p\<rparr>}"
    "\<And>n. WaitMap_cnt n (repWaitMap t) = (if n = pi_opNum p then 0 else WaitMap_cnt n (repWaitMap s))"
proof -
  define c where "c = \<lparr>ci_viewNum = pi_viewNum p, ci_commitNum = pi_opNum p\<rparr>"
  define u where "u = s\<lparr>oplog := l, rstate := rs_commitNum_update (\<lambda>_. pi_opNum p) (rstate s)\<rparr>"
  define w where "w = invokeForAllReplicas (selfId s) (invokeCommit nw c) u"
  have w: "sends (snd ` set (replicas u)) (message.Commit c) u w"
    unfolding w_def by (rule sends_broadcast) (rule invokeCommit_sends)
  define t where "t = w\<lparr>repWaitMap := WaitMap_erase (pi_opNum p) (repWaitMap w)\<rparr>"
  have r: "replicate_commit nw p s = Return () t"
    using assms by (simp add: replicate_commit_def Let_def u_def w_def t_def c_def)
  show ?thesis
  proof (rule that [OF r])
    show "\<exists>out. netOut t = netOut s @ out \<and> set out \<subseteq> snd ` set (replicas s) \<times>
        {message.Commit \<lparr>ci_viewNum = pi_viewNum p, ci_commitNum = pi_opNum p\<rparr>}"
      using sends_frame(10) [OF w] by (simp add: t_def u_def c_def)
  qed (simp_all add: t_def sends_frame [OF w], simp_all add: u_def)
qed

text \<open>
  A client operation of the primary, cut at its wait: the part up to the wait, and the part after
  it with the update of the store that \<open>KvMemStore\<close> does when \<open>replicate\<close> has returned.
\<close>

definition op_prep :: "OpType \<Rightarrow> string \<Rightarrow> string \<Rightarrow> 'a base_scheme \<Rightarrow> PrepInfo" where
  "op_prep ty k v s = \<lparr>pi_viewNum = viewNum s,
     pi_kvPair = \<lparr>kvp_key = k, kvp_val = (case ty of UPDATE \<Rightarrow> v | DELETE \<Rightarrow> [])\<rparr>,
     pi_opNum = opNum s + 1, pi_opType = ty, pi_commitNum = commitNum s\<rparr>"

definition op_begin :: "network \<Rightarrow> PrepInfo \<Rightarrow> 'a replica_scheme \<Rightarrow> bool \<times> 'a replica_scheme" where
  "op_begin nw p s = replicate_begin nw p (set_opNum (opNum s + 1) s)"

definition op_store :: "PrepInfo \<Rightarrow> 'a kvmem_scheme \<Rightarrow> 'a kvmem_scheme" where
  "op_store p s = (case pi_opType p of
      UPDATE \<Rightarrow> snd (setInt (kvp_key (pi_kvPair p)) (kvp_val (pi_kvPair p)) s)
    | DELETE \<Rightarrow> s\<lparr>kvMap := um_erase (kvp_key (pi_kvPair p)) (kvMap s)\<rparr>)"

definition op_finish :: "network \<Rightarrow> PrepInfo \<Rightarrow> 'a replica_scheme \<Rightarrow> ('a replica_scheme, unit) res" where
  "op_finish nw p s = bind_res (replicate_commit nw p s) (\<lambda>_ t. Return () (op_store p t))"

definition op_run :: "'a replica_scheme rep_env \<Rightarrow> PrepInfo \<Rightarrow> 'a replica_scheme \<Rightarrow> ('a replica_scheme, unit) res"
where
  "op_run env p s =
     (let (q, t) = op_begin (rpe_net env) p s;
          (st, u) = (if q then (no_timeout, t) else rpe_wait env t)
      in if st = timeout then Raise QuorumNotReached u else op_finish (rpe_net env) p u)"

text \<open>The store's \<open>set\<close> and \<open>remove\<close> are these parts.\<close>

lemma replicate_run:
  assumes "status s = NORMAL" "pi_opNum p = opNum s + 1"
  shows "bind_res (VsReplicator_replicate env p (set_opNum (opNum s + 1) s)) (\<lambda>_ t. Return () (op_store p t)) =
    op_run env p s"
  using assms
  by (cases "op_begin (rpe_net env) p s"; cases "rpe_wait env (snd (op_begin (rpe_net env) p s))")
    (simp add: VsReplicator_replicate_def op_run_def op_begin_def op_finish_def)

lemma KvMemStore_set_run:
  assumes "threadsStarted s" "selfId s = priId s" "t = rpe_lock env s" "selfId t = priId t" "status t = NORMAL"
  shows "bind_res (KvMemStore_set (vsReplicator env) k v s) (\<lambda>_. Return ()) = op_run env (op_prep UPDATE k v t) t"
proof -
  have "replicateUpdate (vsReplicator env) k v s =
      VsReplicator_replicate env (op_prep UPDATE k v t) (set_opNum (opNum t + 1) t)"
    using assms by (simp add: vsReplicator_def VsReplicator_replicateUpdate_def
        VsReplicator_isPrimary_def op_prep_def Let_def)
  moreover have "isPrimary (vsReplicator env) s"
    using assms by (simp add: vsReplicator_def VsReplicator_isPrimary_def)
  ultimately show ?thesis
    using assms(5) replicate_run [of t "op_prep UPDATE k v t" env]
    by (simp add: KvMemStore_set_def setInt_def bind_res_assoc)
      (simp add: op_prep_def op_store_def setInt_def)
qed

lemma KvMemStore_remove_run:
  assumes "threadsStarted s" "selfId s = priId s" "hasKey k s" "t = rpe_lock env s" "selfId t = priId t" "status t = NORMAL"
  shows "KvMemStore_remove (vsReplicator env) k s = op_run env (op_prep DELETE k v t) t"
proof -
  have "replicateDelete (vsReplicator env) k s =
      VsReplicator_replicate env (op_prep DELETE k v t) (set_opNum (opNum t + 1) t)"
    using assms by (simp add: vsReplicator_def VsReplicator_replicateDelete_def
        VsReplicator_isPrimary_def op_prep_def Let_def)
  then show ?thesis
    using assms(1-3,6) replicate_run [of t "op_prep DELETE k v t" env]
    by (simp add: KvMemStore_remove_def hasKey_def)
      (auto simp add: op_prep_def op_store_def vsReplicator_def VsReplicator_isPrimary_def)
qed

text \<open>Both parts keep a primary regular; the second commits the operation the first logged.\<close>

lemma op_begin_regular:
  assumes "op_begin nw p s = (q, t)" "regular s" "pi_opNum p = opNum s + 1" "opNum s \<noteq> - 1"
  shows "regular t" "log_ops (oplog t) = log_ops (oplog s) @ [prep_op p]"
    "rstate t = rs_opNum_update (\<lambda>_. opNum s + 1) (rstate s)"
proof -
  note e = replicate_begin_effect [OF assms(1) [unfolded op_begin_def]]
  show rs: "rstate t = rs_opNum_update (\<lambda>_. opNum s + 1) (rstate s)"
    using e(2) by simp
  show "regular t" "log_ops (oplog t) = log_ops (oplog s) @ [prep_op p]"
    using regular_append [OF assms(2-4), of t] e(1,3) by (simp_all add: rs)
qed

lemma op_store_frame [simp]:
  "selfId (op_store p s) = selfId s" "replicas (op_store p s) = replicas s"
  "rstate (op_store p s) = rstate s" "oplog (op_store p s) = oplog s"
  "netOut (op_store p s) = netOut s" "replicatorRegistered (op_store p s) = replicatorRegistered s"
  "repWaitMap (op_store p s') = repWaitMap s'" "prepReqQ (op_store p s') = prepReqQ s'"
  "threadsStarted (op_store p s') = threadsStarted s'"
  by (simp_all add: op_store_def setInt_def split: OpType.split)

lemma op_store_kvMap:
  "map_of (kvMap (op_store p s)) = op_effect (prep_op p) (map_of (kvMap s))"
  "um_wf (kvMap s) \<Longrightarrow> um_wf (kvMap (op_store p s))"
  by (simp_all add: op_store_def setInt_def prep_op_def fun_eq_iff split: OpType.split)

lemma op_finish_regular:
  assumes reg: "regular s" and n: "pi_opNum p = opNum s" "opNum s = commitNum s + 1" "commitNum s \<noteq> - 1"
    and last: "log_ops (oplog s) ! unat (commitNum s) = prep_op p"
  obtains t where "op_finish nw p s = Return () t" "regular t" "log_ops (oplog t) = log_ops (oplog s)"
    "rstate t = rs_commitNum_update (\<lambda>_. opNum s) (rstate s)"
    "selfId t = selfId s" "replicas t = replicas s" "prepReqQ t = prepReqQ s"
    "replicatorRegistered t = replicatorRegistered s" "threadsStarted t = threadsStarted s"
    "\<exists>out. netOut t = netOut s @ out \<and> set out \<subseteq> snd ` set (replicas s) \<times>
       {message.Commit \<lparr>ci_viewNum = pi_viewNum p, ci_commitNum = opNum s\<rparr>}"
    "\<And>n. WaitMap_cnt n (repWaitMap t) \<le> WaitMap_cnt n (repWaitMap s)"
proof -
  have lt: "commitNum s < opNum s"
    using n by (simp add: plus1_greater_iff)
  then have "0 < opNum s"
    by (rule le_less_trans [rotated]) simp
  then have "getLogEntry (pi_opNum p) (oplog s) \<noteq> None"
    using regular_hasEntry [OF reg] n by simp
  then obtain l where l: "commit (pi_opNum p) (oplog s) = Some l"
    using mem.mark_None by (metis not_Some_eq)
  obtain t where t: "replicate_commit nw p s = Return () t"
    "kvMap t = kvMap s" "rstate t = rs_commitNum_update (\<lambda>_. pi_opNum p) (rstate s)" "oplog t = l"
    "selfId t = selfId s" "replicas t = replicas s" "prepReqQ t = prepReqQ s"
    "replicatorRegistered t = replicatorRegistered s" "threadsStarted t = threadsStarted s"
    "\<exists>out. netOut t = netOut s @ out \<and> set out \<subseteq> snd ` set (replicas s) \<times>
       {message.Commit \<lparr>ci_viewNum = pi_viewNum p, ci_commitNum = pi_opNum p\<rparr>}"
    "\<And>n. WaitMap_cnt n (repWaitMap t) = (if n = pi_opNum p then 0 else WaitMap_cnt n (repWaitMap s))"
    by (rule replicate_commit_effect [OF l]) blast
  have r: "op_finish nw p s = Return () (op_store p t)"
    by (simp add: op_finish_def t(1))
  have wf: "um_wf (kvMap s)"
    using reg by (simp add: regular_def)
  have "regular (op_store p t)"
    using reg lt l [unfolded n(1) n(2)] by (rule regular_commit) (simp_all add: t n last op_store_kvMap wf)
  moreover have "log_ops l = log_ops (oplog s)"
    using regular_log_inv [OF reg] l by (rule commit_log_ops)
  ultimately show ?thesis
    using that [OF r] t(10) by (simp add: t n)
qed

section \<open>The backup's steps\<close>

text \<open>
  One round of the prepare thread on a regular backup: either the request is dropped, or it is the
  next operation, which is logged and acknowledged.
\<close>

lemma processPrepInfo_cases:
  assumes "processPrepInfo nw s = Some (Return () t)" "prepReqQ s = p # q"
    and prim: "map_of (replicas s) (priId s) = Some ep"
  obtains (dropped) "t = s\<lparr>prepReqQ := q\<rparr>"
  | (logged) "pi_viewNum p = viewNum s" "status s = NORMAL" "pi_opNum p = opNum s + 1"
      "rstate t = rs_opNum_update (\<lambda>_. opNum s + 1) (rstate s)" "oplog t = log_append p (oplog s)"
      "kvMap t = kvMap s" "selfId t = selfId s" "replicas t = replicas s" "prepReqQ t = q"
      "replicatorRegistered t = replicatorRegistered s"
      "\<exists>out. netOut t = netOut s @ out \<and>
         set out \<subseteq> {(ep, PrepareOk \<lparr>pr_viewNum = viewNum s, pr_opNum = opNum s + 1, pr_replicaId = selfId s\<rparr>)}"
      "no_lost_answer nw \<Longrightarrow> netOut t \<in> {netOut s, netOut s @
         [(ep, PrepareOk \<lparr>pr_viewNum = viewNum s, pr_opNum = opNum s + 1, pr_replicaId = selfId s\<rparr>)]}"
proof -
  let ?r = "\<lparr>pr_viewNum = viewNum s, pr_opNum = opNum s + 1, pr_replicaId = selfId s\<rparr>"
  let ?u = "s\<lparr>prepReqQ := q, rstate := rs_opNum_update (\<lambda>_. opNum s + 1) (rstate s),
    oplog := log_append p (oplog s)\<rparr>"
  from assms consider "t = s\<lparr>prepReqQ := q\<rparr>"
    | "pi_viewNum p = viewNum s" "status s = NORMAL" "pi_opNum p = opNum s + 1"
      "t = invokePrepareOk nw ?r ep ?u"
    by (auto simp: processPrepInfo_defs Let_def replicas_at_def outcome_simps split: if_splits)
  then show ?thesis
  proof cases
    case 1
    then show ?thesis by (rule dropped)
  next
    case 2
    have "sends {ep} (PrepareOk ?r) ?u t"
      unfolding 2(4) by (rule invokePrepareOk_sends)
    note f = sends_frame [OF this]
    show ?thesis
    proof (rule logged)
      show "netOut t \<in> {netOut s, netOut s @ [(ep, PrepareOk ?r)]}" if "no_lost_answer nw"
        using invokePrepareOk_once [OF that, of ?r ep ?u] by (simp add: 2(4))
    qed (use 2(1-3) f in simp_all)
  qed
qed

text \<open>
  \<open>processCommit\<close> on a regular replica: it never fails an assertion, it commits at most the next
  operation, and it does so only when a commit number above its own was announced.
\<close>

lemma regular_next_entry:
  assumes reg: "regular s" and lt: "commitNum s < opNum s"
  obtains e l where "getLogEntry (commitNum s + 1) (oplog s) = Some e"
    "commit (commitNum s + 1) (oplog s) = Some l"
    "getLogEntry (commitNum s + 1) l = Some (e\<lparr>le_committed := True\<rparr>)"
    "entry_op e = log_ops (oplog s) ! unat (commitNum s)"
proof -
  have "unat (commitNum s) < unat (opNum s)"
    using lt by (simp add: word_less_nat_alt)
  from regular_entry_nth [OF reg this] obtain e where
    e: "getLogEntry (commitNum s + 1) (oplog s) = Some e"
      "entry_op e = log_ops (oplog s) ! unat (commitNum s)"
    by (simp add: add.commute)
  moreover obtain l where l: "commit (commitNum s + 1) (oplog s) = Some l"
    using e(1) mem.mark_None by (metis not_Some_eq option.distinct(1))
  moreover have "getLogEntry (commitNum s + 1) l = Some (e\<lparr>le_committed := True\<rparr>)"
    using mem.mark_Some [OF l, of "commitNum s + 1"] e by simp
  ultimately show ?thesis
    using that by blast
qed

lemma processCommit_commits:
  assumes reg: "regular s" and cb: "replicatorRegistered s"
    and norm: "status s = NORMAL" "ci_viewNum c = viewNum s"
    and lt: "commitNum s < ci_commitNum c" "commitNum s < opNum s"
  obtains t where "processCommit now c s = Return () t" "regular t"
    "log_ops (oplog t) = log_ops (oplog s)"
    "rstate t = rs_commitNum_update (\<lambda>_. commitNum s + 1) (rs_lastCommitTime_update (\<lambda>_. now) (rstate s))"
    "selfId t = selfId s" "replicas t = replicas s" "prepReqQ t = prepReqQ s" "netOut t = netOut s"
    "replicatorRegistered t = replicatorRegistered s"
proof -
  obtain e l where e: "getLogEntry (commitNum s + 1) (oplog s) = Some e"
    "commit (commitNum s + 1) (oplog s) = Some l"
    "getLogEntry (commitNum s + 1) l = Some (e\<lparr>le_committed := True\<rparr>)"
    "entry_op e = log_ops (oplog s) ! unat (commitNum s)"
    using regular_next_entry [OF reg lt(2)] .
  have ne: "commitNum s + 1 \<noteq> 0"
    using less_imp_not_max [OF lt(2)] by (metis add.commute add_eq_0_iff)
  let ?t = "apply_entry (e\<lparr>le_committed := True\<rparr>) (s\<lparr>rstate := rs_commitNum_update
    (\<lambda>_. commitNum s + 1) (rs_lastCommitTime_update (\<lambda>_. now) (rstate s)), oplog := l\<rparr>)"
  have r: "processCommit now c s = Return () ?t"
    using norm lt ne e cb mem.has_entry [of "commitNum s + 1" "oplog s"]
    by (simp add: processCommit_def Let_def assert_res_def not_le)
  have "regular ?t"
    using reg lt(2) e(2)
    by (rule regular_commit) (use reg in \<open>simp_all add: entry_effect_op e(4) regular_def\<close>)
  moreover have "log_ops l = log_ops (oplog s)"
    using regular_log_inv [OF reg] e(2) by (rule commit_log_ops)
  ultimately show ?thesis
    using that [OF r] by (simp add: apply_entry_def updateCb_def setInt_def deleteCb_def
        removeInt_def split: OpType.split)
qed

lemma regular_committed:
  assumes "regular s" "0 < i" "i \<le> commitNum s"
  shows "\<exists>e. getLogEntry i (oplog s) = Some e \<and> le_committed e"
proof -
  have "getLogEntry i (oplog s) \<noteq> None"
    using regular_hasEntry [OF assms(1)] assms by (auto simp: regular_def)
  then show ?thesis
    using assms by (auto simp: regular_def)
qed

lemma processCommit_skips:
  assumes reg: "regular s" and no: "\<not> (status s = NORMAL \<and> ci_viewNum c = viewNum s \<and>
    commitNum s < ci_commitNum c \<and> commitNum s < opNum s)"
  shows "processCommit now c s = Return () (set_lastCommitTime now s)"
proof (cases "status s = NORMAL \<and> ci_viewNum c = viewNum s")
  case norm: True
  show ?thesis
  proof (cases "commitNum s < ci_commitNum c")
    case True
    then have eq: "commitNum s = opNum s" and ne: "commitNum s \<noteq> - 1"
      using no norm reg less_imp_not_max by (auto simp: regular_def order_le_less)
    have "\<not> hasEntry (commitNum s + 1) (oplog s)"
      using regular_hasEntry [OF reg, of "commitNum s + 1"] plus1_greater_iff [of "commitNum s"] eq ne
      by (simp add: mem.has_entry not_le)
    moreover have "commitNum s + 1 \<noteq> 0"
      using ne by (metis add.commute add_eq_0_iff)
    ultimately show ?thesis
      using norm True by (simp add: processCommit_def Let_def assert_res_def not_le)
  next
    case False
    then show ?thesis
      using norm regular_committed [OF reg, of "ci_commitNum c"]
      by (cases "ci_commitNum c = 0")
        (auto simp: processCommit_def Let_def not_less assert_res_def word_gt_0)
  qed
qed (auto simp: processCommit_def Let_def)

section \<open>Acknowledgements\<close>

lemma processPrepareOk_frame:
  "kvMap (processPrepareOk r s) = kvMap s" "rstate (processPrepareOk r s) = rstate s"
  "oplog (processPrepareOk r s) = oplog s" "selfId (processPrepareOk r s) = selfId s"
  "replicas (processPrepareOk r s) = replicas s" "netOut (processPrepareOk r s) = netOut s"
  "WaitMap_cnt n (repWaitMap (processPrepareOk r s)) \<le>
     WaitMap_cnt n (repWaitMap s) + (if n = pr_opNum r then 1 else 0)"
proof -
  obtain c m where g: "WaitMap_get (pr_opNum r) (repWaitMap s) = (c, m)"
    by fastforce
  have m: "WaitMap_cnt n m = WaitMap_cnt n (repWaitMap s)" for n
    using WaitMap_cnt_simps(2) [of n "pr_opNum r" "repWaitMap s"] by (simp add: g)
  show "kvMap (processPrepareOk r s) = kvMap s" "rstate (processPrepareOk r s) = rstate s"
    "oplog (processPrepareOk r s) = oplog s" "selfId (processPrepareOk r s) = selfId s"
    "replicas (processPrepareOk r s) = replicas s" "netOut (processPrepareOk r s) = netOut s"
    "WaitMap_cnt n (repWaitMap (processPrepareOk r s)) \<le>
       WaitMap_cnt n (repWaitMap s) + (if n = pr_opNum r then 1 else 0)"
    by (simp_all add: processPrepareOk_def Let_def g m)
qed

section \<open>Commit messages\<close>

text \<open>C24. A commit message at a backup whose log is regular never fails an assertion. It commits and applies
  the next logged operation when the message names a later commit number, however much later, and
  otherwise only records the time.\<close>

theorem processCommit_next:
  assumes "regular s" "replicatorRegistered s"
  shows "\<exists>t. processCommit now c s = Return () t \<and> regular t \<and> log_ops (oplog t) = log_ops (oplog s) \<and>
    opNum t = opNum s \<and> lastCommitTime t = now \<and>
    commitNum t = (if status s = NORMAL \<and> ci_viewNum c = viewNum s \<and> commitNum s < ci_commitNum c \<and>
        commitNum s < opNum s then commitNum s + 1 else commitNum s)"
proof (cases "status s = NORMAL \<and> ci_viewNum c = viewNum s \<and> commitNum s < ci_commitNum c \<and> commitNum s < opNum s")
  case True
  then obtain t where "processCommit now c s = Return () t" "regular t"
    "log_ops (oplog t) = log_ops (oplog s)"
    "rstate t = rs_commitNum_update (\<lambda>_. commitNum s + 1) (rs_lastCommitTime_update (\<lambda>_. now) (rstate s))"
    using processCommit_commits [OF assms] by blast
  then show ?thesis
    using True by simp
next
  case False
  have "regular (set_lastCommitTime now s)"
    using assms(1) by (subst regular_cong [of _ s]) simp_all
  then show ?thesis
    using processCommit_skips [OF assms(1) False, of now] False by auto
qed

definition ex_backup :: replica where
  "ex_backup = (replica_new 1 [] 0 False)\<lparr>replicatorRegistered := True\<rparr>"

theorem processCommit_next_witness:
  "\<exists>t. processCommit 9 \<lparr>ci_viewNum = 0, ci_commitNum = 5\<rparr> ex_backup = Return () t \<and> commitNum t = 0 \<and>
     lastCommitTime t = 9"
proof -
  have "regular ex_backup" "replicatorRegistered ex_backup" "commitNum ex_backup = 0" "opNum ex_backup = 0"
    by (simp_all add: ex_backup_def replica_new_def ReplicaState_new_def regular_def log_ops_def
        getLog_inv getLogEntry_def) (simp_all add: InMemOpLog_new_def)
  then show ?thesis
    using processCommit_next [of ex_backup 9 "\<lparr>ci_viewNum = 0, ci_commitNum = 5\<rparr>"] by auto
qed

end
