(* ===== verification/Failover.thy ===== *)
theory Failover
  imports Replication
begin

text \<open>
  Recovery and view change: what the two protocols install. A recovering replica gets the log, the
  numbers and the store of the primary that answers it; the new primary of a view and its backups
  install the same log and numbers; and the loop that applies newly committed operations after a
  view change is compared with the commit number it should reach.
\<close>

section \<open>Recovery\<close>

text \<open>The answer of a primary to a recovery request.\<close>

definition primary_response :: "Nonce \<Rightarrow> 'a base_scheme \<Rightarrow> RecoveryResponse" where
  "primary_response nonce s = \<lparr>rrs_viewNum = viewNum s, rrs_nonce = nonce, rrs_replicaId = selfId s,
     rrs_isPrimary = True, rrs_opLog = fst (getLog (oplog s)), rrs_opNum = opNum s,
     rrs_commitNum = commitNum s\<rparr>"

text \<open>The answer of a replica to a recovery request.\<close>

definition recovery_answer :: "Nonce \<Rightarrow> 'a base_scheme \<Rightarrow> RecoveryResponse" where
  "recovery_answer nonce s = (if priId s = selfId s then primary_response nonce s
     else \<lparr>rrs_viewNum = viewNum s, rrs_nonce = nonce, rrs_replicaId = selfId s, rrs_isPrimary = False,
            rrs_opLog = [], rrs_opNum = 0, rrs_commitNum = 0\<rparr>)"

lemma recovery_answer_nonce [simp]: "rrs_nonce (recovery_answer nonce s) = nonce"
  by (simp add: recovery_answer_def primary_response_def)

lemma processRecoveryReqInt_answers:
  assumes "recThreadAlive s" "recoveryReqQ s = req # q" "status s = NORMAL"
    and "log_inv (oplog s)" "map_of (replicas s) (rrq_replicaId req) = Some ep"
  obtains t out where "processRecoveryReqInt nw s = Some t" "netOut t = netOut s @ out"
    "set out \<subseteq> {(ep, RecoveryResp (recovery_answer (rrq_nonce req) s))}"
    "rstate t = rstate s" "oplog t = oplog s" "kvMap t = kvMap s" "recoveryReqQ t = q"
proof -
  let ?r = "recovery_answer (rrq_nonce req) s"
  obtain ok cl o' where i: "invoke_rpc nw (RecoveryResp ?r) ep (recClWrappers s) (netOut s) = (ok, cl, netOut s @ o')"
    "set o' \<subseteq> {(ep, RecoveryResp ?r)}"
    by (rule invoke_rpc_sends)
  have "processRecoveryReqInt nw s =
      Some (s\<lparr>recoveryReqQ := q, recClWrappers := cl, netOut := netOut s @ o'\<rparr>)"
    using assms i(1) by (simp add: processRecoveryReqInt_def invokeRecoveryResponse_def replicas_at_def
        recovery_answer_def primary_response_def mem.contents_pure Let_def split: if_splits)
  then show ?thesis
    using that i(2) by simp
qed

text \<open>Replaying the committed entries of a log.\<close>

lemma recoverStateFromLog_replay:
  assumes "replicatorRegistered s"
  shows "\<exists>t. recoverStateFromLog es s = Return () t \<and>
    map_of (kvMap t) = fold op_effect (map entry_op (filter le_committed es)) (map_of (kvMap s)) \<and>
    (um_wf (kvMap s) \<longrightarrow> um_wf (kvMap t)) \<and> replicatorRegistered t"
  using assms
proof (induction es arbitrary: s)
  case (Cons e es)
  have "replicatorRegistered (apply_entry e s) = replicatorRegistered s"
    by (simp add: apply_entry_def updateCb_def setInt_def deleteCb_def removeInt_def split: OpType.split)
  then show ?case
    using Cons.IH [of "apply_entry e s"] Cons.IH [of s] Cons.prems by (auto simp: entry_effect_op)
qed simp

lemma recoverStateFromLog_frame:
  fixes s :: "'a base_scheme"
  assumes "recoverStateFromLog es s = Return () t"
  shows "rstate t = rstate s \<and> oplog t = oplog s \<and> selfId t = selfId s \<and> replicas t = replicas s \<and>
    netOut t = netOut s"
  using assms by (induction es s rule: recoverStateFromLog.induct) (auto simp: outcome_simps split: if_splits)

text \<open>In a regular log the committed entries are the first \<open>commitNum\<close> ones.\<close>

lemma regular_committed_prefix:
  assumes reg: "regular s"
  shows "map entry_op (filter le_committed (fst (getLog (oplog s)))) =
    take (unat (commitNum s)) (log_ops (oplog s))"
proof -
  let ?es = "fst (getLog (oplog s))" and ?c = "unat (commitNum s)"
  have len: "length ?es = unat (opNum s)"
    using regular_length [OF reg] by (simp add: log_ops_def)
  have cm: "le_committed (?es ! k) \<longleftrightarrow> k < ?c" if k: "k < length ?es" for k
  proof -
    have "getLogEntry (of_nat (Suc k)) (oplog s) = Some (?es ! k)"
      using regular_entry_nth(1) [OF reg] k len by simp
    then have "le_committed (?es ! k) \<longleftrightarrow> of_nat (Suc k) \<le> commitNum s"
      using reg unfolding regular_def by blast
    moreover have "unat (of_nat (Suc k) :: u64) = Suc k"
      using k len by (intro unat_of_nat_le [of _ "opNum s"]) simp
    ultimately show ?thesis
      by (simp only: word_le_nat_alt Suc_le_eq)
  qed
  have "filter le_committed (take ?c ?es) = take ?c ?es"
    using cm by (auto simp: filter_id_conv in_set_conv_nth)
  moreover have "filter le_committed (drop ?c ?es) = []"
    using cm by (auto simp: filter_empty_conv in_set_conv_nth)
  ultimately have "filter le_committed ?es = take ?c ?es"
    by (metis append_Nil2 append_take_drop_id filter_append)
  then show ?thesis
    by (simp add: log_ops_def take_map)
qed

lemma log_numbers: "log_inv l \<Longrightarrow> map le_opNum (fst (getLog l)) = opNums l"
  by (auto simp: fst_getLog log_inv_alt intro!: map_idI)

lemma regular_transfer:
  assumes reg: "regular s"
    and t: "opNum t = opNum s" "commitNum t = commitNum s" "oplog t = setLog (fst (getLog (oplog s))) l"
    and kv: "um_wf (kvMap t)" "map_of (kvMap t) = map_of (kvMap s)"
  shows "regular t" "log_ops (oplog t) = log_ops (oplog s)"
proof -
  have inv: "log_inv (oplog s)"
    using reg by (rule regular_log_inv)
  have nums: "opNums (oplog t) = opNums (oplog s)"
    by (simp add: t log_numbers [OF inv])
  show ops: "log_ops (oplog t) = log_ops (oplog s)"
    using mem.transfer_contents [OF inv, of l] by (simp add: log_ops_def t)
  show "regular t"
    using reg unfolding regular_def ops nums t(1,2) kv(2)
    by (simp add: t(3) mem.transfer_entry [OF inv] kv(1))
qed

lemma recover_loop_installs:
  assumes reg: "regular s" and cb: "replicatorRegistered t" and empty: "kvMap t = []"
    and r: "r = primary_response nonce s"
  obtains u where "recover_loop now (viewNum s) (r # rs) t = Return () u" "regular u"
    "log_ops (oplog u) = log_ops (oplog s)" "map_of (kvMap u) = map_of (kvMap s)"
    "opNum u = opNum s" "commitNum u = commitNum s" "viewNum u = viewNum s" "priId u = selfId s"
    "status u = NORMAL" "selfId u = selfId t" "replicas u = replicas t"
proof -
  obtain w where w: "recoverStateFromLog (rrs_opLog r) t = Return () w"
    "map_of (kvMap w) = fold op_effect (map entry_op (filter le_committed (rrs_opLog r))) Map.empty"
    "um_wf (kvMap w)"
    using recoverStateFromLog_replay [OF cb, of "rrs_opLog r"] empty by auto
  note f = recoverStateFromLog_frame [OF w(1)]
  have kv: "map_of (kvMap w) = map_of (kvMap s)"
    using w(2) reg regular_committed_prefix [OF reg]
    by (simp add: r primary_response_def regular_def replay_ops_def)
  let ?u = "w\<lparr>oplog := setLog (fst (getLog (oplog s))) (oplog w),
    rstate := \<lparr>rs_priId = selfId s, rs_status = NORMAL, rs_viewNum = viewNum s, rs_opNum = opNum s,
               rs_commitNum = commitNum s, rs_lastCommitTime = now\<rparr>\<rparr>"
  have u: "recover_loop now (viewNum s) (r # rs) t = Return () ?u"
    using w(1) by (simp add: r primary_response_def)
  show ?thesis
    using that [OF u] regular_transfer [OF reg, of ?u "oplog w"] w(3) kv f by simp
qed

text \<open>The whole of \<open>recover\<close>: the broadcast, the wait for the answers, the choice of the view.\<close>

lemma recovery_broadcast:
  obtains cl out where "invokeForAllReplicas i (invokeRecoveryRequest nw q) s = s\<lparr>recClWrappers := cl, netOut := out\<rparr>"
proof -
  have "\<exists>cl out. invokeForAllReplicas i (invokeRecoveryRequest nw q) s = s\<lparr>recClWrappers := cl, netOut := out\<rparr>"
  proof (rule broadcast_rel [where R = "\<lambda>s t. \<exists>cl out. t = s\<lparr>recClWrappers := cl, netOut := out\<rparr>"])
    show "\<exists>cl out. t = t\<lparr>recClWrappers := cl, netOut := out\<rparr>" for t :: "'a rch_scheme"
      by (intro exI [of _ "recClWrappers t"] exI [of _ "netOut t"]) simp
    show "\<exists>cl out. v = t\<lparr>recClWrappers := cl, netOut := out\<rparr>"
      if tu: "\<exists>cl out. u = t\<lparr>recClWrappers := cl, netOut := out\<rparr>" "\<exists>cl out. v = u\<lparr>recClWrappers := cl, netOut := out\<rparr>"
      for t u v :: "'a rch_scheme"
    proof -
      obtain c o' where "v = t\<lparr>recClWrappers := c, netOut := o'\<rparr>"
        using tu by auto
      then show ?thesis
        by blast
    qed
    show "\<exists>cl out. invokeRecoveryRequest nw q ep t = t\<lparr>recClWrappers := cl, netOut := out\<rparr>" for ep and t :: "'a rch_scheme"
      unfolding invokeRecoveryRequest_def Let_def split_beta by blast
  qed
  then show ?thesis
    using that by blast
qed

lemma processRecoveryResponse_recovering:
  assumes "status s = RECOVERING"
  shows "processRecoveryResponse r s = s\<lparr>receivedRespFromPri := receivedRespFromPri s \<or> rrs_isPrimary r,
      respViewCnt := WaitMap_incr (rrs_viewNum r) (respViewCnt s),
      recoveryRespMap := um_put (rrs_nonce r) (recoveryResponses (rrs_nonce r) s @ [r]) (recoveryRespMap s),
      recWaitMap := snd (WaitMap_get (rrs_nonce r) (WaitMap_incr (rrs_nonce r) (recWaitMap s)))\<rparr>"
  using assms by (simp add: processRecoveryResponse_def processRecoveryResponse_notify_def responseDone_def Let_def split_beta
      recoveryResponses_def)

lemma fold_recoveryResponse_frame:
  assumes "status s = RECOVERING"
  shows "rstate (fold processRecoveryResponse rs s) = rstate s \<and> oplog (fold processRecoveryResponse rs s) = oplog s \<and>
    kvMap (fold processRecoveryResponse rs s) = kvMap s \<and> selfId (fold processRecoveryResponse rs s) = selfId s \<and>
    replicas (fold processRecoveryResponse rs s) = replicas s \<and>
    replicatorRegistered (fold processRecoveryResponse rs s) = replicatorRegistered s"
  using assms by (induction rs arbitrary: s) (simp_all add: processRecoveryResponse_recovering)

lemma um_wf_incr [simp]: "um_wf m \<Longrightarrow> um_wf (WaitMap_incr k m)"
  by (simp add: WaitMap_incr_def WaitMap_get_def split: option.split)

lemma fold_recoveryResponse_counts:
  assumes "status s = RECOVERING" "\<forall>r \<in> set rs. rrs_nonce r = nonce" "um_wf (respViewCnt s)"
  shows "(receivedRespFromPri (fold processRecoveryResponse rs s) \<longleftrightarrow> receivedRespFromPri s \<or> (\<exists>r \<in> set rs. rrs_isPrimary r)) \<and>
    um_wf (respViewCnt (fold processRecoveryResponse rs s)) \<and>
    WaitMap_cnt v (respViewCnt (fold processRecoveryResponse rs s)) =
      WaitMap_cnt v (respViewCnt s) + length (filter (\<lambda>r. rrs_viewNum r = v) rs) \<and>
    recoveryResponses nonce (fold processRecoveryResponse rs s) = recoveryResponses nonce s @ rs \<and>
    WaitMap_cnt nonce (recWaitMap (fold processRecoveryResponse rs s)) = WaitMap_cnt nonce (recWaitMap s) + length rs"
  using assms
proof (induction rs arbitrary: s)
  case (Cons r rs)
  note x = processRecoveryResponse_recovering [OF Cons.prems(1), of r]
  have "status (processRecoveryResponse r s) = RECOVERING" "um_wf (respViewCnt (processRecoveryResponse r s))"
    "\<forall>r \<in> set rs. rrs_nonce r = nonce"
    using Cons.prems by (simp_all add: x)
  from Cons.IH [OF this(1,3,2)] show ?case
    using Cons.prems(2) by (simp add: x recoveryResponses_def)
qed simp

lemma highest_view_only:
  "\<forall>(w, i) \<in> set m. k \<le> i \<longrightarrow> w = v \<Longrightarrow> (v, n) \<in> set m \<Longrightarrow> k \<le> n \<Longrightarrow> highest_view k m = v"
  by (induction k m rule: highest_view.induct) auto

lemma highest_view_majority:
  assumes "um_wf m" "k \<le> WaitMap_cnt v m" "0 < k" "\<And>w. w \<noteq> v \<Longrightarrow> WaitMap_cnt w m < k"
  shows "highest_view k m = v" "list_ex (\<lambda>(v, n). k \<le> n) m"
proof -
  have e: "n = WaitMap_cnt w m" if "(w, n) \<in> set m" for w n
    using that assms(1) by (simp add: WaitMap_cnt_find)
  obtain n where n: "(v, n) \<in> set m" "k \<le> n"
    using assms(2,3) by (auto simp: WaitMap_cnt_find split: option.splits dest: map_of_SomeD)
  then show "list_ex (\<lambda>(v, n). k \<le> n) m"
    by (auto simp: list_ex_iff)
  have "w = v" if "(w, i) \<in> set m" "k \<le> i" for w i
    using e [OF that(1)] that(2) assms(4) [of w] by fastforce
  then show "highest_view k m = v"
    using highest_view_only [OF _ n] by blast
qed

lemma length_filter_disjoint: "(\<And>x. \<not> (P x \<and> Q x)) \<Longrightarrow> length (filter P xs) + length (filter Q xs) \<le> length xs"
  by (induction xs) auto

lemma recover_loop_skips:
  assumes "\<forall>r \<in> set pre. rrs_viewNum r \<le> hv \<and> \<not> (rrs_viewNum r = hv \<and> rrs_isPrimary r)"
  shows "recover_loop now hv (pre @ rs) s = recover_loop now hv rs s"
  using assms by (induction pre) auto

lemma responseDone_eq:
  "responseDone n s = (receivedRespFromPri s \<and> quorumReached (WaitMap_cnt n (recWaitMap s)) s \<and>
     list_ex (\<lambda>(v, n). getMajorityCnt s \<le> n) (respViewCnt s), s\<lparr>recWaitMap := snd (WaitMap_get n (recWaitMap s))\<rparr>)"
  by (simp add: responseDone_def Let_def split_beta WaitMap_cnt_def quorumReached_def getMajorityCnt_def)

text \<open>Answers of a majority that name the view of the primary, and the primary's own, complete the wait.\<close>

lemma recovery_collects:
  assumes x: "status x = RECOVERING" "respViewCnt x = []" "recoveryResponses nonce x = []" "WaitMap_cnt nonce (recWaitMap x) = 0"
    and rs: "\<forall>r \<in> set rs. rrs_nonce r = nonce" "receivedRespFromPri x \<or> (\<exists>r \<in> set rs. rrs_isPrimary r)"
    and cnt: "length rs \<le> length (replicas x)" "quorumReached (length (filter (\<lambda>r. rrs_viewNum r = v) rs)) x"
    and y: "y = fold processRecoveryResponse rs x"
  shows "fst (responseDone nonce y)" "highest_view (getMajorityCnt y) (respViewCnt y) = v" "recoveryResponses nonce y = rs"
proof -
  have "um_wf (respViewCnt x)"
    by (simp add: x(2))
  note yc = fold_recoveryResponse_counts [OF x(1) rs(1) this, folded y]
  have maj: "getMajorityCnt y = getMajorityCnt x" "0 < getMajorityCnt x" "length (replicas x) < 2 * getMajorityCnt x"
    using fold_recoveryResponse_frame [OF x(1), of rs] by (auto simp: getMajorityCnt_def y)
  have "length (filter (\<lambda>r. rrs_viewNum r = w) rs) < getMajorityCnt x" if "w \<noteq> v" for w
    using length_filter_disjoint [of "\<lambda>r. rrs_viewNum r = w" "\<lambda>r. rrs_viewNum r = v" rs] that cnt maj(3)
    by (auto simp: quorumReached_def)
  then have hv: "highest_view (getMajorityCnt x) (respViewCnt y) = v" "list_ex (\<lambda>(v, n). getMajorityCnt x \<le> n) (respViewCnt y)"
    using highest_view_majority [of "respViewCnt y" "getMajorityCnt x" v] yc x(2) cnt(2) maj(2)
    by (simp_all add: quorumReached_def)
  have "quorumReached (length rs) x"
    using cnt(2) le_trans [OF _ length_filter_le [of "\<lambda>r. rrs_viewNum r = v" rs]] by (simp add: quorumReached_def)
  then show "fst (responseDone nonce y)"
    using yc rs(2) x(4) hv(2) by (simp add: responseDone_eq quorumReached_def maj(1))
  show "highest_view (getMajorityCnt y) (respViewCnt y) = v" "recoveryResponses nonce y = rs"
    using hv(1) yc x(3) by (simp_all add: maj(1))
qed

lemma recover_loop_finds:
  assumes "\<forall>r \<in> set rs. rrs_viewNum r \<le> hv \<and> (rrs_isPrimary r \<and> rrs_viewNum r = hv \<longrightarrow> r = p)" "p \<in> set rs"
  obtains post where "recover_loop now hv rs s = recover_loop now hv (p # post) s"
proof -
  obtain pre post where rs: "rs = pre @ p # post" "p \<notin> set pre"
    using split_list_first [OF assms(2)] by blast
  have "\<forall>r \<in> set pre. rrs_viewNum r \<le> hv \<and> \<not> (rrs_viewNum r = hv \<and> rrs_isPrimary r)"
    using assms(1) rs by auto
  from that [of post, unfolded rs(1), OF recover_loop_skips [OF this]] show ?thesis .
qed

text \<open>The answer at which the waiter is woken: the first one after which \<open>responseDone\<close> holds.\<close>

lemma notify_responseDone:
  assumes "status s = RECOVERING" "rrs_nonce r = nonce"
  shows "fst (processRecoveryResponse_notify r s) = fst (responseDone nonce (processRecoveryResponse r s))"
  using assms by (simp add: processRecoveryResponse_def processRecoveryResponse_notify_def Let_def responseDone_eq
      quorumReached_def getMajorityCnt_def)

lemma processRecoveryResponse_status [simp]: "status (processRecoveryResponse r s) = status s"
  by (cases "status s = RECOVERING")
    (simp_all add: processRecoveryResponse_recovering, simp add: processRecoveryResponse_def processRecoveryResponse_notify_def)

lemma await_response_notified:
  assumes "status s = RECOVERING" "\<forall>r \<in> set rs. rrs_nonce r = nonce" "rs \<noteq> []"
    and "fst (responseDone nonce (fold processRecoveryResponse rs s))"
  obtains n where "fst (responseDone nonce (fold processRecoveryResponse (take n rs) s))"
    "await_response nonce k rs s = (no_timeout, fold processRecoveryResponse (take (n + k) rs) s)"
  using assms
proof (induction rs arbitrary: s thesis)
  case (Cons r rs)
  let ?s = "processRecoveryResponse r s"
  have e: "processRecoveryResponse_notify r s = (fst (responseDone nonce ?s), ?s)"
    using notify_responseDone [OF Cons.prems(2), of r nonce] Cons.prems(3)
    by (simp add: processRecoveryResponse_def prod_eq_iff)
  show ?case
  proof (cases "fst (responseDone nonce ?s)")
    case True
    then show ?thesis
      using Cons.prems(1) [of 1] Cons.prems(3) by (simp add: e)
  next
    case False
    then have "rs \<noteq> []"
      using Cons.prems(5) by auto
    moreover have "status ?s = RECOVERING" "\<forall>r \<in> set rs. rrs_nonce r = nonce"
      "fst (responseDone nonce (fold processRecoveryResponse rs ?s))"
      using Cons.prems(2,3,5) by simp_all
    ultimately obtain n where n: "fst (responseDone nonce (fold processRecoveryResponse (take n rs) ?s))"
      "await_response nonce k rs ?s = (no_timeout, fold processRecoveryResponse (take (n + k) rs) ?s)"
      using Cons.IH [of ?s] by blast
    then show ?thesis
      using Cons.prems(1) [of "Suc n"] False by (simp add: e)
  qed
qed simp

lemma await_response_prefix:
  "await_response nonce k rs s = (no_timeout, t) \<Longrightarrow> \<exists>n. t = fold processRecoveryResponse (take n rs) s"
proof (induction nonce k rs s rule: await_response.induct)
  case (2 nonce k r rs s)
  show ?case
  proof (cases "fst (processRecoveryResponse_notify r s) \<and> rrs_nonce r = nonce")
    case True
    then have "t = fold processRecoveryResponse (take (Suc k) (r # rs)) s"
      using 2(2) by (simp add: split_beta processRecoveryResponse_def)
    then show ?thesis
      by blast
  next
    case False
    then have "await_response nonce k rs (snd (processRecoveryResponse_notify r s)) = (no_timeout, t)"
      using 2(2) by (auto simp: split_beta)
    from 2(1) [OF refl prod.collapse False this]
    obtain n where "t = fold processRecoveryResponse (take n rs) (processRecoveryResponse r s)"
      unfolding processRecoveryResponse_def [symmetric] by blast
    then have "t = fold processRecoveryResponse (take (Suc n) (r # rs)) s"
      by simp
    then show ?thesis
      by blast
  qed
qed simp

lemma recover_woken:
  assumes "recover (recovery_env nw now k rs) s = Return () t"
  obtains n where "recover (woken_env nw now (take n rs)) s = Return () t"
proof -
  let ?n = "of_int (now div ns_per_sec) :: Nonce"
  let ?q = "\<lparr>rrq_replicaId = selfId (set_status RECOVERING s), rrq_nonce = ?n, rrq_knownCommitNum = 0\<rparr>"
  define x where "x = invokeForAllReplicas (selfId (set_status RECOVERING s)) (invokeRecoveryRequest nw ?q) (set_status RECOVERING s)"
  define y where "y = responseDone ?n (x\<lparr>recWaitMap := snd (WaitMap_get ?n (recWaitMap x))\<rparr>)"
  define g where "g = (\<lambda>(st, s). if st = timeout then Raise (RuntimeError ''Recovery timed out'') s
     else bind_res (recover_loop now (highest_view (getMajorityCnt s) (respViewCnt s)) (recoveryResponses ?n s) s)
       (\<lambda>_ s :: 'a rch_scheme. assert_res (status s = NORMAL) (Return () (rec_cleanup s))))"
  have r: "recover E s = g (if fst y then (no_timeout, snd y) else rce_wait E (snd y))"
    if "rce_net E = nw" "rce_now E = now" for E
    unfolding recover_def Let_def that x_def [symmetric] y_def [symmetric] g_def split_beta fst_conv snd_conv by (rule refl)
  show ?thesis
  proof (cases "fst y")
    case True
    then show ?thesis
      using assms that [of 0] by (simp add: r recovery_env_def woken_env_def)
  next
    case False
    obtain st z where w: "await_response ?n k rs (snd y) = (st, z)"
      by (cases "await_response ?n k rs (snd y)")
    have "g (st, z) = Return () t"
      using assms False w by (simp add: r recovery_env_def)
    moreover from this have "st = no_timeout"
      by (cases st) (simp_all add: g_def)
    moreover obtain n where "z = fold processRecoveryResponse (take n rs) (snd y)"
      using await_response_prefix w \<open>st = no_timeout\<close> by blast
    ultimately show ?thesis
      using that [of n] False by (simp add: r woken_env_def)
  qed
qed

text \<open>When a majority of the answers names a view, the waiter is woken, and what it finds names that view too; unless the
  flag was set before, a primary's answer is among what it finds.\<close>

lemma recovery_wakes:
  assumes x: "status x = RECOVERING" "respViewCnt x = []" "recoveryResponses nonce x = []" "WaitMap_cnt nonce (recWaitMap x) = 0"
    and rs: "\<forall>r \<in> set rs. rrs_nonce r = nonce" "receivedRespFromPri x \<or> (\<exists>r \<in> set rs. rrs_isPrimary r)"
    and cnt: "length rs \<le> length (replicas x)" "quorumReached (length (filter (\<lambda>r. rrs_viewNum r = v) rs)) x"
  obtains ys where "set ys \<subseteq> set rs" "receivedRespFromPri x \<or> (\<exists>r \<in> set ys. rrs_isPrimary r)"
    "await_response nonce k rs x = (no_timeout, fold processRecoveryResponse ys x)"
    "highest_view (getMajorityCnt x) (respViewCnt (fold processRecoveryResponse ys x)) = v"
    "recoveryResponses nonce (fold processRecoveryResponse ys x) = ys"
proof -
  let ?f = "\<lambda>n. fold processRecoveryResponse (take n rs) x" and ?c = "\<lambda>w ys. length (filter (\<lambda>r. rrs_viewNum r = w) ys)"
  have "rs \<noteq> []"
    using cnt(2) by (auto simp: quorumReached_def getMajorityCnt_def)
  then obtain n where n: "fst (responseDone nonce (?f n))" "await_response nonce k rs x = (no_timeout, ?f (n + k))"
    by (rule await_response_notified [OF x(1) rs(1) _ recovery_collects(1) [OF x(1-4) rs cnt refl]])
  have wf: "um_wf (respViewCnt x)"
    by (simp add: x(2))
  have nonces: "\<forall>r \<in> set (take i rs). rrs_nonce r = nonce" for i
    using rs(1) by (auto dest: in_set_takeD)
  note c = fold_recoveryResponse_counts [OF x(1) nonces wf]
  have maj: "getMajorityCnt (?f i) = getMajorityCnt x" "0 < getMajorityCnt x" "length (replicas x) < 2 * getMajorityCnt x" for i
    using fold_recoveryResponse_frame [OF x(1), of "take i rs"] by (auto simp: getMajorityCnt_def)
  have le: "?c w (take i rs) \<le> ?c w (take (i + j) rs)" "?c w (take i rs) \<le> ?c w rs" for w i j
    by (simp add: take_add) (metis append_take_drop_id filter_append le_add1 length_append)
  have others: "?c w rs < getMajorityCnt x" if "w \<noteq> v" for w
    using length_filter_disjoint [of "\<lambda>r. rrs_viewNum r = w" "\<lambda>r. rrs_viewNum r = v" rs] that cnt maj(3)
    by (auto simp: quorumReached_def)
  obtain w m where w: "(w, m) \<in> set (respViewCnt (?f n))" "getMajorityCnt x \<le> m"
    using n(1) maj(1) by (auto simp: responseDone_eq list_ex_iff)
  then have "m = ?c w (take n rs)"
    using c [of n w] x(2) by (auto simp: WaitMap_cnt_find)
  then have "w = v" "getMajorityCnt x \<le> ?c v (take n rs)"
    using w(2) others [of w] le(2) [of w n] by fastforce+
  then have "getMajorityCnt x \<le> ?c v (take (n + k) rs)"
    using le(1) [of v n k] by simp
  then have "highest_view (getMajorityCnt x) (respViewCnt (?f (n + k))) = v"
    using c [of "n + k"] x(2) maj(2) le_less_trans [OF le(2) others]
    by (intro highest_view_majority(1)) simp_all
  moreover have "receivedRespFromPri x \<or> (\<exists>r \<in> set (take n rs). rrs_isPrimary r)"
    using n(1) c [of n] by (simp add: responseDone_eq)
  then have "receivedRespFromPri x \<or> (\<exists>r \<in> set (take (n + k) rs). rrs_isPrimary r)"
    using set_take_subset_set_take [of n "n + k" rs] by auto
  moreover have "recoveryResponses nonce (?f (n + k)) = take (n + k) rs"
    using c [of "n + k"] x(3) by simp
  ultimately show ?thesis
    using that [OF set_take_subset _ n(2)] by blast
qed

text \<open>What \<open>recover\<close> does after the wait, and the state in which it waits.\<close>

definition recover_rest :: "Nonce \<Rightarrow> time_point \<Rightarrow> 'a rch_scheme \<Rightarrow> ('a rch_scheme, unit) res" where
  "recover_rest nonce now z = bind_res (recover_loop now (highest_view (getMajorityCnt z) (respViewCnt z)) (recoveryResponses nonce z) z)
     (\<lambda>_ s. assert_res (status s = NORMAL) (Return () (rec_cleanup s)))"

lemma recover_waits:
  fixes t :: "'a rch_scheme"
  assumes idle: "recWaitMap t = []" "respViewCnt t = []" "recoveryRespMap t = []" and nonce: "nonce = of_int (now div ns_per_sec)"
  obtains x :: "'a rch_scheme" where "status x = RECOVERING" "respViewCnt x = []" "recoveryResponses nonce x = []"
    "WaitMap_cnt nonce (recWaitMap x) = 0" "receivedRespFromPri x = receivedRespFromPri t" "kvMap x = kvMap t"
    "replicatorRegistered x = replicatorRegistered t" "selfId x = selfId t" "replicas x = replicas t"
    "\<forall>ys. await_response nonce k rs x = (no_timeout, fold processRecoveryResponse ys x) \<longrightarrow>
      recover (recovery_env nw now k rs) t = recover_rest nonce now (fold processRecoveryResponse ys x)"
proof -
  obtain cl out where b: "invokeForAllReplicas (selfId t) (invokeRecoveryRequest nw
      \<lparr>rrq_replicaId = selfId t, rrq_nonce = nonce, rrq_knownCommitNum = 0\<rparr>) (set_status RECOVERING t) =
    (set_status RECOVERING t)\<lparr>recClWrappers := cl, netOut := out\<rparr>"
    by (rule recovery_broadcast)
  define x where "x = (set_status RECOVERING t)\<lparr>recClWrappers := cl, netOut := out, recWaitMap := snd (WaitMap_get nonce [])\<rparr>"
  have x: "status x = RECOVERING" "respViewCnt x = []" "recoveryResponses nonce x = []" "WaitMap_cnt nonce (recWaitMap x) = 0"
    "receivedRespFromPri x = receivedRespFromPri t" "kvMap x = kvMap t" "replicatorRegistered x = replicatorRegistered t"
    "selfId x = selfId t" "replicas x = replicas t"
    using idle by (simp_all add: x_def recoveryResponses_def)
  have waits: "responseDone nonce x = (False, x)"
    using x(4) by (simp add: responseDone_eq quorumReached_def getMajorityCnt_def) (simp add: x_def WaitMap_get_def)
  have "(set_status RECOVERING t)\<lparr>recClWrappers := cl, netOut := out, recWaitMap := snd (WaitMap_get nonce (recWaitMap t))\<rparr> = x"
    by (simp add: x_def idle(1))
  then have "recover (recovery_env nw now k rs) t = recover_rest nonce now (fold processRecoveryResponse ys x)"
    if "await_response nonce k rs x = (no_timeout, fold processRecoveryResponse ys x)" for ys
    using b waits that by (simp add: recover_def recover_rest_def Let_def recovery_env_def nonce [symmetric])
  from that [OF x] this show ?thesis
    by blast
qed

lemma recover_installs:
  fixes t :: "'a rch_scheme"
  assumes reg: "regular s" and idle: "replicatorRegistered t" "kvMap t = []" "recWaitMap t = []" "respViewCnt t = []" "recoveryRespMap t = []"
      "\<not> receivedRespFromPri t"
    and nonce: "nonce = of_int (now div ns_per_sec)"
    and rs: "\<forall>r \<in> set rs. rrs_nonce r = nonce \<and> rrs_viewNum r \<le> viewNum s \<and>
      (rrs_isPrimary r \<longrightarrow> r = primary_response nonce s)"
    and pri: "primary_response nonce s \<in> set rs"
    and cnt: "length rs \<le> length (replicas t)" "quorumReached (length (filter (\<lambda>r. rrs_viewNum r = viewNum s) rs)) t"
  obtains u where "recover (recovery_env nw now k rs) t = Return () u" "regular u"
    "log_ops (oplog u) = log_ops (oplog s)" "map_of (kvMap u) = map_of (kvMap s)"
    "opNum u = opNum s" "commitNum u = commitNum s" "viewNum u = viewNum s" "priId u = selfId s"
    "status u = NORMAL" "selfId u = selfId t" "replicas u = replicas t"
proof -
  let ?p = "primary_response nonce s" and ?v = "viewNum s"
  obtain x :: "'a rch_scheme" where x: "status x = RECOVERING" "respViewCnt x = []" "recoveryResponses nonce x = []"
    "WaitMap_cnt nonce (recWaitMap x) = 0" "receivedRespFromPri x = receivedRespFromPri t" "kvMap x = kvMap t"
    "replicatorRegistered x = replicatorRegistered t" "selfId x = selfId t" "replicas x = replicas t"
    "\<forall>ys. await_response nonce k rs x = (no_timeout, fold processRecoveryResponse ys x) \<longrightarrow>
      recover (recovery_env nw now k rs) t = recover_rest nonce now (fold processRecoveryResponse ys x)"
    by (rule recover_waits [OF idle(3-5) nonce, of k rs nw])
  have "\<forall>r \<in> set rs. rrs_nonce r = nonce" "receivedRespFromPri x \<or> (\<exists>r \<in> set rs. rrs_isPrimary r)" "length rs \<le> length (replicas x)"
    "quorumReached (length (filter (\<lambda>r. rrs_viewNum r = ?v) rs)) x"
    using rs cnt x(9) bexI [OF _ pri, of rrs_isPrimary] by (simp_all add: quorumReached_def getMajorityCnt_def primary_response_def)
  from recovery_wakes [OF x(1-4) this, of k thesis for thesis] obtain ys where
    ys: "set ys \<subseteq> set rs" "receivedRespFromPri x \<or> (\<exists>r \<in> set ys. rrs_isPrimary r)"
    "await_response nonce k rs x = (no_timeout, fold processRecoveryResponse ys x)"
    "highest_view (getMajorityCnt x) (respViewCnt (fold processRecoveryResponse ys x)) = ?v"
    "recoveryResponses nonce (fold processRecoveryResponse ys x) = ys"
    by blast
  define z where "z = fold processRecoveryResponse ys x"
  have z: "kvMap z = []" "replicatorRegistered z" "selfId z = selfId t" "replicas z = replicas t"
    "highest_view (getMajorityCnt z) (respViewCnt z) = ?v" "recoveryResponses nonce z = ys"
    using fold_recoveryResponse_frame [OF x(1), of ys, folded z_def] x(6-9) idle(1,2) ys(4,5) [folded z_def]
    by (simp_all add: getMajorityCnt_def)
  have "?p \<in> set ys" "\<forall>r \<in> set ys. rrs_viewNum r \<le> ?v \<and> (rrs_isPrimary r \<and> rrs_viewNum r = ?v \<longrightarrow> r = ?p)"
    using ys(1,2) rs x(5) idle(6) by auto
  then obtain post where loop: "recover_loop now ?v ys z = recover_loop now ?v (?p # post) z"
    using recover_loop_finds [of ys ?v ?p] by blast
  obtain u where u: "recover_loop now ?v (?p # post) z = Return () u" "regular u"
    "log_ops (oplog u) = log_ops (oplog s)" "map_of (kvMap u) = map_of (kvMap s)"
    "opNum u = opNum s" "commitNum u = commitNum s" "viewNum u = ?v" "priId u = selfId s"
    "status u = NORMAL" "selfId u = selfId z" "replicas u = replicas z"
    by (rule recover_loop_installs [OF reg z(2,1) refl])
  have "recover (recovery_env nw now k rs) t = Return () (rec_cleanup u)"
    unfolding x(10) [rule_format, OF ys(3)] recover_rest_def z_def [symmetric] z(5,6) loop u(1) by (simp add: u(9))
  then show ?thesis
    using that [of "rec_cleanup u"] u z(3,4) regular_cong [of "rec_cleanup u" u] by (simp add: rec_cleanup_def)
qed

text \<open>The wait looks at the answers in any view: a flag that is set already, or the answer of a primary of an earlier view,
  lets it end before the primary of the majority's view has answered, and then the last assertion of \<open>recover\<close> fails.\<close>

lemma await_response_append:
  "await_response nonce 0 rs s = (no_timeout, t) \<Longrightarrow> await_response nonce 0 (rs @ rs') s = (no_timeout, t)"
  by (induction rs arbitrary: s) (auto simp: split_beta split: if_splits)

lemma early_wake:
  fixes t :: "'a rch_scheme"
  assumes idle: "recWaitMap t = []" "respViewCnt t = []" "recoveryRespMap t = []"
    and nonce: "nonce = of_int (now div ns_per_sec)"
    and rs: "\<forall>r \<in> set rs. rrs_nonce r = nonce \<and> rrs_viewNum r \<le> v \<and> (rrs_isPrimary r \<longrightarrow> rrs_viewNum r < v)"
    and pri: "receivedRespFromPri t \<or> (\<exists>r \<in> set rs. rrs_isPrimary r)"
    and cnt: "length rs \<le> length (replicas t)" "quorumReached (length (filter (\<lambda>r. rrs_viewNum r = v) rs)) t"
  shows "recover (recovery_env nw now 0 (rs @ rs')) t = Abort"
proof -
  obtain x :: "'a rch_scheme" where x: "status x = RECOVERING" "respViewCnt x = []" "recoveryResponses nonce x = []"
    "WaitMap_cnt nonce (recWaitMap x) = 0" "receivedRespFromPri x = receivedRespFromPri t" "replicas x = replicas t"
    "\<forall>ys. await_response nonce 0 (rs @ rs') x = (no_timeout, fold processRecoveryResponse ys x) \<longrightarrow>
      recover (recovery_env nw now 0 (rs @ rs')) t = recover_rest nonce now (fold processRecoveryResponse ys x)"
    by (rule recover_waits [OF idle nonce, of 0 "rs @ rs'" nw])
  have "\<forall>r \<in> set rs. rrs_nonce r = nonce" "receivedRespFromPri x \<or> (\<exists>r \<in> set rs. rrs_isPrimary r)" "length rs \<le> length (replicas x)"
    "quorumReached (length (filter (\<lambda>r. rrs_viewNum r = v) rs)) x"
    using rs cnt pri x(5,6) by (simp_all add: quorumReached_def getMajorityCnt_def)
  from recovery_wakes [OF x(1-4) this, of 0 thesis for thesis] obtain ys where
    ys: "set ys \<subseteq> set rs" "await_response nonce 0 rs x = (no_timeout, fold processRecoveryResponse ys x)"
    "highest_view (getMajorityCnt x) (respViewCnt (fold processRecoveryResponse ys x)) = v"
    "recoveryResponses nonce (fold processRecoveryResponse ys x) = ys"
    by blast
  define z where "z = fold processRecoveryResponse ys x"
  have z: "status z = RECOVERING" "highest_view (getMajorityCnt z) (respViewCnt z) = v" "recoveryResponses nonce z = ys"
    using fold_recoveryResponse_frame [OF x(1), of ys, folded z_def] x(1) ys(3,4) [folded z_def]
    by (simp_all add: getMajorityCnt_def)
  have "\<forall>r \<in> set ys. rrs_viewNum r \<le> v \<and> \<not> (rrs_viewNum r = v \<and> rrs_isPrimary r)"
    using ys(1) rs by auto
  then have "recover_loop now v ys z = Return () z"
    using recover_loop_skips [of ys v now "[]" z] by simp
  then show ?thesis
    unfolding x(7) [rule_format, OF await_response_append [OF ys(2)]] recover_rest_def z_def [symmetric] z(2,3) by (simp add: z(1))
qed

text \<open>What recovery leaves alone, and what it sends.\<close>

definition rec_kept :: "'a rch_scheme \<Rightarrow> bool \<times> ReplicaId \<times> (ReplicaId, EndPoint) umap \<times> (ViewInt, ViewStartInfo) umap \<times>
    (ViewInt, ViewChangeInfo list) umap \<times> ViewInt WaitMap \<times> ViewInt WaitMap \<times> 'a" where
  "rec_kept s = (replicatorRegistered s, selfId s, replicas s, viewStartInfoMap s, viewChangeInfoMap s, doViewChangeMap s,
     startViewMap s, rch.more s)"

definition rec_only :: "'a rch_scheme \<Rightarrow> 'a rch_scheme \<Rightarrow> bool" where
  "rec_only s t \<longleftrightarrow> rec_kept t = rec_kept s \<and> (\<forall>x \<in> set (netOut t). x \<in> set (netOut s) \<or> (\<exists>q. snd x = RecoveryReq q))"

lemma rec_only_refl [simp]: "rec_only s s"
  by (simp add: rec_only_def)

lemma rec_only_trans: "rec_only s t \<Longrightarrow> rec_only t u \<Longrightarrow> rec_only s u"
  by (auto simp: rec_only_def)

lemma rec_only_request: "rec_only t (invokeRecoveryRequest nw q ep t)"
proof -
  obtain ok cl out where "invoke_rpc nw (RecoveryReq q) ep (recClWrappers t) (netOut t) = (ok, cl, netOut t @ out)"
    "set out \<subseteq> {(ep, RecoveryReq q)}"
    by (rule invoke_rpc_sends)
  then show ?thesis
    by (auto simp: rec_only_def rec_kept_def invokeRecoveryRequest_def)
qed

lemma rec_only_response: "rec_only s (processRecoveryResponse r s)"
  by (simp add: rec_only_def rec_kept_def processRecoveryResponse_def processRecoveryResponse_notify_def responseDone_def
      Let_def split_beta)

lemma rec_only_fold: "rec_only s (fold processRecoveryResponse rs s)"
  by (induction rs arbitrary: s) (auto intro: rec_only_trans rec_only_response)

lemma rec_only_log: "recoverStateFromLog es s = Return () t \<Longrightarrow> rec_only s t"
proof (induction es s rule: recoverStateFromLog.induct)
  case (2 e es s)
  have "rec_only s (apply_entry e s)"
    by (simp add: rec_only_def rec_kept_def apply_entry_def updateCb_def setInt_def deleteCb_def removeInt_def split: OpType.split)
  then show ?case
    using 2 by (auto simp: outcome_simps intro: rec_only_trans split: if_splits)
qed simp

lemma rec_only_loop: "recover_loop now hv rs s = Return () t \<Longrightarrow> rec_only s t"
proof (induction rs)
  case (Cons r rs)
  have "rec_only s (u\<lparr>oplog := l, rstate := x\<rparr>)" "rec_only s (u\<lparr>rstate := x, oplog := l\<rparr>)" if "rec_only s u" for u x l
    using that by (simp_all add: rec_only_def rec_kept_def)
  then show ?case
    using Cons by (auto simp: outcome_simps Let_def dest!: rec_only_log split: if_splits)
qed simp

lemma recover_loop_primary:
  assumes "recover_loop now hv rs s = Return () t" "status t = NORMAL" "status s \<noteq> NORMAL"
  obtains r post where "r \<in> set rs" "rrs_isPrimary r" "rrs_viewNum r = hv" "recover_loop now hv (r # post) s = Return () t"
  using assms
proof (induction rs arbitrary: thesis)
  case (Cons r rs)
  show ?case
  proof (cases "rrs_viewNum r = hv \<and> rrs_isPrimary r")
    case True
    then show ?thesis
      using Cons.prems(1) [of r rs] Cons.prems(2) by simp
  next
    case False
    then have "recover_loop now hv rs s = Return () t"
      using Cons.prems(2) by (auto simp: outcome_simps)
    then show ?thesis
      using Cons.IH Cons.prems by (metis list.set_intros(2))
  qed
qed simp

text \<open>A recovery that returns has gone through the loop over the answers: the state \<open>z\<close> is the one after the wait.\<close>

lemma fold_recoveryResponse_responses:
  assumes "status s = RECOVERING"
  shows "recoveryResponses nonce (fold processRecoveryResponse rs s) = recoveryResponses nonce s @ filter (\<lambda>r. rrs_nonce r = nonce) rs"
  using assms by (induction rs arbitrary: s) (auto simp: processRecoveryResponse_recovering recoveryResponses_def)

lemma recover_waited:
  fixes s :: "'a rch_scheme"
  assumes "recover (woken_env nw now rs) s = Return () t" "nonce = of_int (now div ns_per_sec)" "recoveryRespMap s = []"
  obtains z w hv where "rec_only s z" "status z = RECOVERING" "kvMap z = kvMap s"
    "set (recoveryResponses nonce z) \<subseteq> {r \<in> set rs. rrs_nonce r = nonce}"
    "recover_loop now hv (recoveryResponses nonce z) z = Return () w" "status w = NORMAL" "t = rec_cleanup w"
proof -
  let ?E = "woken_env nw now rs" and ?q = "\<lparr>rrq_replicaId = selfId s, rrq_nonce = nonce, rrq_knownCommitNum = 0\<rparr>"
  obtain cl out where b: "invokeForAllReplicas (selfId s) (invokeRecoveryRequest nw ?q) (set_status RECOVERING s) =
      (set_status RECOVERING s)\<lparr>recClWrappers := cl, netOut := out\<rparr>"
    by (rule recovery_broadcast)
  have "rec_only (set_status RECOVERING s) (invokeForAllReplicas (selfId s) (invokeRecoveryRequest nw ?q) (set_status RECOVERING s))"
    by (rule broadcast_rel) (auto intro: rec_only_trans rec_only_request)
  then have only: "rec_only s ((set_status RECOVERING s)\<lparr>recClWrappers := cl, netOut := out\<rparr>)"
    unfolding b by (simp add: rec_only_def rec_kept_def)
  define x where "x = (set_status RECOVERING s)\<lparr>recClWrappers := cl, netOut := out, recWaitMap := snd (WaitMap_get nonce (recWaitMap s))\<rparr>"
  define y where "y = fold processRecoveryResponse rs (snd (responseDone nonce x))"
  have x: "rec_only s x" "status x = RECOVERING" "kvMap x = kvMap s" "recoveryResponses nonce x = []"
    using only assms(3) by (simp_all add: x_def rec_only_def rec_kept_def recoveryResponses_def)
  have d: "rec_only v (snd (responseDone nonce v))" "status (snd (responseDone nonce v)) = status v"
    "kvMap (snd (responseDone nonce v)) = kvMap v" "recoveryResponses nonce (snd (responseDone nonce v)) = recoveryResponses nonce v" for v :: "'a rch_scheme"
    by (simp_all add: rec_only_def rec_kept_def responseDone_eq recoveryResponses_def)
  have y: "rec_only s y" "status y = RECOVERING" "kvMap y = kvMap s" "recoveryResponses nonce y = filter (\<lambda>r. rrs_nonce r = nonce) rs"
    unfolding y_def using rec_only_trans [OF rec_only_trans [OF x(1) d(1)] rec_only_fold] x d
      fold_recoveryResponse_frame [of "snd (responseDone nonce x)" rs]
      fold_recoveryResponse_responses [of "snd (responseDone nonce x)" nonce rs] by simp_all
  have e: "rce_net ?E = nw" "rce_now ?E = now"
    "rce_wait ?E v = (no_timeout, fold processRecoveryResponse rs v)" for v
    by (simp_all add: woken_env_def)
  have r: "recover ?E s =
    (let (d, s) = responseDone nonce x; (st, s) = (if d then (no_timeout, s) else rce_wait ?E s)
     in if st = timeout then Raise (RuntimeError ''Recovery timed out'') s
        else bind_res (recover_loop now (highest_view (getMajorityCnt s) (respViewCnt s)) (recoveryResponses nonce s) s)
          (\<lambda>_ s. assert_res (status s = NORMAL) (Return () (rec_cleanup s))))"
    using b unfolding recover_def Let_def x_def e(1,2) assms(2) by simp
  define z where "z = (if fst (responseDone nonce x) then snd (responseDone nonce x) else y)"
  have "bind_res (recover_loop now (highest_view (getMajorityCnt z) (respViewCnt z)) (recoveryResponses nonce z) z)
          (\<lambda>_ s. assert_res (status s = NORMAL) (Return () (rec_cleanup s))) = Return () t"
    using assms(1) unfolding r z_def by (auto simp: e(3) split_beta y_def [symmetric] split: if_splits)
  moreover have "rec_only s z" "status z = RECOVERING" "kvMap z = kvMap s"
    "set (recoveryResponses nonce z) \<subseteq> {r \<in> set rs. rrs_nonce r = nonce}"
    using x y d rec_only_trans [OF x(1) d(1)] by (simp_all add: z_def)
  ultimately show ?thesis
    using that by (auto simp: outcome_simps)
qed

text \<open>Without an answer from a primary it does not return: it times out or fails its last assertion.\<close>

lemma recover_needs_primary:
  fixes s t :: "'a rch_scheme"
  assumes "recover (woken_env nw now rs) s = Return () t" "recoveryRespMap s = []"
  shows "\<exists>r \<in> set rs. rrs_nonce r = of_int (now div ns_per_sec) \<and> rrs_isPrimary r"
proof -
  obtain z :: "'a rch_scheme" and w hv where z: "status z = RECOVERING"
    "set (recoveryResponses (of_int (now div ns_per_sec)) z) \<subseteq> {r \<in> set rs. rrs_nonce r = of_int (now div ns_per_sec)}"
    "recover_loop now hv (recoveryResponses (of_int (now div ns_per_sec)) z) z = Return () w" "status w = NORMAL"
    by (rule recover_waited [OF assms(1) refl assms(2)])
  show ?thesis
    by (rule recover_loop_primary [OF z(3,4)]) (use z(1,2) in auto)
qed

text \<open>Whatever the answers were, late answers to earlier requests included: when every answer to this request that
  claims to be a primary's is one of a regular replica with the property \<open>P\<close>, a recovery that returns has installed the
  log, numbers and store of such a replica.\<close>

lemma recover_returns:
  fixes s t :: "'a rch_scheme" and P :: "'b base_scheme \<Rightarrow> bool"
  assumes ret: "recover (woken_env nw now rs) s = Return () t" and nonce: "nonce = of_int (now div ns_per_sec)"
    and idle: "replicatorRegistered s" "kvMap s = []" "recoveryRespMap s = []"
    and rs: "\<And>r. r \<in> set rs \<Longrightarrow> rrs_nonce r = nonce \<Longrightarrow> rrs_isPrimary r \<Longrightarrow> \<exists>p. regular p \<and> P p \<and> r = primary_response nonce p"
  obtains p where "P p" "regular p" "regular t" "log_ops (oplog t) = log_ops (oplog p)" "opNum t = opNum p" "commitNum t = commitNum p"
    "viewNum t = viewNum p" "priId t = selfId p" "status t = NORMAL" "rec_only s t"
proof -
  obtain z w hv where z: "rec_only s z" "status z = RECOVERING" "kvMap z = kvMap s"
    "set (recoveryResponses nonce z) \<subseteq> {r \<in> set rs. rrs_nonce r = nonce}"
    "recover_loop now hv (recoveryResponses nonce z) z = Return () w" "status w = NORMAL" "t = rec_cleanup w"
    by (rule recover_waited [OF ret nonce idle(3)])
  obtain r post where r: "r \<in> set rs" "rrs_nonce r = nonce" "rrs_isPrimary r" "rrs_viewNum r = hv"
    "recover_loop now hv (r # post) z = Return () w"
    by (rule recover_loop_primary [OF z(5,6)]) (use z(2,4) in auto)
  obtain p where p: "regular p" "P p" "r = primary_response nonce p"
    using rs r(1-3) by blast
  then have hv: "hv = viewNum p"
    using r(4) by (simp add: primary_response_def)
  have "replicatorRegistered z" "kvMap z = []"
    using z(1,3) idle(1,2) by (simp_all add: rec_only_def rec_kept_def)
  then obtain u where u: "recover_loop now (viewNum p) (r # post) z = Return () u" "regular u" "log_ops (oplog u) = log_ops (oplog p)"
    "opNum u = opNum p" "commitNum u = commitNum p" "viewNum u = viewNum p" "priId u = selfId p"
    by (rule recover_loop_installs [OF p(1) _ _ p(3), of z now post])
  then have "u = w"
    using r(5) hv by simp
  have "rec_only w t"
    by (simp add: z(7) rec_only_def rec_kept_def rec_cleanup_def)
  then have only: "rec_only s t"
    using rec_only_trans z(1) rec_only_loop [OF z(5)] by metis
  have "rstate t = rstate w" "oplog t = oplog w" "kvMap t = kvMap w"
    by (simp_all add: z(7) rec_cleanup_def)
  then show ?thesis
    using that [OF p(2,1) _ _ _ _ _ _ _ only] u(2-7) \<open>u = w\<close> z(6) regular_cong [of t w] by auto
qed

section \<open>Applying what a view change commits\<close>

text \<open>A log of the operations 1 to \<open>n\<close> of which the first \<open>c\<close> are committed.\<close>

definition prefix_log :: "nat \<Rightarrow> nat \<Rightarrow> InMemOpLog \<Rightarrow> bool" where
  "prefix_log n c l \<longleftrightarrow> log_inv l \<and> n < 2 ^ 64 \<and> opNums l = map of_nat [1..<Suc n] \<and>
     (\<forall>i e. getLogEntry i l = Some e \<longrightarrow> (le_committed e \<longleftrightarrow> unat i \<le> c))"

lemma regular_prefix_log:
  "regular s \<Longrightarrow> prefix_log (unat (opNum s)) (unat (commitNum s)) (oplog s)"
  using unsigned_less [of "opNum s", where ?'a = nat]
  by (simp add: regular_def prefix_log_def word_le_nat_alt)

lemma prefix_log_entry:
  assumes l: "prefix_log n c l" and k: "k < n"
  shows "\<exists>e. getLogEntry (of_nat (Suc k)) l = Some e \<and> entry_op e = log_ops l ! k \<and> (le_committed e \<longleftrightarrow> k < c)"
proof -
  have inv: "log_inv l" and nums: "opNums l = map of_nat [1..<Suc n]" and n: "n < 2 ^ 64"
    using l by (simp_all add: prefix_log_def)
  have nth: "opNums l ! k = of_nat (Suc k)"
    unfolding nums using k by (simp add: nth_append del: upt_Suc)
  have len: "length (opNums l) = n"
    unfolding nums by simp
  have "of_nat (Suc k) \<in> set (opNums l)"
    using nth k len nth_mem by metis
  then obtain e where e: "getLogEntry (of_nat (Suc k)) l = Some e"
    using log_inv_nums [OF inv] by blast
  then have "entry_op e = log_ops l ! k"
    using k len nth by (simp add: log_ops_def fst_getLog [OF inv] getLogEntry_def)
  moreover have "unat (of_nat (Suc k) :: u64) = Suc k"
    using k n by (intro unat_of_nat_u64) simp
  ultimately show ?thesis
    using l e unfolding prefix_log_def by (auto simp: Suc_le_eq)
qed

lemma prefix_log_size:
  assumes "prefix_log n c l"
  shows "logSize l = n" "length (log_ops l) = n"
proof -
  have inv: "log_inv l" and n: "n < 2 ^ 64" and nums: "opNums l = map of_nat [1..<Suc n]"
    using assms by (simp_all add: prefix_log_def)
  have "inj_on (of_nat :: nat \<Rightarrow> u64) {1..<Suc n}"
    using n by (intro inj_on_inverseI [of _ unat] unat_of_nat_u64) simp
  then have d: "distinct (opNums l)"
    unfolding nums by (simp add: distinct_map del: upt_Suc)
  have len: "length (opNums l) = n"
    unfolding nums by simp
  have "length (opLogMap l) = card (fst ` set (opLogMap l))"
    using inv by (metis distinct_card length_map log_inv_def set_map)
  also have "\<dots> = card (set (opNums l))"
    using inv by (simp add: log_inv_def)
  also have "\<dots> = n"
    using d len by (simp add: distinct_card)
  finally show "logSize l = n"
    by (simp add: logSize_def)
  show "length (log_ops l) = n"
    using inv len by (simp add: log_ops_def length_getLog)
qed

lemma fold_drop_take:
  "fold f (drop k (take m xs)) a =
     fold f (drop (Suc k) (take m xs)) (if k < m \<and> k < length xs then f (xs ! k) a else a)"
proof (cases "k < m \<and> k < length xs")
  case True
  then have "k < length (take m xs)"
    by simp
  from Cons_nth_drop_Suc [OF this, symmetric] show ?thesis
    using True by simp
qed auto

lemma apply_committed_loop_spec:
  assumes "prefix_log n c (oplog s)" "replicatorRegistered s" "k < n"
  shows "\<exists>t. apply_committed_loop (of_nat (Suc k)) s = Return () t \<and> rstate t = rstate s \<and>
    oplog t = oplog s \<and> selfId t = selfId s \<and> (um_wf (kvMap s) \<longrightarrow> um_wf (kvMap t)) \<and>
    map_of (kvMap t) = fold op_effect (drop k (take (min c (n - 1)) (log_ops (oplog s)))) (map_of (kvMap s))"
  using assms
proof (induction "n - k" arbitrary: k s)
  case (Suc d)
  have n: "n < 2 ^ 64"
    using Suc.prems(1) by (simp add: prefix_log_def)
  have size: "logSize (oplog s) = n" "length (log_ops (oplog s)) = n"
    using prefix_log_size [OF Suc.prems(1)] by blast+
  have "unat (of_nat (Suc k) :: u64) = Suc k" "unat (of_nat n :: u64) = n"
    using n Suc.prems(3) by (simp_all only: unat_of_nat_u64 Suc_le_eq le_less_trans [OF _ n])
  then have lt: "(of_nat (Suc k) :: u64) < of_nat n \<longleftrightarrow> Suc k < n"
    by (simp only: word_less_nat_alt)
  have next_: "of_nat (Suc k) + 1 = (of_nat (Suc (Suc k)) :: u64)"
    by (simp add: add.commute)
  show ?case
  proof (cases "Suc k < n")
    case False
    then have "k = n - 1"
      using Suc.prems(3) by simp
    moreover have "\<not> (of_nat (Suc k) :: u64) < of_nat n"
      using lt False by simp
    ultimately show ?thesis
      by (subst apply_committed_loop.simps) (simp add: size)
  next
    case True
    obtain e where e: "getLogEntry (of_nat (Suc k)) (oplog s) = Some e"
      "entry_op e = log_ops (oplog s) ! k" "le_committed e \<longleftrightarrow> k < c"
      using prefix_log_entry [OF Suc.prems(1,3)] by blast
    have cb: "replicatorRegistered (apply_entry e s) = replicatorRegistered s"
      by (simp add: apply_entry_def updateCb_def setInt_def deleteCb_def removeInt_def split: OpType.split)
    let ?s = "if k < c then apply_entry e s else s"
    have step: "apply_committed_loop (of_nat (Suc k)) s = apply_committed_loop (of_nat (Suc (Suc k))) ?s"
      using True lt e(1,3) Suc.prems(2) next_ by (subst apply_committed_loop.simps) (simp add: size)
    have eff: "fold op_effect (drop k (take (min c (n - 1)) (log_ops (oplog s)))) m =
        fold op_effect (drop (Suc k) (take (min c (n - 1)) (log_ops (oplog s))))
          (if k < c then op_effect (log_ops (oplog s) ! k) m else m)" for m
      using True size(2) by (subst fold_drop_take) (simp add: less_diff_conv)
    have s: "oplog ?s = oplog s" "replicatorRegistered ?s" "rstate ?s = rstate s" "selfId ?s = selfId s"
      "um_wf (kvMap s) \<longrightarrow> um_wf (kvMap ?s)"
      "map_of (kvMap ?s) = (if k < c then op_effect (log_ops (oplog s) ! k) (map_of (kvMap s)) else map_of (kvMap s))"
      using cb Suc.prems(2) e(2) by (simp_all add: entry_effect_op)
    have "d = n - Suc k"
      using Suc.hyps(2) by simp
    from Suc.hyps(1) [OF this, of ?s] obtain t where
      "apply_committed_loop (of_nat (Suc (Suc k))) ?s = Return () t" "rstate t = rstate ?s"
      "oplog t = oplog ?s" "selfId t = selfId ?s" "um_wf (kvMap ?s) \<longrightarrow> um_wf (kvMap t)"
      "map_of (kvMap t) = fold op_effect (drop (Suc k) (take (min c (n - 1)) (log_ops (oplog ?s)))) (map_of (kvMap ?s))"
      using Suc.prems(1) True s(1,2) by auto
    then show ?thesis
      using s by (intro exI [of _ t]) (simp only: step eff, simp)
  qed
qed simp

text \<open>The loop relates the first and the last state by everything that applying one entry does.\<close>

lemma apply_committed_loop_rel:
  assumes "apply_committed_loop i s = Return () t" and "\<And>s. R s s" and "\<And>s e t. R (apply_entry e s) t \<Longrightarrow> R s t"
  shows "R s t"
  using assms(1)
proof (induction i s rule: apply_committed_loop.induct)
  case (1 i s)
  then show ?case
    using assms(2,3) by (subst (asm) (3) apply_committed_loop.simps) (auto split: option.splits if_splits)
qed

lemma finish_view_frame:
  assumes "finish_view now c s = Return () t"
  shows "oplog t = oplog s \<and> selfId t = selfId s \<and> netOut t = netOut s \<and>
    rstate t = (rstate s)\<lparr>rs_lastCommitTime := now, rs_status := NORMAL\<rparr>"
proof -
  obtain u where u: "apply_committed_loop (c + 1) s = Return () u"
    and t: "t = set_status NORMAL (set_lastCommitTime now u)"
    using assms by (auto simp: finish_view_def outcome_simps split: option.splits)
  have "oplog u = oplog s \<and> selfId u = selfId s \<and> netOut u = netOut s \<and> rstate u = rstate s"
    using u by (rule apply_committed_loop_rel) simp_all
  then show ?thesis
    by (simp add: t)
qed

lemma replay_ops_continue:
  "fold op_effect (drop a (take b xs)) (replay_ops (take a xs)) = replay_ops (take (max a b) xs)"
proof (cases "a \<le> b")
  case True
  then have "take (max a b) xs = take a xs @ drop a (take b xs)"
    using append_take_drop_id [of a "take b xs"] by (simp add: max_def min_def)
  then show ?thesis
    by (simp add: replay_ops_def)
next
  case False
  then show ?thesis
    by (simp add: max_def)
qed

lemma finish_view_spec:
  assumes l: "prefix_log n c (oplog s)" and cb: "replicatorRegistered s" and wf: "um_wf (kvMap s)"
    and o: "0 < o'" "o' \<le> c" "c \<le> n" and n: "Suc n < 2 ^ 64" and kv: "map_of (kvMap s) = replay_ops (take o' (log_ops (oplog s)))"
  shows "\<exists>t. finish_view now (of_nat o') s = Return () t \<and> status t = NORMAL \<and> oplog t = oplog s \<and>
    opNum t = opNum s \<and> commitNum t = commitNum s \<and> viewNum t = viewNum s \<and> priId t = priId s \<and>
    um_wf (kvMap t) \<and>
    map_of (kvMap t) = replay_ops (take (max o' (min c (n - 1))) (log_ops (oplog s)))"
proof -
  obtain k where k: "o' = Suc k" "k < n" "k < c"
    using o by (cases o') auto
  obtain e where e: "getLogEntry (of_nat o') (oplog s) = Some e" "le_committed e"
    using prefix_log_entry [OF l k(2)] k by auto
  have len: "length (log_ops (oplog s)) = n"
    using prefix_log_size [OF l] by simp
  have suc: "of_nat o' + 1 = (of_nat (Suc o') :: u64)"
    by (simp add: add.commute)
  obtain u where u: "apply_committed_loop (of_nat o' + 1) s = Return () u" "rstate u = rstate s"
    "oplog u = oplog s" "um_wf (kvMap u)"
    "map_of (kvMap u) = replay_ops (take (max o' (min c (n - 1))) (log_ops (oplog s)))"
  proof (cases "o' < n")
    case True
    then show ?thesis
      using apply_committed_loop_spec [OF l cb True] wf that by (auto simp: suc kv replay_ops_continue)
  next
    case False
    have "unat (of_nat (Suc o') :: u64) = Suc o'" "unat (of_nat n :: u64) = n"
      using n o by (intro unat_of_nat_u64; simp)+
    then have "\<not> (of_nat (Suc o') :: u64) < of_nat n"
      using False by (simp only: word_less_nat_alt)
    then have "apply_committed_loop (of_nat o' + 1) s = Return () s"
      unfolding suc by (subst apply_committed_loop.simps) (simp add: prefix_log_size(1) [OF l])
    moreover have "max o' (min c (n - 1)) = o'"
      using False by simp
    ultimately show ?thesis
      using that wf kv by simp
  qed
  then show ?thesis
    using e by (simp add: finish_view_def)
qed

text \<open>There is no operation 0, so a replica that has committed nothing cannot finish a view change.\<close>

section \<open>The choice of the new view's log\<close>

lemma candidate_loop_view:
  assumes "i = length pre" "idx < i" "vci_oldViewNum (pre ! idx) = hv" "\<forall>x \<in> set pre. vci_oldViewNum x \<le> hv"
  shows "candidate_loop xs i idx hv ho < length (pre @ xs) \<and>
    (\<forall>x \<in> set (pre @ xs). vci_oldViewNum x \<le> vci_oldViewNum ((pre @ xs) ! candidate_loop xs i idx hv ho))"
  using assms
proof (induction xs arbitrary: pre i idx hv ho)
  case Nil
  then show ?case by simp
next
  case (Cons x xs)
  have nth: "(pre @ [x]) ! i = x" "(pre @ [x]) ! idx = pre ! idx"
    using Cons.prems by (simp_all add: nth_append)
  note IH = Cons.IH [of "i + 1" "pre @ [x]", unfolded append_assoc append_Cons append_Nil]
  consider (same) "vci_oldViewNum x = hv" | (more) "hv < vci_oldViewNum x" | (less) "vci_oldViewNum x < hv"
    by (rule linorder_cases [of "vci_oldViewNum x" hv])
  then show ?case
  proof cases
    case same
    then show ?thesis
      using Cons.prems nth IH [of idx hv ho] IH [of i hv "vci_opNum x"] by simp
  next
    case more
    then have "\<forall>y \<in> set (pre @ [x]). vci_oldViewNum y \<le> vci_oldViewNum x"
      using Cons.prems(4) by (auto intro: order_trans less_imp_le)
    then show ?thesis
      using Cons.prems nth IH [of i "vci_oldViewNum x" ho] more less_imp_neq [OF more] by auto
  next
    case less
    then have "\<not> hv < vci_oldViewNum x" "vci_oldViewNum x \<noteq> hv" "vci_oldViewNum x \<le> hv"
      by auto
    then show ?thesis
      using Cons.prems nth IH [of idx hv ho] by simp
  qed
qed

lemma candidate_loop_op:
  assumes "i = length pre" "idx < i" "vci_opNum (pre ! idx) = ho" "\<forall>x \<in> set pre. vci_opNum x \<le> ho"
    and "\<forall>x \<in> set xs. vci_oldViewNum x = hv"
  shows "\<forall>x \<in> set (pre @ xs). vci_opNum x \<le> vci_opNum ((pre @ xs) ! candidate_loop xs i idx hv ho)"
  using assms
proof (induction xs arbitrary: pre i idx ho)
  case Nil
  then show ?case by simp
next
  case (Cons x xs)
  have nth: "(pre @ [x]) ! i = x" "(pre @ [x]) ! idx = pre ! idx"
    using Cons.prems by (simp_all add: nth_append)
  note IH = Cons.IH [of "i + 1" "pre @ [x]", unfolded append_assoc append_Cons append_Nil]
  show ?case
  proof (cases "ho < vci_opNum x")
    case True
    then have "\<forall>y \<in> set (pre @ [x]). vci_opNum y \<le> vci_opNum x"
      using Cons.prems(4) by (auto intro: order_trans less_imp_le)
    then show ?thesis
      using Cons.prems nth IH [of i "vci_opNum x"] True by simp
  next
    case False
    then show ?thesis
      using Cons.prems nth IH [of idx ho] by simp
  qed
qed

lemma candidateIdx_view:
  assumes "infos \<noteq> []"
  shows "candidateIdx infos < length infos \<and>
    (\<forall>x \<in> set infos. vci_oldViewNum x \<le> vci_oldViewNum (infos ! candidateIdx infos))"
  using assms candidate_loop_view [of 1 "[hd infos]" 0 "vci_oldViewNum (hd infos)" "tl infos"]
  by (cases infos) (simp_all add: candidateIdx_def)

lemma candidateIdx_op:
  assumes "infos \<noteq> []" "\<forall>x \<in> set infos. vci_oldViewNum x = v"
  shows "\<forall>x \<in> set infos. vci_opNum x \<le> vci_opNum (infos ! candidateIdx infos)"
  using assms candidate_loop_op [of 1 "[hd infos]" 0 "vci_opNum (hd infos)" "tl infos" v]
  by (cases infos) (simp_all add: candidateIdx_def)

section \<open>The search for the new primary\<close>

text \<open>Ids 0 to \<open>n\<close>, of which the own one is missing in the map.\<close>

definition full_config :: "nat \<Rightarrow> 'a base_scheme \<Rightarrow> bool" where
  "full_config n s \<longleftrightarrow> length (replicas s) = n \<and> Suc n < 2 ^ 64 \<and> unat (selfId s) \<le> n \<and>
     (\<forall>i. unat i \<le> n \<and> i \<noteq> selfId s \<longrightarrow> map_of (replicas s) i \<noteq> None)"

text \<open>How many steps of \<open>getNextPrimaryCandidate\<close> lead from a candidate to the own id.\<close>

definition steps_to_self :: "nat \<Rightarrow> ReplicaId \<Rightarrow> ReplicaId \<Rightarrow> nat" where
  "steps_to_self n self i =
     (if unat i \<le> unat self then unat self - unat i else unat self + Suc n - unat i)"

lemma next_candidate:
  assumes "full_config n s" "unat i \<le> n" "i \<noteq> selfId s"
  shows "unat (getNextPrimaryCandidate i s) \<le> n"
    "Suc (steps_to_self n (selfId s) (getNextPrimaryCandidate i s)) = steps_to_self n (selfId s) i"
proof -
  have "unat (- 1 :: u64) = 2 ^ 64 - 1"
    by (simp add: unsigned_minus_1_eq_mask mask_eq_exp_minus_1)
  then have "i \<noteq> - 1"
    using assms(1,2) by (auto simp: full_config_def)
  then have u: "unat (i + 1) = Suc (unat i)"
    by (rule unat_plus1)
  have ne: "unat i \<noteq> unat (selfId s)"
    using assms(3) by (simp add: word_unat_eq_iff)
  show "unat (getNextPrimaryCandidate i s) \<le> n"
    using assms(1) by (simp add: getNextPrimaryCandidate_def Let_def full_config_def)
  show "Suc (steps_to_self n (selfId s) (getNextPrimaryCandidate i s)) = steps_to_self n (selfId s) i"
    using assms u ne by (auto simp: getNextPrimaryCandidate_def Let_def full_config_def steps_to_self_def)
qed

lemma invokeDoViewChange_frame:
  assumes "invokeDoViewChange nw info ep s = (ok, t)"
  shows "selfId t = selfId s" "replicas t = replicas s" "rstate t = rstate s" "oplog t = oplog s"
    "kvMap t = kvMap s"
  using assms by (auto simp: invokeDoViewChange_def split: prod.splits)

lemma pick_primary_returns:
  assumes "full_config n s" "unat i \<le> n" "steps_to_self n (selfId s) i < fuel"
  shows "\<exists>j t. pick_primary nw info fuel cnt i s = Some (j, t) \<and> unat j \<le> n \<and>
    selfId t = selfId s \<and> replicas t = replicas s \<and> rstate t = rstate s \<and> oplog t = oplog s"
  using assms
proof (induction fuel arbitrary: cnt i s)
  case (Suc fuel)
  show ?case
  proof (cases "i = selfId s")
    case True
    then show ?thesis
      using Suc.prems by simp
  next
    case False
    then obtain ep where ep: "map_of (replicas s) i = Some ep"
      using Suc.prems(1,2) by (auto simp: full_config_def)
    obtain ok t where t: "invokeDoViewChange nw info ep s = (ok, t)"
      by fastforce
    note f = invokeDoViewChange_frame [OF t]
    have cfg: "full_config n t"
      using Suc.prems(1) by (simp add: full_config_def f)
    note nx = next_candidate [OF cfg Suc.prems(2)]
    show ?thesis
      using Suc.IH [OF cfg, of "getNextPrimaryCandidate i t" "cnt + 1"] Suc.prems False nx f
      by (auto simp: replicas_at_def ep t)
  qed
qed simp

lemma steps_to_self_bound: "unat self \<le> n \<Longrightarrow> unat i \<le> n \<Longrightarrow> steps_to_self n self i \<le> n"
  by (auto simp: steps_to_self_def)

section \<open>A view change before the first commit\<close>

text \<open>A replica that has committed nothing, and whose log and filed messages have no entry under the number 0 (operations
  are numbered from 1).\<close>

definition uncommitted :: "'a vch_scheme \<Rightarrow> bool" where
  "uncommitted s \<longleftrightarrow> commitNum s = 0 \<and> log_inv (oplog s) \<and> 0 \<notin> set (opNums (oplog s)) \<and>
     (\<forall>v. \<forall>x \<in> set (viewChangeInfos v s). 0 \<notin> le_opNum ` set (vci_opLog x)) \<and>
     (\<forall>v x. map_of (viewStartInfoMap s) v = Some x \<longrightarrow> 0 \<notin> le_opNum ` set (vsi_opLog x))"

definition vc_state :: "'a vch_scheme \<Rightarrow> CommitInt \<times> InMemOpLog \<times> (ViewInt, ViewChangeInfo list) umap \<times> (ViewInt, ViewStartInfo) umap" where
  "vc_state s = (commitNum s, oplog s, viewChangeInfoMap s, viewStartInfoMap s)"

lemma uncommitted_cong: "vc_state t = vc_state s \<Longrightarrow> uncommitted t = uncommitted s"
  by (simp add: vc_state_def uncommitted_def viewChangeInfos_def)

lemma finish_view_no_entry: "getLogEntry old (oplog s) = None \<Longrightarrow> finish_view now old s = Abort"
  by (simp add: finish_view_def)

lemma updateNewView_uncommitted:
  assumes "uncommitted s"
  shows "updateNewView nw now v asPrimary s = Abort"
proof (cases asPrimary)
  case True
  show ?thesis
  proof (cases "adopt_candidate v s")
    case (Return info t)
    let ?xs = "viewChangeInfos v s"
    let ?x = "?xs ! candidateIdx ?xs"
    have "?xs \<noteq> []"
      using Return by (auto simp: adopt_candidate_def outcome_simps Let_def getMajorityCnt_def)
    then have "?x \<in> set ?xs"
      using candidateIdx_view by (intro nth_mem) blast
    then have "0 \<notin> le_opNum ` set (vci_opLog ?x)"
      using assms by (simp add: uncommitted_def)
    moreover have "oplog t = snd (getLog (setLog (vci_opLog ?x) (oplog s)))"
      using Return by (auto simp: adopt_candidate_def outcome_simps Let_def split_beta)
    ultimately have "getLogEntry 0 (oplog t) = None"
      by (simp add: mem.contents_pure mem.entry_install_None)
    then show ?thesis
      using Return True assms by (simp add: updateNewView_def finish_view_no_entry uncommitted_def)
  next
    case (Raise e t)
    then show ?thesis
      by (simp add: adopt_candidate_def Let_def assert_res_def split: if_splits prod.splits)
  qed (simp add: updateNewView_def True)
next
  case False
  show ?thesis
  proof (cases "adopt_view v s")
    case (Return r t)
    then obtain info where "map_of (viewStartInfoMap s) v = Some info" "oplog t = setLog (vsi_opLog info) (oplog s)"
      by (auto simp: adopt_view_def outcome_simps Let_def split: option.splits)
    then have "getLogEntry 0 (oplog t) = None"
      using assms by (auto simp: uncommitted_def mem.entry_install_None)
    then show ?thesis
      using Return False assms by (simp add: updateNewView_def finish_view_no_entry uncommitted_def)
  next
    case (Raise e t)
    then show ?thesis
      by (simp add: adopt_view_def Let_def assert_res_def split: if_splits option.splits)
  qed (simp add: updateNewView_def False)
qed

lemma vc_state_broadcast:
  assumes "\<And>ep t. vc_state (f ep t) = vc_state t \<and> rstate (f ep t) = rstate t"
  shows "vc_state (invokeForAllReplicas i f s) = vc_state s \<and> rstate (invokeForAllReplicas i f s) = rstate s"
  by (rule broadcast_rel [of "\<lambda>s t. vc_state t = vc_state s \<and> rstate t = rstate s"]) (use assms in auto)

lemma vc_state_calls [simp]:
  "vc_state (snd (invokeDoViewChange nw info ep s)) = vc_state s" "rstate (snd (invokeDoViewChange nw info ep s)) = rstate s"
  "vc_state (snd (replicas_at i s)) = vc_state s" "rstate (snd (replicas_at i s)) = rstate s"
  by (simp_all add: vc_state_def invokeDoViewChange_def replicas_at_def split_beta split: option.split)

lemma vc_state_pick_primary:
  "pick_primary nw info fuel cnt i s = Some (j, t) \<Longrightarrow> vc_state t = vc_state s \<and> rstate t = rstate s"
proof (induction fuel arbitrary: cnt i s)
  case (Suc fuel)
  let ?u = "snd (invokeDoViewChange nw info (fst (replicas_at i s)) (snd (replicas_at i s)))"
  consider "t = s" | "t = ?u" | "pick_primary nw info fuel (cnt + 1) (getNextPrimaryCandidate i ?u) ?u = Some (j, t)"
    using Suc.prems by (auto simp: split_beta Let_def split: if_splits)
  then show ?case
    using Suc.IH by cases (auto dest: Suc.IH)
qed simp

text \<open>What the waits of a view change have to keep: that nothing is committed, and the status.\<close>

definition keeps_uncommitted :: "('a vch_scheme \<Rightarrow> cv_status \<times> 'a vch_scheme) \<Rightarrow> bool" where
  "keeps_uncommitted w \<longleftrightarrow> (\<forall>s. uncommitted s \<longrightarrow> uncommitted (snd (w s)) \<and> status (snd (w s)) = status s)"

lemma waits_uncommitted:
  assumes s: "uncommitted s" "status s = VIEW_CHANGE" and w: "keeps_uncommitted (vce_wait_done env)"
  shows "wait_as_primary env v s = Abort \<or> (\<exists>t. wait_as_primary env v s = Return () t \<and> uncommitted t \<and> status t = VIEW_CHANGE)"
    and "wait_as_backup env v s = Abort \<or> (\<exists>t. wait_as_backup env v s = Return () t \<and> uncommitted t \<and> status t = VIEW_CHANGE)"
proof -
  have k: "uncommitted (snd (vce_wait_done env x))" "status (snd (vce_wait_done env x)) = status x" if "uncommitted x" for x
    using w that by (simp_all add: keeps_uncommitted_def)
  show "wait_as_primary env v s = Abort \<or> (\<exists>t. wait_as_primary env v s = Return () t \<and> uncommitted t \<and> status t = VIEW_CHANGE)"
    using k [OF s(1)] s by (auto simp: wait_as_primary_def split_beta assert_res_def updateNewView_uncommitted)
  let ?x = "s\<lparr>startViewMap := snd (WaitMap_get v (startViewMap s))\<rparr>"
  have x: "uncommitted ?x"
    using s(1) uncommitted_cong [of ?x s] by (simp add: vc_state_def)
  show "wait_as_backup env v s = Abort \<or> (\<exists>t. wait_as_backup env v s = Return () t \<and> uncommitted t \<and> status t = VIEW_CHANGE)"
    using k [OF x] x s(2) by (auto simp: wait_as_backup_def split_beta Let_def assert_res_def updateNewView_uncommitted)
qed

lemma changeView_quorum_uncommitted:
  assumes s: "uncommitted s" "status s = VIEW_CHANGE" and w: "keeps_uncommitted (vce_wait_done env)"
  shows "changeView_quorum env old v s = Abort \<or>
    (\<exists>t. changeView_quorum env old v s = Return () t \<and> uncommitted t \<and> status t = VIEW_CHANGE)"
proof -
  let ?info = "\<lparr>vci_viewNum = v, vci_opLog = fst (getLog (oplog s)), vci_oldViewNum = old,
    vci_opNum = commitNum s, vci_commitNum = commitNum s, vci_replicaId = selfId s\<rparr>"
  define x where "x = s\<lparr>viewChangeInfoMap := um_put v (viewChangeInfos v s @ [?info]) (viewChangeInfoMap s),
    doViewChangeMap := WaitMap_incr v (doViewChangeMap s)\<rparr>"
  have "le_opNum ` set (fst (getLog (oplog s))) = set (opNums (oplog s))"
    using log_numbers [of "oplog s"] s(1) unfolding uncommitted_def by (metis list.set_map)
  then have x: "uncommitted x" "status x = VIEW_CHANGE"
    using s by (auto simp: x_def uncommitted_def viewChangeInfos_def split: if_splits option.splits)
  have pure: "s\<lparr>oplog := snd (getLog (oplog s))\<rparr> = s"
    using s(1) by (simp add: uncommitted_def mem.contents_pure)
  have q: "changeView_quorum env old v s =
      (case pick_primary (vce_net env) ?info (length (replicas x) + 2) 0 (getNextPrimaryCandidate (priId x) x) x of
         None \<Rightarrow> Abort
       | Some (j, y) \<Rightarrow> if j = selfId y then wait_as_primary env v (set_priId j y) else wait_as_backup env v (set_priId j y))"
    by (simp add: changeView_quorum_def split_beta pure x_def viewChangeInfos_def Let_def del: pick_primary.simps cong: option.case_cong)
      (simp del: pick_primary.simps split: option.split)
  show ?thesis
  proof (cases "pick_primary (vce_net env) ?info (length (replicas x) + 2) 0 (getNextPrimaryCandidate (priId x) x) x")
    case (Some jy)
    obtain j y where jy: "jy = (j, y)"
      by fastforce
    have "vc_state y = vc_state x" "rstate y = rstate x"
      using vc_state_pick_primary [OF Some [unfolded jy]] by simp_all
    then have "uncommitted (set_priId j y)" "status (set_priId j y) = VIEW_CHANGE"
      using x uncommitted_cong [of "set_priId j y" x] by (simp_all add: vc_state_def)
    from waits_uncommitted [OF this w] show ?thesis
      unfolding q Some jy option.case prod.case by (cases "j = selfId y") (simp_all only: if_True if_False refl)
  qed (simp add: q del: pick_primary.simps)
qed

lemma changeView_uncommitted:
  assumes s: "uncommitted s" and w: "keeps_uncommitted (vce_wait_start env)" "keeps_uncommitted (vce_wait_done env)"
  shows "changeView env s = Abort \<or> (\<exists>t. changeView env s = Return () t \<and> uncommitted t \<and> status t = VIEW_CHANGE)"
proof -
  let ?s = "s\<lparr>rstate := snd (ReplicaState_incrementViewNum (rstate (set_status VIEW_CHANGE s)))\<rparr>"
  let ?v = "fst (ReplicaState_incrementViewNum (rstate (set_status VIEW_CHANGE s)))"
  let ?x = "invokeForAllReplicas (selfId s) (invokeStartViewChange (vce_net env) \<lparr>vcr_viewNum = ?v, vcr_replicaId = selfId s\<rparr>) ?s"
  let ?y = "?x\<lparr>viewStartReqMap := WaitMap_incr ?v (viewStartReqMap ?x)\<rparr>"
  have "vc_state (invokeStartViewChange nw q ep t) = vc_state t \<and> rstate (invokeStartViewChange nw q ep t) = rstate t" for nw q ep t
    by (simp add: vc_state_def invokeStartViewChange_def split_beta)
  then have x: "vc_state ?x = vc_state ?s" "rstate ?x = rstate ?s"
    using vc_state_broadcast by blast+
  have us: "uncommitted ?s" "status ?s = VIEW_CHANGE"
    using s uncommitted_cong [of ?s s] by (simp_all add: vc_state_def ReplicaState_incrementViewNum_def)
  then have y: "uncommitted ?y" "status ?y = VIEW_CHANGE"
    using x uncommitted_cong [of ?y ?s] by (simp_all add: vc_state_def)
  show ?thesis
  proof (cases "map_of (viewStartInfoMap s) ?v")
    case (Some i)
    then have "changeView env s = updateNewView (vce_net env) (vce_now env) ?v False ?s"
      by (simp add: changeView_def Let_def split_beta)
    then show ?thesis
      using updateNewView_uncommitted [OF us(1)] by simp
  next
    case None
    then have c: "changeView env s =
      (if quorumReached (WaitMap_cnt ?v (viewStartReqMap ?y)) ?y then changeView_quorum env (viewNum s) ?v ?y
       else if fst (vce_wait_start env ?y) = timeout then Return () (snd (vce_wait_start env ?y))
       else changeView_quorum env (viewNum s) ?v (snd (vce_wait_start env ?y)))"
      by (simp add: changeView_def Let_def split_beta)
    have "uncommitted (snd (vce_wait_start env ?y))" "status (snd (vce_wait_start env ?y)) = VIEW_CHANGE"
      using w(1) y by (simp_all add: keeps_uncommitted_def)
    then show ?thesis
      unfolding c using changeView_quorum_uncommitted [OF _ _ w(2)] y by auto
  qed
qed

section \<open>Properties\<close>


definition ex_log :: InMemOpLog where
  "ex_log = the (commit 1 (appendUpdate \<lparr>kvp_key = ''/b'', kvp_val = ''2''\<rparr> 2
     (appendUpdate \<lparr>kvp_key = ''/a'', kvp_val = ''1''\<rparr> 1 InMemOpLog_new)))"

definition ex_source :: replica where
  "ex_source = (replica_new 0 [(1, EndPoint_default), (2, EndPoint_default)] 0 False)
     \<lparr>kvMap := [(''/a'', ''1'')], replicatorRegistered := True, oplog := ex_log,
      rstate := \<lparr>rs_priId = 0, rs_status = NORMAL, rs_viewNum = 3, rs_opNum = 2, rs_commitNum = 1,
                 rs_lastCommitTime = 0\<rparr>\<rparr>"

definition ex_fresh :: replica where
  "ex_fresh = (replica_new 1 [(0, EndPoint_default), (2, EndPoint_default)] 0 False)
     \<lparr>replicatorRegistered := True\<rparr>"

lemma ex_log_eq:
  "ex_log = \<lparr>opLogMap = [(1, \<lparr>le_kvPair = \<lparr>kvp_key = ''/a'', kvp_val = ''1''\<rparr>, le_opType = UPDATE,
      le_opNum = 1, le_committed = True\<rparr>), (2, \<lparr>le_kvPair = \<lparr>kvp_key = ''/b'', kvp_val = ''2''\<rparr>,
      le_opType = UPDATE, le_opNum = 2, le_committed = False\<rparr>)], opNums = [1, 2]\<rparr>"
  by code_simp

lemma ex_source_regular: "regular ex_source"
proof -
  have "log_inv ex_log"
    by (auto simp: ex_log_eq log_inv_def)
  moreover have "log_ops ex_log = [(\<lparr>kvp_key = ''/a'', kvp_val = ''1''\<rparr>, UPDATE), (\<lparr>kvp_key = ''/b'', kvp_val = ''2''\<rparr>, UPDATE)]"
    by code_simp
  moreover have "opNums ex_log = map of_nat [1..<Suc (unat (2 :: u64))]"
    by code_simp
  moreover have "\<not> (2 :: u64) \<le> 1"
    by code_simp
  moreover have "getLogEntry i ex_log = Some e \<Longrightarrow> i = 1 \<and> le_committed e \<or> i = 2 \<and> \<not> le_committed e" for i e
    by (auto simp: ex_log_eq getLogEntry_def split: if_splits)
  ultimately show ?thesis
    by (fastforce simp: regular_def ex_source_def replay_ops_def)
qed

text \<open>The answer of the other backup arrives first.\<close>

definition ex_answers :: "RecoveryResponse list" where
  "ex_answers = [\<lparr>rrs_viewNum = 3, rrs_nonce = 9, rrs_replicaId = 2, rrs_isPrimary = False, rrs_opLog = [], rrs_opNum = 0,
     rrs_commitNum = 0\<rparr>, primary_response 9 ex_source]"


text \<open>C16. Among the logs it has collected, the new primary picks one of the latest old view; when all
  come from the same view, it picks one with the highest operation number.\<close>

theorem candidate_is_latest:
  assumes "infos \<noteq> []"
  shows "candidateIdx infos < length infos \<and>
    (\<forall>x \<in> set infos. vci_oldViewNum x \<le> vci_oldViewNum (infos ! candidateIdx infos)) \<and>
    ((\<exists>v. \<forall>x \<in> set infos. vci_oldViewNum x = v) \<longrightarrow>
      (\<forall>x \<in> set infos. vci_opNum x \<le> vci_opNum (infos ! candidateIdx infos)))"
  using candidateIdx_view [OF assms] candidateIdx_op [OF assms] by blast

definition ex_info :: "ViewInt \<Rightarrow> OpInt \<Rightarrow> ViewChangeInfo" where
  "ex_info v n = \<lparr>vci_viewNum = 9, vci_opLog = [], vci_oldViewNum = v, vci_opNum = n, vci_commitNum = n,
     vci_replicaId = 0\<rparr>"

theorem candidate_is_latest_witness:
  "vci_opNum ([ex_info 1 4, ex_info 1 6, ex_info 1 5] ! candidateIdx [ex_info 1 4, ex_info 1 6, ex_info 1 5]) \<ge> 6"
  using candidate_is_latest [of "[ex_info 1 4, ex_info 1 6, ex_info 1 5]"] by (simp add: ex_info_def)

text \<open>When the old views differ the choice is not the log with most operations of the latest view: a
  log of an earlier view with many operations in front makes the loop take the first log of the later
  view and pass over a longer one of the same view.\<close>

theorem candidate_misses_longer_log:
  assumes "vci_oldViewNum a < vci_oldViewNum b" "vci_oldViewNum c = vci_oldViewNum b"
    and "vci_opNum b < vci_opNum c" "vci_opNum c \<le> vci_opNum a"
  shows "candidateIdx [a, b, c] = 1"
  using assms by (auto simp: candidateIdx_def)

theorem candidate_misses_longer_log_witness:
  "candidateIdx [ex_info 1 10, ex_info 2 3, ex_info 2 5] = 1 \<and>
   vci_opNum (ex_info 2 3) < vci_opNum (ex_info 2 5)"
  using candidate_misses_longer_log [of "ex_info 1 10" "ex_info 2 3" "ex_info 2 5"] by (simp add: ex_info_def)

text \<open>C19. The search for the new primary always ends: with the ids 0 to \<open>n\<close> configured, the fuel the
  model gives the loop is enough for every network, and the result is one of these ids.\<close>

theorem primary_search_ends:
  assumes "full_config n s" "unat i \<le> n"
  shows "\<exists>j t. pick_primary nw info (length (replicas s) + 2) 0 i s = Some (j, t) \<and> unat j \<le> n \<and>
    selfId t = selfId s \<and> replicas t = replicas s \<and> rstate t = rstate s \<and> oplog t = oplog s"
proof (rule pick_primary_returns [OF assms])
  have "unat (selfId s) \<le> n" "length (replicas s) = n"
    using assms(1) by (simp_all add: full_config_def)
  then show "steps_to_self n (selfId s) i < length (replicas s) + 2"
    using steps_to_self_bound [OF _ assms(2), of "selfId s"] by simp
qed

theorem primary_search_ends_witness:
  "\<exists>j t. pick_primary (\<lambda>_ _ _. (False, CallFailed)) (ex_info 0 1)
     (length (replicas ex_source) + 2) 0 1 ex_source = Some (j, t) \<and> unat j \<le> 2"
proof -
  have len: "length (replicas ex_source) = 2" and self: "selfId ex_source = 0"
    by (simp_all add: ex_source_def replica_new_def)
  have "map_of (replicas ex_source) i \<noteq> None" if "unat i \<le> 2" "i \<noteq> 0" for i :: u64
  proof -
    have "unat i \<noteq> 0"
      using that(2) by (simp add: unsigned_eq_0_iff)
    then have "unat i = 1 \<or> unat i = 2"
      using that(1) by linarith
    then have "unat i = unat (1 :: u64) \<or> unat i = unat (2 :: u64)"
      by simp
    then have "i = 1 \<or> i = 2"
      by (simp only: word_unat_eq_iff)
    then show ?thesis
      by (auto simp: ex_source_def replica_new_def)
  qed
  then have "full_config 2 ex_source" "unat (1 :: u64) \<le> 2"
    using len self by (simp_all add: full_config_def)
  from primary_search_ends [OF this] show ?thesis
    by blast
qed

text \<open>C17. What a view change applies: a replica that had applied \<open>o\<close> operations and installs a log of
  \<open>n\<close> operations of which \<open>c\<close> are committed returns to normal status with the first
  \<open>max o (min c (n - 1))\<close> operations applied. So when the log ends with a committed operation, the
  last one is left out, although the commit number counts it.\<close>

theorem view_change_applies:
  assumes "prefix_log n c (oplog s)" "replicatorRegistered s" "um_wf (kvMap s)"
    and "0 < o'" "o' \<le> c" "c \<le> n" "Suc n < 2 ^ 64"
    and "map_of (kvMap s) = replay_ops (take o' (log_ops (oplog s)))"
  shows "\<exists>t. finish_view now (of_nat o') s = Return () t \<and> status t = NORMAL \<and> oplog t = oplog s \<and>
    commitNum t = commitNum s \<and>
    map_of (kvMap t) = replay_ops (take (max o' (min c (n - 1))) (log_ops (oplog s)))"
  using finish_view_spec [OF assms] by blast

definition ex_behind :: replica where
  "ex_behind = ex_source\<lparr>oplog := the (commit 2 ex_log)\<rparr>"

theorem view_change_applies_witness:
  "\<exists>t. finish_view 0 1 ex_behind = Return () t \<and> map_of (kvMap t) = [''/a'' \<mapsto> ''1''] \<and>
     log_ops (oplog t) = [(\<lparr>kvp_key = ''/a'', kvp_val = ''1''\<rparr>, UPDATE), (\<lparr>kvp_key = ''/b'', kvp_val = ''2''\<rparr>, UPDATE)]"
proof -
  define l where "l = the (commit 2 ex_log)"
  have l: "l = \<lparr>opLogMap = [(1, \<lparr>le_kvPair = \<lparr>kvp_key = ''/a'', kvp_val = ''1''\<rparr>, le_opType = UPDATE,
      le_opNum = 1, le_committed = True\<rparr>), (2, \<lparr>le_kvPair = \<lparr>kvp_key = ''/b'', kvp_val = ''2''\<rparr>,
      le_opType = UPDATE, le_opNum = 2, le_committed = True\<rparr>)], opNums = [1, 2]\<rparr>"
    unfolding l_def by code_simp
  have "opNums l = map of_nat [1..<Suc 2]" "log_inv l"
    by (simp_all add: l log_inv_def upt_rec)
  moreover have "getLogEntry i l = Some e \<Longrightarrow> le_committed e \<and> unat i \<le> 2" for i e
    by (auto simp: l getLogEntry_def split: if_splits)
  ultimately have p: "prefix_log 2 2 l"
    by (auto simp: prefix_log_def)
  have ops: "log_ops l = [(\<lparr>kvp_key = ''/a'', kvp_val = ''1''\<rparr>, UPDATE), (\<lparr>kvp_key = ''/b'', kvp_val = ''2''\<rparr>, UPDATE)]"
    unfolding l by code_simp
  have s: "oplog ex_behind = l" "kvMap ex_behind = [(''/a'', ''1'')]" "replicatorRegistered ex_behind"
    by (simp_all add: ex_behind_def ex_source_def l_def)
  show ?thesis
    using view_change_applies [of 2 2 ex_behind 1 0] p ops s
    by (auto simp: replay_ops_def fun_eq_iff)
qed

text \<open>C18. A view change before the first commit cannot succeed. On a replica that has committed nothing, and whose log
  and filed messages have no entry under the number 0 (operations are numbered from 1), installing the new view fails
  an assertion in both roles, as new primary and as backup: \<open>updateNewView\<close> asserts that the entry of the old commit
  number, 0, is committed, and there is none. So \<open>changeView\<close>, as long as its waits bring no commit and no such entry, ends
  the process, or gives up on a timeout with nothing installed.\<close>

theorem view_change_needs_a_commit:
  assumes "uncommitted s"
  shows "updateNewView nw now v asPrimary s = Abort \<and>
    (keeps_uncommitted (vce_wait_start env) \<and> keeps_uncommitted (vce_wait_done env) \<longrightarrow>
      changeView env s = Abort \<or>
      (\<exists>t. changeView env s = Return () t \<and> status t = VIEW_CHANGE \<and> commitNum t = 0))"
  using updateNewView_uncommitted [OF assms] changeView_uncommitted [OF assms] by (metis uncommitted_def)

lemma keeps_uncommitted_wait: "keeps_uncommitted (\<lambda>s. (st, s))"
  by (simp add: keeps_uncommitted_def)

lemma keeps_uncommitted_doViewChange:
  "0 \<notin> le_opNum ` set (vci_opLog i) \<Longrightarrow> keeps_uncommitted (\<lambda>s. (st, processDoViewChange i s))"
  by (auto simp: keeps_uncommitted_def uncommitted_def processDoViewChange_def viewChangeInfos_def split: if_splits option.splits)

definition ex_new_primary :: "replica vc_env" where
  "ex_new_primary = \<lparr>vce_net = (\<lambda>_ _ _. (True, CallOk)), vce_now = 0, vce_wait_start = (\<lambda>s. (no_timeout, s)),
     vce_wait_done = (\<lambda>s. (no_timeout, processDoViewChange ((ex_info 0 0)\<lparr>vci_viewNum := 1\<rparr>) s))\<rparr>"

theorem view_change_needs_a_commit_witness:
  "updateNewView (\<lambda>_ _ _. (True, CallOk)) 0 1 False ex_fresh = Abort \<and>
   (changeView ex_new_primary ex_fresh = Abort \<or>
     (\<exists>t. changeView ex_new_primary ex_fresh = Return () t \<and> status t = VIEW_CHANGE \<and> commitNum t = 0))"
proof -
  have "uncommitted ex_fresh"
    by (simp add: uncommitted_def ex_fresh_def replica_new_def ReplicaState_new_def viewChangeInfos_def)
      (simp add: InMemOpLog_new_def)
  moreover have "keeps_uncommitted (vce_wait_start ex_new_primary)" "keeps_uncommitted (vce_wait_done ex_new_primary)"
    by (simp_all add: ex_new_primary_def ex_info_def keeps_uncommitted_wait keeps_uncommitted_doViewChange)
  ultimately show ?thesis
    using view_change_needs_a_commit [of ex_fresh "\<lambda>_ _ _. (True, CallOk)" 0 1 False ex_new_primary] by blast
qed

end
