(* ===== verification/Config.thy ===== *)
theory Config
  imports Replicator
begin

text \<open>
  Start-up (\<open>server/configurator.cc\<close>, \<open>libClient/endPoint.cc\<close>): the configuration file, end
  points in text form, and \<open>bootStrap\<close>, which gives the replica its id and the addresses of the
  others, creates the replicator, registers it with the store and starts it.
\<close>

section \<open>End points as text\<close>

definition EndPoint_parse :: "string \<Rightarrow> exn + EndPoint" where
  "EndPoint_parse endpoint =
     (case str_find_char endpoint CHR '':'' 0 of
        None \<Rightarrow> Inl (InvalidArgument endpoint)
      | Some pos \<Rightarrow> Inr \<lparr>ep_ip = str_substr endpoint 0 pos,
                         ep_port = str_substr endpoint (pos + 1) (length endpoint - pos - 1)\<rparr>)"

section \<open>The configuration file\<close>

definition trim :: "string \<Rightarrow> string" where
  "trim line =
     (let line = (case str_find_first_not_of line CHR '' '' of
                    None \<Rightarrow> line | Some pos \<Rightarrow> str_erase line 0 pos)
      in case str_find_last_not_of line CHR '' '' of
           None \<Rightarrow> line
         | Some pos \<Rightarrow> str_erase line (pos + 1) (length line - pos - 1))"

function split_loop :: "string \<Rightarrow> char \<Rightarrow> nat \<Rightarrow> nat \<Rightarrow> string list \<Rightarrow> string list" where
  "split_loop line delim i pos res =
     (if i < length line then
        if line ! i = delim \<and> pos < i
        then split_loop line delim (i + 1) (i + 1) (res @ [trim (str_substr line pos (i - pos))])
        else split_loop line delim (i + 1) pos res
      else res @ [trim (str_substr line pos (length line - pos))])"
  by pat_completeness auto
termination
  by (relation "measure (\<lambda>(line, delim, i, pos, res). length line - i)") auto

declare split_loop.simps [simp del]

definition split_line :: "string \<Rightarrow> char \<Rightarrow> string list" where
  "split_line line delim = split_loop line delim 0 0 []"

record UserInput =
  ui_clientPort :: string
  ui_replicationPort :: string
  ui_endPoints :: "EndPoint list"
  ui_recovering :: bool

text \<open>The loop over the end points of a line; the ones before a malformed one stay.\<close>

fun endPoints_loop :: "string \<Rightarrow> string list \<Rightarrow> UserInput \<Rightarrow> (UserInput, unit) res" where
  "endPoints_loop line [] uip = Return () uip"
| "endPoints_loop line (x # xs) uip =
     (case split_line x CHR '':'' of
        [ip, port] \<Rightarrow> endPoints_loop line xs
          (uip\<lparr>ui_endPoints := ui_endPoints uip @ [\<lparr>ep_ip = ip, ep_port = port\<rparr>]\<rparr>)
      | _ \<Rightarrow> Raise (InvalidArgument line) uip)"

definition parseLine :: "string \<Rightarrow> UserInput \<Rightarrow> (UserInput, unit) res" where
  "parseLine line0 uip =
     (let line = trim line0
      in if line = [] then Return () uip
         else if str_find_char line CHR ''#'' 0 = Some 0 then Return () uip
         else case split_line line CHR ''='' of
             [key, val] \<Rightarrow>
               if key = ''ClientPort'' then Return () (uip\<lparr>ui_clientPort := val\<rparr>)
               else if key = ''ReplicationPort'' then Return () (uip\<lparr>ui_replicationPort := val\<rparr>)
               else if key = ''EndPoints'' then endPoints_loop line (split_line val CHR '','') uip
               else if key = ''Recovering'' then
                 Return () (if val = ''true'' then uip\<lparr>ui_recovering := True\<rparr> else uip)
               else Raise (InvalidArgument line) uip
           | _ \<Rightarrow> Raise (InvalidArgument line) uip)"

text \<open>
  \<open>getline\<close> while the stream is good: the pieces between line feeds, the one after the last line
  feed too. A file that cannot be opened has no lines.
\<close>

fun file_lines :: "string \<Rightarrow> string \<Rightarrow> string list" where
  "file_lines [] cur = [cur]"
| "file_lines (c # cs) cur = (if c = CHR 0x0A then cur # file_lines cs [] else file_lines cs (cur @ [c]))"

fun parse_lines :: "string list \<Rightarrow> UserInput \<Rightarrow> (UserInput, unit) res" where
  "parse_lines [] uip = Return () uip"
| "parse_lines (l # ls) uip = bind_res (parseLine l uip) (\<lambda>_ uip'. parse_lines ls uip')"

definition parse :: "string option \<Rightarrow> UserInput \<Rightarrow> (UserInput, unit) res" where
  "parse file uip =
     (case file of None \<Rightarrow> Return () uip | Some content \<Rightarrow> parse_lines (file_lines content []) uip)"

section \<open>Start-up\<close>

record Configurator =
  cf_replicaId :: ReplicaId
  cf_clientPort :: string
  cf_replicationPort :: string
  cf_replicas :: "(ReplicaId, EndPoint) umap"
  cf_replicator :: "replica option"

definition UINT_MAX :: u64 where
  "UINT_MAX = 4294967295"

definition Configurator_new :: Configurator where
  "Configurator_new = \<lparr>cf_replicaId = UINT_MAX, cf_clientPort = [], cf_replicationPort = [],
     cf_replicas = [], cf_replicator = None\<rparr>"

definition is_local :: "string \<Rightarrow> EndPoint \<Rightarrow> bool" where
  "is_local port ep \<longleftrightarrow> (ep_ip ep = ''localhost'' \<or> ep_ip ep = ''127.0.0.1'') \<and> ep_port ep = port"

fun assign_ids :: "string \<Rightarrow> nat \<Rightarrow> EndPoint list \<Rightarrow> ReplicaId \<times> (ReplicaId, EndPoint) umap \<Rightarrow>
  ReplicaId \<times> (ReplicaId, EndPoint) umap" where
  "assign_ids port i [] (self, reps) = (self, reps)"
| "assign_ids port i (ep # eps) (self, reps) =
     (if is_local port ep then assign_ids port (i + 1) eps (of_nat i, reps)
      else assign_ids port (i + 1) eps (self, um_put (of_nat i) ep reps))"

text \<open>The constructor calls at the end of \<open>bootStrap\<close>.\<close>

definition start_replica ::
  "ReplicaId \<Rightarrow> (ReplicaId, EndPoint) umap \<Rightarrow> time_point \<Rightarrow> bool \<Rightarrow> bool \<Rightarrow> (replica, unit) res" where
  "start_replica i reps now uninit recovering =
     bind_res (registerReplicator (replica_new i reps now uninit))
       (\<lambda>_ s. VsReplicator_start recovering s)"

text \<open>
  \<open>bootStrap\<close>. The fields \<open>recovering\<close> of \<open>UserInput\<close> and \<open>_receivedRespFromPri\<close> are not
  initialised, so their first values are inputs.
\<close>

definition bootStrap ::
  "string option \<Rightarrow> time_point \<Rightarrow> bool \<Rightarrow> bool \<Rightarrow> Configurator \<Rightarrow> (Configurator, unit) res" where
  "bootStrap file now uninit1 uninit2 c =
     (case parse file \<lparr>ui_clientPort = [], ui_replicationPort = [], ui_endPoints = [],
                       ui_recovering = uninit1\<rparr> of
        Abort \<Rightarrow> Abort
      | Raise e uip \<Rightarrow> Raise e c
      | Return _ uip \<Rightarrow>
          let (self, reps) = assign_ids (ui_replicationPort uip) 0 (ui_endPoints uip)
                               (cf_replicaId c, cf_replicas c);
              c = c\<lparr>cf_clientPort := ui_clientPort uip, cf_replicationPort := ui_replicationPort uip,
                    cf_replicaId := self, cf_replicas := reps\<rparr>
          in assert_res (cf_clientPort c \<noteq> []) (assert_res (cf_replicationPort c \<noteq> [])
               (assert_res (cf_replicaId c \<noteq> UINT_MAX) (assert_res (cf_replicator c = None)
                 (case start_replica self reps now uninit2 (ui_recovering uip) of
                    Abort \<Rightarrow> Abort
                  | Raise e s \<Rightarrow> Raise e c
                  | Return _ s \<Rightarrow> Return () (c\<lparr>cf_replicator := Some s\<rparr>))))))"

definition getReplicaId :: "Configurator \<Rightarrow> ReplicaId" where
  "getReplicaId c = cf_replicaId c"

definition getClientPort :: "Configurator \<Rightarrow> string" where
  "getClientPort c = cf_clientPort c"

definition getReplicationPort :: "Configurator \<Rightarrow> string" where
  "getReplicationPort c = cf_replicationPort c"

definition getReplicas :: "Configurator \<Rightarrow> (ReplicaId, EndPoint) umap" where
  "getReplicas c = cf_replicas c"

definition getReplicaEndPoint :: "ReplicaId \<Rightarrow> Configurator \<Rightarrow> (Configurator, EndPoint) res" where
  "getReplicaEndPoint i c =
     (case map_of (cf_replicas c) i of
        None \<Rightarrow> Raise (InvalidArgument ''Invalid replica Id'') c
      | Some ep \<Rightarrow> Return ep c)"

definition getReplicator :: "Configurator \<Rightarrow> (Configurator, replica) res" where
  "getReplicator c = (case cf_replicator c of None \<Rightarrow> Abort | Some s \<Rightarrow> Return s c)"

section \<open>Trimming and splitting\<close>

lemma find_map: "List.find P (map f xs) = map_option f (List.find (P \<circ> f) xs)"
  by (induction xs) auto

lemma str_find_first_not_of_Cons:
  "str_find_first_not_of (x # s) c =
     (if x \<noteq> c then Some 0 else map_option Suc (str_find_first_not_of s c))"
proof -
  have "[0..<length (x # s)] = 0 # map Suc [0..<length s]"
    by (simp add: upt_conv_Cons map_Suc_upt del: upt_Suc)
  then show ?thesis
    by (simp add: str_find_first_not_of_def find_map comp_def)
qed

lemma str_find_last_not_of_snoc:
  "str_find_last_not_of (s @ [x]) c = (if x \<noteq> c then Some (length s) else str_find_last_not_of s c)"
proof -
  have "List.find (\<lambda>i. (s @ [x]) ! i \<noteq> c) (rev [0..<length s]) = str_find_last_not_of s c"
    unfolding str_find_last_not_of_def by (rule find_cong) (auto simp: nth_append)
  then show ?thesis
    by (cases "x = c") (simp_all add: str_find_last_not_of_def [of "s @ [_]"])
qed

lemma erase_leading:
  "\<exists>y\<in>set s. y \<noteq> c \<Longrightarrow> \<exists>pos. str_find_first_not_of s c = Some pos \<and> drop pos s = dropWhile (\<lambda>x. x = c) s"
proof (induction s)
  case (Cons x s)
  then show ?case
    by (cases "x = c") (auto simp: str_find_first_not_of_Cons)
qed simp

lemma erase_trailing:
  "\<exists>y\<in>set s. y \<noteq> c \<Longrightarrow> \<exists>pos < length s. str_find_last_not_of s c = Some pos \<and>
     take (Suc pos) s = rev (dropWhile (\<lambda>x. x = c) (rev s))"
proof (induction s rule: rev_induct)
  case (snoc x s)
  then show ?case
    by (cases "x = c") (auto simp: str_find_last_not_of_snoc less_Suc_eq)
qed simp

text \<open>
  \<open>trim\<close> removes the blanks at both ends of a line that has something else on it. A line of blanks
  only is returned as it is.
\<close>

lemma trim_not_blank:
  assumes "\<exists>c\<in>set s. c \<noteq> CHR '' ''"
  shows "trim s = rev (dropWhile (\<lambda>c. c = CHR '' '') (rev (dropWhile (\<lambda>c. c = CHR '' '') s)))"
proof -
  let ?t = "dropWhile (\<lambda>c. c = CHR '' '') s"
  obtain pos where p: "str_find_first_not_of s CHR '' '' = Some pos" "drop pos s = ?t"
    using erase_leading [OF assms] by blast
  have "?t \<noteq> []"
    using assms by (auto simp: dropWhile_eq_Nil_conv)
  then have "\<exists>c\<in>set ?t. c \<noteq> CHR '' ''"
    using hd_dropWhile [of "\<lambda>c. c = CHR '' ''" s] by (intro bexI [of _ "hd ?t"]) simp_all
  then obtain q where "q < length ?t" "str_find_last_not_of ?t CHR '' '' = Some q"
    "take (Suc q) ?t = rev (dropWhile (\<lambda>x. x = CHR '' '') (rev ?t))"
    using erase_trailing by blast
  then show ?thesis
    using p by (simp add: trim_def str_erase_def Let_def)
qed

lemma trim_blank:
  assumes "set s \<subseteq> {CHR '' ''}"
  shows "trim s = s"
proof -
  have "s ! i = CHR '' ''" if "i < length s" for i
    using assms nth_mem [OF that] by blast
  then have "str_find_first_not_of s CHR '' '' = None" "str_find_last_not_of s CHR '' '' = None"
    unfolding str_find_first_not_of_def str_find_last_not_of_def by (auto intro!: find_none)
  then show ?thesis
    by (simp add: trim_def)
qed

text \<open>A reference for \<open>split\<close>: a delimiter ends a field only when the field has a character.\<close>

fun split_fields :: "char \<Rightarrow> string \<Rightarrow> string \<Rightarrow> string list" where
  "split_fields delim cur [] = [trim cur]"
| "split_fields delim cur (c # cs) =
     (if c = delim \<and> cur \<noteq> [] then trim cur # split_fields delim [] cs
      else split_fields delim (cur @ [c]) cs)"

lemma split_loop_fields:
  assumes "pos \<le> i" "i \<le> length line"
  shows "split_loop line delim i pos res =
    res @ split_fields delim (take (i - pos) (drop pos line)) (drop i line)"
  using assms
proof (induction line delim i pos res rule: split_loop.induct)
  case (1 line delim i pos res)
  show ?case
  proof (cases "i < length line")
    case True
    then have d: "drop i line = line ! i # drop (Suc i) line"
      by (rule Cons_nth_drop_Suc [symmetric])
    have ext: "take (Suc i - pos) (drop pos line) = take (i - pos) (drop pos line) @ [line ! i]"
      using True 1(3) by (simp add: take_Suc_conv_app_nth Suc_diff_le)
    show ?thesis
      using 1 True
      by (subst split_loop.simps) (auto simp: d ext str_substr_def)
  next
    case False
    then show ?thesis
      using 1(4) by (simp add: split_loop.simps [of line] str_substr_def)
  qed
qed

lemma split_line_fields: "split_line line delim = split_fields delim [] line"
  by (simp add: split_line_def split_loop_fields)

lemma split_fields_word:
  "\<lbrakk>delim \<notin> set w; cur @ w \<noteq> []\<rbrakk> \<Longrightarrow>
   split_fields delim cur (w @ delim # rest) = trim (cur @ w) # split_fields delim [] rest"
  "delim \<notin> set w \<Longrightarrow> split_fields delim cur w = [trim (cur @ w)]"
  by (induction w arbitrary: cur) auto

section \<open>Writing a configuration file\<close>

text \<open>
  Words without blanks, line feeds and the four characters with a meaning survive the trip through
  the file.
\<close>

definition cfg_word :: "string \<Rightarrow> bool" where
  "cfg_word w \<longleftrightarrow> w \<noteq> [] \<and> set w \<inter> set '' =,:#'' = {} \<and> CHR 0x0A \<notin> set w"

fun join_words :: "char \<Rightarrow> string list \<Rightarrow> string" where
  "join_words d [] = []"
| "join_words d [w] = w"
| "join_words d (w # ws) = w @ d # join_words d ws"

text \<open>
  A line of a file, with the number of blanks before and after it: a comment, an empty line, or one of the four settings.
  A line of blanks only is no such line (it is refused). What a line sets: the last value of a port counts, the end
  points of several lines add up, and only the value \<open>true\<close> changes \<open>recovering\<close>.
\<close>

datatype cfg_line =
    CommentLine string
  | EmptyLine
  | ClientPortLine string
  | ReplicationPortLine string
  | EndPointsLine "EndPoint list"
  | RecoveringLine string

fun line_text :: "cfg_line \<Rightarrow> string" where
  "line_text (CommentLine t) = ''#'' @ t"
| "line_text EmptyLine = []"
| "line_text (ClientPortLine w) = ''ClientPort'' @ '' = '' @ w"
| "line_text (ReplicationPortLine w) = ''ReplicationPort'' @ '' = '' @ w"
| "line_text (EndPointsLine eps) = ''EndPoints'' @ '' = '' @ join_words CHR '','' (map EndPoint_string eps)"
| "line_text (RecoveringLine w) = ''Recovering'' @ '' = '' @ w"

definition cfg_ep :: "EndPoint \<Rightarrow> bool" where
  "cfg_ep ep \<longleftrightarrow> cfg_word (ep_ip ep) \<and> cfg_word (ep_port ep)"

fun line_ok :: "nat \<times> cfg_line \<times> nat \<Rightarrow> bool" where
  "line_ok (a, CommentLine t, b) = (CHR 0x0A \<notin> set t)"
| "line_ok (a, EmptyLine, b) = (a = 0 \<and> b = 0)"
| "line_ok (a, ClientPortLine w, b) = cfg_word w"
| "line_ok (a, ReplicationPortLine w, b) = cfg_word w"
| "line_ok (a, EndPointsLine eps, b) = (eps \<noteq> [] \<and> (\<forall>ep \<in> set eps. cfg_ep ep))"
| "line_ok (a, RecoveringLine w, b) = cfg_word w"

fun print_line :: "nat \<times> cfg_line \<times> nat \<Rightarrow> string" where
  "print_line (a, l, b) = replicate a CHR '' '' @ line_text l @ replicate b CHR '' ''"

definition cfg_text :: "(nat \<times> cfg_line \<times> nat) list \<Rightarrow> string" where
  "cfg_text ls = join_words CHR 0x0A (map print_line ls)"

fun line_sets :: "nat \<times> cfg_line \<times> nat \<Rightarrow> UserInput \<Rightarrow> UserInput" where
  "line_sets (a, CommentLine t, b) u = u"
| "line_sets (a, EmptyLine, b) u = u"
| "line_sets (a, ClientPortLine w, b) u = u\<lparr>ui_clientPort := w\<rparr>"
| "line_sets (a, ReplicationPortLine w, b) u = u\<lparr>ui_replicationPort := w\<rparr>"
| "line_sets (a, EndPointsLine eps, b) u = u\<lparr>ui_endPoints := ui_endPoints u @ eps\<rparr>"
| "line_sets (a, RecoveringLine w, b) u = (if w = ''true'' then u\<lparr>ui_recovering := True\<rparr> else u)"

text \<open>What a file sets; \<open>recovering\<close> has no initial value, so it stays \<open>uninit\<close> when no line says \<open>true\<close>.\<close>

definition cfg_settings :: "(nat \<times> cfg_line \<times> nat) list \<Rightarrow> bool \<Rightarrow> UserInput" where
  "cfg_settings ls uninit =
     fold line_sets ls \<lparr>ui_clientPort = [], ui_replicationPort = [], ui_endPoints = [], ui_recovering = uninit\<rparr>"

lemma trim_unblank:
  assumes "s \<noteq> []" "hd s \<noteq> CHR '' ''" "last s \<noteq> CHR '' ''"
  shows "trim s = s" "trim (CHR '' '' # s) = s" "trim (s @ '' '') = s"
proof -
  have d: "dropWhile (\<lambda>c. c = CHR '' '') s = s" "dropWhile (\<lambda>c. c = CHR '' '') (rev s) = rev s"
    "dropWhile (\<lambda>c. c = CHR '' '') (s @ '' '') = s @ '' ''"
    using assms by (simp_all add: dropWhile_eq_self_iff hd_rev)
  have "\<exists>c\<in>set s. c \<noteq> CHR '' ''"
    using assms by (metis list.set_sel(1))
  then show "trim s = s" "trim (CHR '' '' # s) = s" "trim (s @ '' '') = s"
    by (simp_all add: trim_not_blank d)
qed

lemma cfg_wordD:
  assumes "cfg_word w"
  shows "w \<noteq> []" "hd w \<noteq> CHR '' ''" "last w \<noteq> CHR '' ''" "CHR '':'' \<notin> set w" "CHR '','' \<notin> set w"
    "CHR ''='' \<notin> set w" "CHR 0x0A \<notin> set w" "trim w = w"
proof -
  show w: "w \<noteq> []" "CHR '':'' \<notin> set w" "CHR '','' \<notin> set w" "CHR ''='' \<notin> set w" "CHR 0x0A \<notin> set w"
    using assms by (auto simp: cfg_word_def)
  have "CHR '' '' \<notin> set w"
    using assms by (auto simp: cfg_word_def)
  then show "hd w \<noteq> CHR '' ''" "last w \<noteq> CHR '' ''"
    using hd_in_set [OF w(1)] last_in_set [OF w(1)] by force+
  with w(1) show "trim w = w"
    by (rule trim_unblank)
qed

lemma split_key_val:
  assumes "CHR ''='' \<notin> set k" "k \<noteq> []" "hd k \<noteq> CHR '' ''" "last k \<noteq> CHR '' ''"
    and "CHR ''='' \<notin> set v" "v \<noteq> []" "hd v \<noteq> CHR '' ''" "last v \<noteq> CHR '' ''"
  shows "split_line (k @ '' = '' @ v) CHR ''='' = [k, v]"
proof -
  have "split_line ((k @ '' '') @ CHR ''='' # (CHR '' '' # v)) CHR ''='' = [trim (k @ '' ''), trim (CHR '' '' # v)]"
    unfolding split_line_fields using assms by (subst split_fields_word) (auto simp: split_fields_word)
  then show ?thesis
    using trim_unblank(3) [of k] trim_unblank(2) [of v] assms by simp
qed

text \<open>A line \<open>key = val\<close> is read as its key and its value.\<close>

lemma parseLine_key_val:
  assumes "k \<in> {''ClientPort'', ''ReplicationPort'', ''EndPoints'', ''Recovering''}"
    and "CHR ''='' \<notin> set v" "v \<noteq> []" "hd v \<noteq> CHR '' ''" "last v \<noteq> CHR '' ''"
  shows "parseLine (k @ '' = '' @ v) uip =
    (if k = ''ClientPort'' then Return () (uip\<lparr>ui_clientPort := v\<rparr>)
     else if k = ''ReplicationPort'' then Return () (uip\<lparr>ui_replicationPort := v\<rparr>)
     else if k = ''EndPoints'' then endPoints_loop (k @ '' = '' @ v) (split_line v CHR '','') uip
     else Return () (if v = ''true'' then uip\<lparr>ui_recovering := True\<rparr> else uip))"
proof -
  have t: "trim (k @ '' = '' @ v) = k @ '' = '' @ v"
    using assms by (intro trim_unblank) auto
  have s: "split_line (k @ '' = '' @ v) CHR ''='' = [k, v]"
    using assms by (intro split_key_val) auto
  have "(k @ '' = '' @ v) ! 0 \<noteq> CHR ''#''"
    using assms(1) by auto
  then have c: "str_find_char (k @ '' = '' @ v) CHR ''#'' 0 \<noteq> Some 0"
    unfolding str_find_char_def find_Some_iff by auto
  have "k @ '' = '' @ v \<noteq> []"
    by simp
  then show ?thesis
    unfolding parseLine_def Let_def t s using c assms(1) by auto
qed

lemma split_line_join:
  assumes "ws \<noteq> []" "\<forall>w\<in>set ws. w \<noteq> [] \<and> d \<notin> set w \<and> trim w = w"
  shows "split_line (join_words d ws) d = ws"
  unfolding split_line_fields using assms
  by (induction d ws rule: join_words.induct) (auto simp: split_fields_word)

lemma file_lines_join:
  assumes "ws \<noteq> []" "\<forall>w\<in>set ws. CHR 0x0A \<notin> set w"
  shows "file_lines (join_words CHR 0x0A ws) [] = ws"
proof -
  have word: "file_lines (w @ CHR 0x0A # rest) cur = (cur @ w) # file_lines rest []"
    "file_lines w cur = [cur @ w]" if "CHR 0x0A \<notin> set w" for w rest cur
    using that by (induction w arbitrary: cur) auto
  show ?thesis
    using assms by (induction "CHR 0x0A" ws rule: join_words.induct) (auto simp: word)
qed

lemma join_words_ends:
  assumes "ws \<noteq> []" "\<forall>w\<in>set ws. w \<noteq> []"
  shows "join_words d ws \<noteq> [] \<and> hd (join_words d ws) = hd (hd ws) \<and>
    last (join_words d ws) = last (last ws)"
  using assms by (induction d ws rule: join_words.induct) auto

lemma set_join_words: "set (join_words d ws) \<subseteq> insert d (\<Union>w\<in>set ws. set w)"
  by (induction d ws rule: join_words.induct) auto

lemma cfg_ep_string:
  assumes "cfg_ep ep"
  shows "EndPoint_string ep \<noteq> []" "hd (EndPoint_string ep) \<noteq> CHR '' ''"
    "last (EndPoint_string ep) \<noteq> CHR '' ''" "CHR '','' \<notin> set (EndPoint_string ep)"
    "CHR ''='' \<notin> set (EndPoint_string ep)" "CHR 0x0A \<notin> set (EndPoint_string ep)"
    "trim (EndPoint_string ep) = EndPoint_string ep"
    "split_line (EndPoint_string ep) CHR '':'' = [ep_ip ep, ep_port ep]"
proof -
  note w = cfg_wordD [of "ep_ip ep"] cfg_wordD [of "ep_port ep"]
  show *: "EndPoint_string ep \<noteq> []" "hd (EndPoint_string ep) \<noteq> CHR '' ''"
    "last (EndPoint_string ep) \<noteq> CHR '' ''" "CHR '','' \<notin> set (EndPoint_string ep)"
    "CHR ''='' \<notin> set (EndPoint_string ep)" "CHR 0x0A \<notin> set (EndPoint_string ep)"
    using assms w by (auto simp: cfg_ep_def EndPoint_string_def)
  show "trim (EndPoint_string ep) = EndPoint_string ep"
    using *(1-3) by (rule trim_unblank)
  show "split_line (EndPoint_string ep) CHR '':'' = [ep_ip ep, ep_port ep]"
    using assms w by (simp add: cfg_ep_def EndPoint_string_def split_line_fields split_fields_word)
qed

lemma endPoints_loop_print:
  "\<forall>ep\<in>set eps. cfg_ep ep \<Longrightarrow> endPoints_loop line (map EndPoint_string eps) uip =
     Return () (uip\<lparr>ui_endPoints := ui_endPoints uip @ eps\<rparr>)"
  by (induction eps arbitrary: uip) (auto simp: cfg_ep_string)

text \<open>Blanks around a line do not matter.\<close>

lemma dropWhile_blanks: "dropWhile (\<lambda>c. c = CHR '' '') (replicate n CHR '' '' @ s) = dropWhile (\<lambda>c. c = CHR '' '') s"
  by (induction n) simp_all

lemma trim_padded:
  assumes "s \<noteq> []" "hd s \<noteq> CHR '' ''" "last s \<noteq> CHR '' ''"
  shows "trim (replicate a CHR '' '' @ s @ replicate b CHR '' '') = s"
proof -
  have "\<exists>c\<in>set (replicate a CHR '' '' @ s @ replicate b CHR '' ''). c \<noteq> CHR '' ''"
    using assms(1,2) by (intro bexI [of _ "hd s"]) simp_all
  moreover have "dropWhile (\<lambda>c. c = CHR '' '') (s @ replicate b CHR '' '') = s @ replicate b CHR '' ''"
    "dropWhile (\<lambda>c. c = CHR '' '') (rev s) = rev s"
    using assms by (simp_all add: dropWhile_eq_self_iff hd_rev)
  ultimately show ?thesis
    by (simp add: trim_not_blank dropWhile_blanks)
qed

lemma parseLine_padded:
  assumes "s \<noteq> []" "hd s \<noteq> CHR '' ''" "last s \<noteq> CHR '' ''"
  shows "parseLine (replicate a CHR '' '' @ s @ replicate b CHR '' '') uip = parseLine s uip"
  unfolding parseLine_def trim_padded [OF assms] trim_unblank(1) [OF assms] ..

lemma parseLine_comment: "parseLine (replicate a CHR '' '' @ CHR ''#'' # t) uip = Return () uip"
proof -
  let ?l = "replicate a CHR '' '' @ CHR ''#'' # t"
  have "\<exists>c\<in>set ?l. c \<noteq> CHR '' ''"
    by (intro bexI [of _ "CHR ''#''"]) simp_all
  then have "trim ?l = rev (dropWhile (\<lambda>c. c = CHR '' '') (rev (CHR ''#'' # t)))"
    by (simp add: trim_not_blank dropWhile_blanks)
  also have "\<dots> = CHR ''#'' # rev (dropWhile (\<lambda>c. c = CHR '' '') (rev t))"
    by (cases "dropWhile (\<lambda>c. c = CHR '' '') (rev t) = []") (auto simp: dropWhile_append dropWhile_eq_Nil_conv)
  finally obtain r where r: "trim ?l = CHR ''#'' # r"
    by blast
  moreover have "str_find_char (CHR ''#'' # r) CHR ''#'' 0 = Some 0"
    using str_find_char_first [of "CHR ''#''" "[]" r] by simp
  ultimately show ?thesis
    by (simp add: parseLine_def)
qed

lemma parseLine_empty: "parseLine [] uip = Return () uip"
proof -
  have "trim [] = []"
    by (rule trim_blank) simp
  then show ?thesis
    by (simp add: parseLine_def)
qed

lemma join_endPoints:
  assumes "eps \<noteq> []" "\<forall>ep\<in>set eps. cfg_ep ep" "es = join_words CHR '','' (map EndPoint_string eps)"
  shows "es \<noteq> []" "hd es \<noteq> CHR '' ''" "last es \<noteq> CHR '' ''" "CHR ''='' \<notin> set es" "CHR 0x0A \<notin> set es"
    "split_line es CHR '','' = map EndPoint_string eps"
proof -
  show "es \<noteq> []" "hd es \<noteq> CHR '' ''" "last es \<noteq> CHR '' ''"
    using join_words_ends [of "map EndPoint_string eps" "CHR '',''"] assms
    by (auto simp: cfg_ep_string hd_map last_map)
  show "CHR ''='' \<notin> set es" "CHR 0x0A \<notin> set es"
    using set_join_words [of "CHR '',''" "map EndPoint_string eps"] assms cfg_ep_string(5,6) by fastforce+
  show "split_line es CHR '','' = map EndPoint_string eps"
    unfolding assms(3) using assms(1,2) by (intro split_line_join) (auto simp: cfg_ep_string)
qed

lemma setting_line:
  assumes "k \<in> {''ClientPort'', ''ReplicationPort'', ''EndPoints'', ''Recovering''}"
    and "CHR ''='' \<notin> set v" "v \<noteq> []" "hd v \<noteq> CHR '' ''" "last v \<noteq> CHR '' ''"
  shows "parseLine (replicate a CHR '' '' @ (k @ '' = '' @ v) @ replicate b CHR '' '') uip = parseLine (k @ '' = '' @ v) uip"
  by (rule parseLine_padded) (use assms in auto)

lemma parse_print_line:
  assumes "line_ok x"
  shows "parseLine (print_line x) uip = Return () (line_sets x uip)" "CHR 0x0A \<notin> set (print_line x)"
proof -
  obtain a l b where x: "x = (a, l, b)"
    by (metis prod_cases3)
  note kv = parseLine_key_val [unfolded append_assoc]
  have "parseLine (print_line x) uip = Return () (line_sets x uip) \<and> CHR 0x0A \<notin> set (print_line x)"
  proof (cases l)
    case (CommentLine t)
    then show ?thesis
      using assms parseLine_comment [of a "t @ replicate b CHR '' ''" uip] by (simp add: x)
  next
    case EmptyLine
    then show ?thesis
      using assms by (simp add: x parseLine_empty)
  next
    case (ClientPortLine w)
    then have "cfg_word w"
      using assms by (simp add: x)
    note w = cfg_wordD [OF this]
    show ?thesis
      using setting_line [of "''ClientPort''" w a b uip] parseLine_key_val [of "''ClientPort''" w uip] w
      by (simp add: x ClientPortLine)
  next
    case (ReplicationPortLine w)
    then have "cfg_word w"
      using assms by (simp add: x)
    note w = cfg_wordD [OF this]
    show ?thesis
      using setting_line [of "''ReplicationPort''" w a b uip] parseLine_key_val [of "''ReplicationPort''" w uip] w
      by (simp add: x ReplicationPortLine)
  next
    case (EndPointsLine eps)
    then have e: "eps \<noteq> []" "\<forall>ep\<in>set eps. cfg_ep ep"
      using assms by (simp_all add: x)
    note es = join_endPoints [OF e refl]
    show ?thesis
      using setting_line [of "''EndPoints''" "join_words CHR '','' (map EndPoint_string eps)" a b uip]
        parseLine_key_val [of "''EndPoints''" "join_words CHR '','' (map EndPoint_string eps)" uip] es
      by (simp add: x EndPointsLine endPoints_loop_print [OF e(2)])
  next
    case (RecoveringLine w)
    then have "cfg_word w"
      using assms by (simp add: x)
    note w = cfg_wordD [OF this]
    show ?thesis
      using setting_line [of "''Recovering''" w a b uip] parseLine_key_val [of "''Recovering''" w uip] w
      by (simp add: x RecoveringLine)
  qed
  then show "parseLine (print_line x) uip = Return () (line_sets x uip)" "CHR 0x0A \<notin> set (print_line x)"
    by blast+
qed

lemma parse_cfg_text:
  assumes "ls \<noteq> []" "\<forall>x \<in> set ls. line_ok x"
  shows "parse (Some (cfg_text ls)) uip = Return () (fold line_sets ls uip)"
proof -
  have "file_lines (cfg_text ls) [] = map print_line ls"
    unfolding cfg_text_def using assms parse_print_line(2) by (intro file_lines_join) auto
  moreover have "parse_lines (map print_line ls) uip = Return () (fold line_sets ls uip)"
    using assms(2) by (induction ls arbitrary: uip) (simp_all add: parse_print_line(1))
  ultimately show ?thesis
    by (simp add: parse_def)
qed

section \<open>Ids and peers\<close>

text \<open>The replicas a node knows when the list of end points is \<open>eps\<close> and its own position is \<open>k\<close>.\<close>

definition peers :: "EndPoint list \<Rightarrow> nat \<Rightarrow> (ReplicaId, EndPoint) umap" where
  "peers eps k = map (\<lambda>j. (of_nat j, eps ! j)) (filter (\<lambda>j. j \<noteq> k) [0..<length eps])"

lemma length_peers: "k < length eps \<Longrightarrow> length (peers eps k) = length eps - 1"
proof -
  assume k: "k < length eps"
  have "length (filter (\<lambda>j. j \<noteq> k) [0..<length eps]) = card ({0..<length eps} - {k})"
    by (subst distinct_card [symmetric]) (auto simp: set_diff_eq)
  then show ?thesis
    using k by (simp add: peers_def)
qed

lemma of_nat_u64_inj: "i < 2 ^ 64 \<Longrightarrow> j < 2 ^ 64 \<Longrightarrow> (of_nat i :: u64) = of_nat j \<longleftrightarrow> i = j"
  by (metis unat_of_nat_u64)

lemma map_of_peers:
  assumes "length eps < 2 ^ 64" "j < length eps" "j \<noteq> k"
  shows "map_of (peers eps k) (of_nat j) = Some (eps ! j)"
proof -
  have "distinct (map fst (peers eps k))"
    using assms(1) by (auto simp: peers_def comp_def distinct_map inj_on_def of_nat_u64_inj)
  moreover have "(of_nat j, eps ! j) \<in> set (peers eps k)"
    using assms(2,3) by (auto simp: peers_def)
  ultimately show ?thesis
    by (rule map_of_is_SomeI)
qed

lemma set_peers: "snd ` set (peers eps k) \<subseteq> set eps"
  by (auto simp: peers_def)

lemma assign_ids_append:
  "assign_ids port i (xs @ ys) (a, b) = assign_ids port (i + length xs) ys (assign_ids port i xs (a, b))"
  by (induction xs arbitrary: i a b) auto

lemma assign_ids_take:
  assumes "length eps < 2 ^ 64" "\<forall>j < length eps. is_local port (eps ! j) \<longleftrightarrow> j = k" "n \<le> length eps"
  shows "assign_ids port 0 (take n eps) (self, []) =
    (if k < n then of_nat k else self, map (\<lambda>j. (of_nat j, eps ! j)) (filter (\<lambda>j. j \<noteq> k) [0..<n]))"
  using assms(3)
proof (induction n)
  case (Suc n)
  let ?m = "map (\<lambda>j. (of_nat j :: u64, eps ! j)) (filter (\<lambda>j. j \<noteq> k) [0..<n])"
  have fresh: "of_nat n \<notin> fst ` set ?m"
    using Suc.prems assms(1) by (auto simp: of_nat_u64_inj)
  have take: "take (Suc n) eps = take n eps @ [eps ! n]"
    using Suc.prems by (simp add: take_Suc_conv_app_nth)
  show ?case
    using Suc assms(2) um_put_fresh [OF fresh [folded map_of_eq_None_iff]] by (auto simp: take assign_ids_append less_Suc_eq)
qed simp

lemma assign_ids_peers:
  assumes "length eps < 2 ^ 64" "\<forall>j < length eps. is_local port (eps ! j) \<longleftrightarrow> j = k" "k < length eps"
  shows "assign_ids port 0 eps (self, []) = (of_nat k, peers eps k)"
  using assign_ids_take [OF assms(1,2) order_refl, of self] assms(3) by (simp add: peers_def)

lemma start_replica_Return:
  "start_replica i reps now u recovering = Return ()
     ((replica_new i reps now u)\<lparr>replicatorRegistered := True, threadsStarted := True,
       rstate := (ReplicaState_new now)\<lparr>rs_status := if recovering then RECOVERING else NORMAL\<rparr>\<rparr>)"
  by (simp add: start_replica_def registerReplicator_def VsReplicator_start_def replica_new_def
      ReplicaState_new_def)

text \<open>
  The start of a node from a configuration file: the node's id is the position of its own end point
  and its map has exactly the other nodes.
\<close>

lemma bootStrap_cfg_text:
  assumes "\<forall>x \<in> set ls. line_ok x"
    and set: "cfg_settings ls uninit = \<lparr>ui_clientPort = cport, ui_replicationPort = rport, ui_endPoints = eps, ui_recovering = rec\<rparr>"
    and ports: "cport \<noteq> []" "rport \<noteq> []"
    and "length eps < 2 ^ 32 - 1" "\<forall>j < length eps. is_local rport (eps ! j) \<longleftrightarrow> j = k" "k < length eps"
  shows "\<exists>s. bootStrap (Some (cfg_text ls)) now uninit u
      Configurator_new = Return () \<lparr>cf_replicaId = of_nat k, cf_clientPort = cport,
        cf_replicationPort = rport, cf_replicas = peers eps k, cf_replicator = Some s\<rparr> \<and>
    start_replica (of_nat k) (peers eps k) now u rec = Return () s"
proof -
  have ids: "assign_ids rport 0 eps (UINT_MAX, []) = (of_nat k, peers eps k)"
    using assms(5-7) by (intro assign_ids_peers) auto
  have "unat (of_nat k :: u64) = k"
    using assms(5,7) by (intro unat_of_nat_u64) simp
  moreover have "unat UINT_MAX = 2 ^ 32 - 1"
    by (simp add: UINT_MAX_def)
  ultimately have "of_nat k \<noteq> UINT_MAX"
    using assms(5,7) by auto
  moreover have "ls \<noteq> []"
    using set ports by (auto simp: cfg_settings_def)
  then have "parse (Some (cfg_text ls)) \<lparr>ui_clientPort = [], ui_replicationPort = [], ui_endPoints = [], ui_recovering = uninit\<rparr> =
      Return () \<lparr>ui_clientPort = cport, ui_replicationPort = rport, ui_endPoints = eps, ui_recovering = rec\<rparr>"
    using parse_cfg_text [OF _ assms(1)] set by (simp add: cfg_settings_def)
  ultimately show ?thesis
    using ids ports by (simp add: bootStrap_def Configurator_new_def start_replica_Return)
qed

section \<open>End points round trip\<close>

lemma EndPoint_parse_string:
  assumes "CHR '':'' \<notin> set (ep_ip ep)"
  shows "EndPoint_parse (EndPoint_string ep) = Inr ep"
proof -
  have "str_find_char (EndPoint_string ep) CHR '':'' 0 = Some (length (ep_ip ep))"
    unfolding EndPoint_string_def using assms str_find_char_first [of "CHR '':''" "ep_ip ep" "ep_port ep"]
    by simp
  then show ?thesis
    by (simp add: EndPoint_parse_def str_substr_def) (simp add: EndPoint_string_def)
qed

section \<open>Properties\<close>

text \<open>The file \<open>tests/config-0\<close> of the repository, as a list of such lines.\<close>

definition test_config :: "(nat \<times> cfg_line \<times> nat) list" where
  "test_config =
     [(0, CommentLine '' Test config file'', 0), (0, EmptyLine, 0), (0, ClientPortLine ''4004'', 0),
      (0, ReplicationPortLine ''5008'', 0),
      (0, EndPointsLine (map (\<lambda>p. \<lparr>ep_ip = ''localhost'', ep_port = p\<rparr>) [''5008'', ''5010'', ''5012'', ''5014'', ''5016'']), 0),
      (0, RecoveringLine ''false'', 1), (0, EmptyLine, 0)]"

lemma test_config_text: "cfg_text test_config =
    ''# Test config file'' @ CHR 0x0A # CHR 0x0A # ''ClientPort = 4004'' @ CHR 0x0A # ''ReplicationPort = 5008'' @ CHR 0x0A #
    ''EndPoints = localhost:5008,localhost:5010,localhost:5012,localhost:5014,localhost:5016'' @ CHR 0x0A #
    ''Recovering = false '' @ [CHR 0x0A]"
  by (simp add: cfg_text_def test_config_def EndPoint_string_def)

text \<open>C36. \<open>trim\<close> removes the blanks at both ends of a line, except that it leaves a line of blanks only as
  it is, and \<open>split\<close> with its index arithmetic is the one-pass splitting into trimmed fields in which a
  separator directly after a separator belongs to the next field.\<close>

theorem trim_split_reference:
  "trim s = (if set s \<subseteq> {CHR '' ''} then s
     else rev (dropWhile (\<lambda>c. c = CHR '' '') (rev (dropWhile (\<lambda>c. c = CHR '' '') s)))) \<and>
   split_line s d = split_fields d [] s"
  using trim_not_blank [of s] trim_blank [of s] split_line_fields [of s d] by auto

end
