(* ===== verification/Cluster.thy ===== *)
theory Cluster
  imports Failover Config
begin

text \<open>
  A cluster in its first view: the node at position 0 is the primary and serves client operations
  one at a time (the store's mutex is held during \<open>set\<close> and \<open>remove\<close>), the others are backups.
  Every step of the relation runs a definition of \<open>Replicator\<close> on one node; the calls a step
  delivers go into a multiset from which they are taken in any order. A backup may crash at any time
  and is started again without its state; while it waits in \<open>recover\<close> the other nodes go on, and each of
  them may answer its request, at different times and more than once. Its request has a nonce it has not
  used before; the code takes the time in seconds. Operations that time out and view changes are not steps of this relation; a call whose
  handler aborts is not a step either.
\<close>

section \<open>States and steps\<close>

record cluster =
  pri :: replica
  pending :: "PrepInfo option"
  backup :: "nat \<Rightarrow> replica"
  net :: "(EndPoint \<times> message) multiset"
  inbox :: "nat \<Rightarrow> RecoveryResponse list"
  lastNonce :: "nat \<Rightarrow> Nonce"
  opAtCrash :: "nat \<Rightarrow> OpInt"

text \<open>
  \<open>inbox\<close> has the answers ever sent to a restarted node, \<open>lastNonce\<close> the nonce of its last request and
  \<open>opAtCrash\<close>, which no step reads, the primary's operation number at its last crash.
\<close>

text \<open>A node's deliveries are moved to the network after each step.\<close>

definition flush :: "'a base_scheme \<Rightarrow> 'a base_scheme" where
  "flush s = s\<lparr>netOut := []\<rparr>"

definition put_pri :: "replica \<Rightarrow> cluster \<Rightarrow> cluster" where
  "put_pri s C = C\<lparr>pri := flush s, net := net C + mset (netOut s)\<rparr>"

definition put_backup :: "nat \<Rightarrow> replica \<Rightarrow> cluster \<Rightarrow> cluster" where
  "put_backup b s C = C\<lparr>backup := (backup C)(b := flush s), net := net C + mset (netOut s)\<rparr>"

definition take_msg :: "EndPoint \<times> message \<Rightarrow> cluster \<Rightarrow> cluster" where
  "take_msg m C = C\<lparr>net := net C - {#m#}\<rparr>"

definition node :: "cluster \<Rightarrow> nat \<Rightarrow> replica" where
  "node C i = (if i = 0 then pri C else backup C i)"

text \<open>A restarted node, and an answer to its request.\<close>

definition restart :: "nat \<Rightarrow> Nonce \<Rightarrow> replica \<Rightarrow> cluster \<Rightarrow> cluster" where
  "restart b nonce s C = C\<lparr>backup := (backup C)(b := s), lastNonce := (lastNonce C)(b := nonce),
     opAtCrash := (opAtCrash C)(b := opNum (pri C))\<rparr>"

definition answer :: "nat \<Rightarrow> nat \<Rightarrow> cluster \<Rightarrow> cluster" where
  "answer j b C = C\<lparr>inbox := (inbox C)(b := inbox C b @ [recovery_answer (lastNonce C b) (node C j)])\<rparr>"

definition cluster_init :: "EndPoint list \<Rightarrow> time_point \<Rightarrow> bool \<Rightarrow> cluster \<Rightarrow> bool" where
  "cluster_init eps now u C \<longleftrightarrow>
     start_replica 0 (peers eps 0) now u False = Return () (pri C) \<and>
     (\<forall>b \<in> {1..<length eps}. start_replica (of_nat b) (peers eps b) now u False = Return () (backup C b)) \<and>
     pending C = None \<and> net C = {#}"

inductive cluster_step :: "EndPoint list \<Rightarrow> cluster \<Rightarrow> cluster \<Rightarrow> bool" for eps where
  client_begin: "\<lbrakk>pending C = None; opNum (pri C) \<noteq> - 1; p = op_prep ty k v (pri C);
     op_begin nw p (pri C) = (q, t)\<rbrakk>
   \<Longrightarrow> cluster_step eps C ((put_pri t C)\<lparr>pending := Some p\<rparr>)"
| client_finish: "\<lbrakk>pending C = Some p;
     quorumReached (WaitMap_cnt (pi_opNum p) (repWaitMap (pri C))) (pri C);
     op_finish nw p (pri C) = Return () t\<rbrakk>
   \<Longrightarrow> cluster_step eps C ((put_pri t C)\<lparr>pending := None\<rparr>)"
| heart_beat: "heartBeat env (pri C) = Return r t \<Longrightarrow> cluster_step eps C (put_pri t C)"
| recv_prepareOk: "(eps ! 0, PrepareOk r) \<in># net C
   \<Longrightarrow> cluster_step eps C (put_pri (processPrepareOk r (pri C)) (take_msg (eps ! 0, PrepareOk r) C))"
| recv_prepare: "\<lbrakk>b \<in> {1..<length eps}; (eps ! b, Prepare p) \<in># net C\<rbrakk>
   \<Longrightarrow> cluster_step eps C (put_backup b (processPrepare p (backup C b)) (take_msg (eps ! b, Prepare p) C))"
| recv_commit: "\<lbrakk>b \<in> {1..<length eps}; (eps ! b, message.Commit c) \<in># net C;
     processCommit now c (backup C b) = Return () t\<rbrakk>
   \<Longrightarrow> cluster_step eps C (put_backup b t (take_msg (eps ! b, message.Commit c) C))"
| log_prepared: "\<lbrakk>b \<in> {1..<length eps}; no_lost_answer nw;
     processPrepInfo nw (backup C b) = Some (Return () t)\<rbrakk>
   \<Longrightarrow> cluster_step eps C (put_backup b t C)"
| crashes: "\<lbrakk>b \<in> {1..<length eps}; start_replica (of_nat b) (peers eps b) now u True = Return () s;
     \<forall>r \<in> set (inbox C b). rrs_nonce r \<noteq> nonce\<rbrakk>
   \<Longrightarrow> cluster_step eps C (restart b nonce s C)"
| answers: "\<lbrakk>b \<in> {1..<length eps}; j < length eps; status (backup C b) = RECOVERING; status (node C j) = NORMAL\<rbrakk>
   \<Longrightarrow> cluster_step eps C (answer j b C)"
| recovers: "\<lbrakk>b \<in> {1..<length eps}; status (backup C b) = RECOVERING; lastNonce C b = of_int (now div ns_per_sec);
     set rs \<subseteq> set (inbox C b); recover (woken_env nw now rs) (backup C b) = Return () t\<rbrakk>
   \<Longrightarrow> cluster_step eps C (put_backup b t C)"

inductive cluster_run :: "EndPoint list \<Rightarrow> cluster \<Rightarrow> cluster \<Rightarrow> bool" for eps where
  run_refl: "cluster_run eps C C"
| run_step: "\<lbrakk>cluster_run eps C D; cluster_step eps D E\<rbrakk> \<Longrightarrow> cluster_run eps C E"

section \<open>The invariant\<close>

abbreviation plog :: "cluster \<Rightarrow> operation list" where
  "plog C \<equiv> log_ops (oplog (pri C))"

text \<open>What may be in the network or in a queue: operations of the primary's log, commit numbers the
  primary has reached.\<close>

definition prep_ok :: "operation list \<Rightarrow> PrepInfo \<Rightarrow> bool" where
  "prep_ok L p \<longleftrightarrow> 0 < pi_opNum p \<and> unat (pi_opNum p) \<le> length L \<and>
     L ! (unat (pi_opNum p) - 1) = prep_op p"

fun msg_ok :: "operation list \<Rightarrow> CommitInt \<Rightarrow> message \<Rightarrow> bool" where
  "msg_ok L cm (Prepare p) = prep_ok L p"
| "msg_ok L cm (message.Commit c) = (ci_commitNum c \<le> cm)"
| "msg_ok L cm m = True"

definition pri_ok :: "EndPoint list \<Rightarrow> replica \<Rightarrow> bool" where
  "pri_ok eps s \<longleftrightarrow> regular s \<and> status s = NORMAL \<and> selfId s = 0 \<and> priId s = 0 \<and>
     viewNum s = 0 \<and> replicas s = peers eps 0 \<and> netOut s = []"

definition pending_ok :: "PrepInfo option \<Rightarrow> replica \<Rightarrow> bool" where
  "pending_ok pend s \<longleftrightarrow> (case pend of
      None \<Rightarrow> commitNum s = opNum s
    | Some p \<Rightarrow> opNum s = commitNum s + 1 \<and> commitNum s \<noteq> - 1 \<and> pi_opNum p = opNum s \<and>
        log_ops (oplog s) ! unat (commitNum s) = prep_op p)"

definition backup_ok :: "EndPoint list \<Rightarrow> operation list \<Rightarrow> CommitInt \<Rightarrow> replica \<Rightarrow> bool" where
  "backup_ok eps L cm s \<longleftrightarrow> regular s \<and> replicatorRegistered s \<and> netOut s = [] \<and>
     map_of (replicas s) (priId s) = Some (eps ! 0) \<and>
     unat (opNum s) \<le> length L \<and> log_ops (oplog s) = take (unat (opNum s)) L \<and>
     commitNum s \<le> cm \<and> (\<forall>p \<in> set (prepReqQ s). prep_ok L p)"

text \<open>Acknowledgements of operation \<open>n\<close> in the network, and the backups that have it in their log or are bound to
  get it back, since the primary had it when they crashed.\<close>

definition acks :: "OpInt \<Rightarrow> (EndPoint \<times> message) multiset \<Rightarrow> nat" where
  "acks n M = size (filter_mset (\<lambda>(ep, m). \<exists>r. m = PrepareOk r \<and> pr_opNum r = n) M)"

definition holders :: "EndPoint list \<Rightarrow> OpInt \<Rightarrow> cluster \<Rightarrow> nat set" where
  "holders eps n C = {b \<in> {1..<length eps}. n \<le> opNum (backup C b) \<or>
     status (backup C b) = RECOVERING \<and> n \<le> opAtCrash C b}"

text \<open>
  Every acknowledgement, counted or on its way, comes from another holder; the primary counts
  itself.
\<close>

definition count_ok :: "EndPoint list \<Rightarrow> cluster \<Rightarrow> bool" where
  "count_ok eps C \<longleftrightarrow> (\<forall>n. WaitMap_cnt n (repWaitMap (pri C)) + acks n (net C) \<le>
     (if n \<le> opNum (pri C) then 1 else 0) + card (holders eps n C))"

definition durable :: "EndPoint list \<Rightarrow> cluster \<Rightarrow> bool" where
  "durable eps C \<longleftrightarrow> 0 < commitNum (pri C) \<longrightarrow>
     quorumReached (1 + card (holders eps (commitNum (pri C)) C)) (pri C)"

text \<open>What the steps never change in a backup: its place in the first view.\<close>

definition view_of :: "replica \<Rightarrow> ReplicaId \<times> ReplicaId \<times> ViewInt \<times> (ReplicaId, EndPoint) umap \<times>
    (ViewInt, ViewStartInfo) umap \<times> (ViewInt, ViewChangeInfo list) umap \<times> ViewInt WaitMap \<times> ViewInt WaitMap" where
  "view_of s = (selfId s, priId s, viewNum s, replicas s, viewStartInfoMap s, viewChangeInfoMap s,
     doViewChangeMap s, startViewMap s)"

text \<open>A replica that waits for answers to its request, and an answer it may use: one the primary has given since.\<close>

definition waiting :: "replica \<Rightarrow> bool" where
  "waiting s \<longleftrightarrow> kvMap s = [] \<and> opNum s = 0 \<and> commitNum s = 0 \<and> prepReqQ s = [] \<and> recWaitMap s = [] \<and> respViewCnt s = [] \<and>
     recoveryRespMap s = []"

definition snapshot :: "operation list \<Rightarrow> CommitInt \<Rightarrow> OpInt \<Rightarrow> replica \<Rightarrow> bool" where
  "snapshot L cm n p \<longleftrightarrow> selfId p = 0 \<and> viewNum p = 0 \<and> unat (opNum p) \<le> length L \<and>
     log_ops (oplog p) = take (unat (opNum p)) L \<and> commitNum p \<le> cm \<and> n \<le> opNum p"

definition answer_ok :: "operation list \<Rightarrow> CommitInt \<Rightarrow> OpInt \<Rightarrow> RecoveryResponse \<Rightarrow> bool" where
  "answer_ok L cm n r \<longleftrightarrow> (\<exists>p. regular p \<and> snapshot L cm n p \<and> r = primary_response (rrs_nonce r) p)"

definition usable :: "cluster \<Rightarrow> nat \<Rightarrow> bool" where
  "usable C b \<longleftrightarrow> opAtCrash C b \<le> opNum (pri C) \<and>
     (\<forall>r \<in> set (inbox C b). rrs_nonce r = lastNonce C b \<longrightarrow> rrs_isPrimary r \<longrightarrow>
        answer_ok (plog C) (commitNum (pri C)) (opAtCrash C b) r)"

definition joined :: "EndPoint list \<Rightarrow> cluster \<Rightarrow> nat \<Rightarrow> bool" where
  "joined eps C b \<longleftrightarrow> view_of (backup C b) = (of_nat b, 0, 0, peers eps b, [], [], [], []) \<and>
     (status (backup C b) = NORMAL \<or> status (backup C b) = RECOVERING \<and> waiting (backup C b) \<and> usable C b)"

definition cluster_inv :: "EndPoint list \<Rightarrow> cluster \<Rightarrow> bool" where
  "cluster_inv eps C \<longleftrightarrow> pri_ok eps (pri C) \<and> pending_ok (pending C) (pri C) \<and>
     (\<forall>b \<in> {1..<length eps}. backup_ok eps (plog C) (commitNum (pri C)) (backup C b)) \<and>
     (\<forall>(ep, m) \<in># net C. msg_ok (plog C) (commitNum (pri C)) m) \<and>
     count_ok eps C \<and> durable eps C \<and> length eps < 2 ^ 64 \<and>
     (\<forall>b \<in> {1..<length eps}. joined eps C b)"

section \<open>The invariant is monotone in the primary's log\<close>

lemma prep_ok_append: "prep_ok L p \<Longrightarrow> prep_ok (L @ M) p"
  by (auto simp: prep_ok_def nth_append word_less_nat_alt)

lemma msg_ok_mono: "msg_ok L cm m \<Longrightarrow> cm \<le> cm' \<Longrightarrow> msg_ok (L @ M) cm' m"
  by (cases m) (auto simp: prep_ok_append)

lemma backup_ok_mono: "backup_ok eps L cm s \<Longrightarrow> cm \<le> cm' \<Longrightarrow> backup_ok eps (L @ M) cm' s"
  by (auto simp: backup_ok_def prep_ok_append)

lemma flush_frame [simp]:
  "kvMap (flush s) = kvMap s" "rstate (flush s) = rstate s" "oplog (flush s) = oplog s"
  "selfId (flush s) = selfId s" "replicas (flush s) = replicas s" "netOut (flush s) = []"
  "replicatorRegistered (flush s) = replicatorRegistered s"
  "repWaitMap (flush t) = repWaitMap t" "prepReqQ (flush t) = prepReqQ t"
  "threadsStarted (flush t) = threadsStarted t"
  by (simp_all add: flush_def)

lemma acks_simps [simp]:
  "acks n {#} = 0" "acks n (M + N) = acks n M + acks n N"
  "acks n (add_mset (ep, PrepareOk r) M) = (if pr_opNum r = n then 1 else 0) + acks n M"
  by (simp_all add: acks_def)

lemma acks_diff_le: "acks n (M - N) \<le> acks n M"
  unfolding acks_def by (intro size_mset_mono multiset_filter_mono) simp

lemma acks_none: "\<forall>x \<in> set xs. \<nexists>r. snd x = PrepareOk r \<Longrightarrow> acks n (mset xs) = 0"
  by (auto simp: acks_def filter_mset_eq_conv)

lemma apply_entry_vch [simp]:
  "viewStartInfoMap (apply_entry e s) = viewStartInfoMap s" "viewChangeInfoMap (apply_entry e s) = viewChangeInfoMap s"
  "doViewChangeMap (apply_entry e s) = doViewChangeMap s" "startViewMap (apply_entry e s) = startViewMap s"
  by (simp_all add: apply_entry_def updateCb_def setInt_def deleteCb_def removeInt_def split: OpType.split)

lemma answer_ok_mono: "answer_ok L cm n r \<Longrightarrow> cm \<le> cm' \<Longrightarrow> answer_ok (L @ M) cm' n r"
  by (force simp: answer_ok_def snapshot_def)

lemma joined_mono:
  assumes "joined eps C b" "plog D = plog C @ M" "commitNum (pri C) \<le> commitNum (pri D)" "opNum (pri C) \<le> opNum (pri D)"
    and "backup D b = backup C b" "inbox D b = inbox C b" "lastNonce D b = lastNonce C b" "opAtCrash D b = opAtCrash C b"
  shows "joined eps D b"
  using assms(1) order_trans [OF _ assms(4)] answer_ok_mono [OF _ assms(3)]
  unfolding joined_def usable_def assms(2,5-8) by blast

lemma waiting_flush [simp]: "waiting (flush s) = waiting s"
  by (simp add: waiting_def flush_def)

lemma view_of_flush [simp]: "view_of (flush s) = view_of s"
  by (simp add: view_of_def flush_def)

lemma view_of_processPrepare [simp]: "view_of (processPrepare p s) = view_of s"
  by (simp add: view_of_def processPrepare_def)

lemma view_of_processCommit: "processCommit now c s = Return () t \<Longrightarrow> view_of t = view_of s \<and> status t = status s"
  by (auto simp: view_of_def processCommit_def Let_def outcome_simps split: if_splits option.splits)

lemma view_of_processPrepInfo:
  assumes "processPrepInfo nw s = Some (Return () t)" "map_of (replicas s) (priId s) \<noteq> None"
  shows "view_of t = view_of s \<and> status t = status s"
  using assms by (auto simp: view_of_def processPrepInfo_defs Let_def outcome_simps replicas_at_def
      invokePrepareOk_def split_beta split: if_splits option.splits)

text \<open>In another status than normal a replica takes no operation and no commit number.\<close>

lemma processPrepare_not_normal: "status s \<noteq> NORMAL \<Longrightarrow> processPrepare p s = s"
  by (simp add: processPrepare_def)

lemma processCommit_not_normal:
  "processCommit now c s = Return () t \<Longrightarrow> status s \<noteq> NORMAL \<Longrightarrow> t = set_lastCommitTime now s"
  by (simp add: processCommit_def Let_def)

section \<open>The invariant is kept\<close>

lemma put_simps [simp]:
  "pri (put_pri s C) = flush s" "backup (put_pri s C) = backup C"
  "net (put_pri s C) = net C + mset (netOut s)" "pending (put_pri s C) = pending C"
  "pri (put_backup b s C) = pri C" "backup (put_backup b s C) = (backup C)(b := flush s)"
  "net (put_backup b s C) = net C + mset (netOut s)" "pending (put_backup b s C) = pending C"
  "pri (take_msg m C) = pri C" "backup (take_msg m C) = backup C"
  "net (take_msg m C) = net C - {#m#}" "pending (take_msg m C) = pending C"
  "pri (restart b n s C) = pri C" "backup (restart b n s C) = (backup C)(b := s)" "net (restart b n s C) = net C"
  "pending (restart b n s C) = pending C"
  "pri (answer j b C) = pri C" "backup (answer j b C) = backup C" "net (answer j b C) = net C" "pending (answer j b C) = pending C"
  by (simp_all add: put_pri_def put_backup_def take_msg_def restart_def answer_def)

lemma put_join_simps [simp]:
  "inbox (put_pri s C) = inbox C" "lastNonce (put_pri s C) = lastNonce C" "opAtCrash (put_pri s C) = opAtCrash C"
  "inbox (put_backup b s C) = inbox C" "lastNonce (put_backup b s C) = lastNonce C" "opAtCrash (put_backup b s C) = opAtCrash C"
  "inbox (take_msg m C) = inbox C" "lastNonce (take_msg m C) = lastNonce C" "opAtCrash (take_msg m C) = opAtCrash C"
  "inbox (restart b n s C) = inbox C" "lastNonce (restart b n s C) = (lastNonce C)(b := n)"
  "opAtCrash (restart b n s C) = (opAtCrash C)(b := opNum (pri C))"
  "inbox (answer j b C) = (inbox C)(b := inbox C b @ [recovery_answer (lastNonce C b) (node C j)])"
  "lastNonce (answer j b C) = lastNonce C" "opAtCrash (answer j b C) = opAtCrash C"
  by (simp_all add: put_pri_def put_backup_def take_msg_def restart_def answer_def)

lemma holders_put_pri [simp]:
  "holders eps n (put_pri s C) = holders eps n C"
  "holders eps n (take_msg m C) = holders eps n C"
  "holders eps n (C\<lparr>pending := x\<rparr>) = holders eps n C"
  by (simp_all add: holders_def)

lemma finite_holders [simp]: "finite (holders eps n C)"
  by (simp add: holders_def)

lemma inv_count:
  "cluster_inv eps C \<Longrightarrow> WaitMap_cnt n (repWaitMap (pri C)) + acks n (net C) \<le>
     (if n \<le> opNum (pri C) then 1 else 0) + card (holders eps n C)"
  by (simp add: cluster_inv_def count_ok_def)

lemma inv_msg: "cluster_inv eps C \<Longrightarrow> (ep, m) \<in># net C \<Longrightarrow> msg_ok (plog C) (commitNum (pri C)) m"
  by (auto simp: cluster_inv_def)

lemma take_msg_inv:
  assumes "cluster_inv eps C"
  shows "cluster_inv eps (take_msg m C)"
proof -
  have "WaitMap_cnt n (repWaitMap (pri C)) + acks n (net C - {#m#}) \<le>
     (if n \<le> opNum (pri C) then 1 else 0) + card (holders eps n C)" for n
    using inv_count [OF assms, of n] acks_diff_le [of n "net C" "{#m#}"] by linarith
  then have "count_ok eps (take_msg m C)"
    by (simp add: count_ok_def)
  then show ?thesis
    using assms joined_mono [of eps C _ "take_msg m C" "[]"] by (auto simp: cluster_inv_def durable_def dest: in_diffD)
qed

text \<open>A step of the primary.\<close>

lemma put_pri_inv:
  assumes inv: "cluster_inv eps C"
    and t: "regular t" "status t = NORMAL" "selfId t = 0" "priId t = 0" "viewNum t = 0" "replicas t = peers eps 0"
    and pend: "pending_ok pend t"
    and log: "log_ops (oplog t) = plog C @ M" and cm: "commitNum (pri C) \<le> commitNum t"
    and op: "opNum (pri C) \<le> opNum t"
    and msgs: "\<And>ep m. (ep, m) \<in> set (netOut t) \<Longrightarrow> msg_ok (plog C @ M) (commitNum t) m \<and> (\<nexists>r. m = PrepareOk r)"
    and cnt: "\<And>n. WaitMap_cnt n (repWaitMap t) \<le> WaitMap_cnt n (repWaitMap (pri C)) +
      (if opNum (pri C) < n \<and> n \<le> opNum t then 1 else 0)"
    and dur: "0 < commitNum t \<Longrightarrow> quorumReached (1 + card (holders eps (commitNum t) C)) t"
  shows "cluster_inv eps ((put_pri t C)\<lparr>pending := pend\<rparr>)"
proof -
  have acks: "acks n (mset (netOut t)) = 0" for n
    using msgs by (intro acks_none) auto
  have "count_ok eps ((put_pri t C)\<lparr>pending := pend\<rparr>)"
    unfolding count_ok_def
  proof
    fix n
    from inv_count [OF inv, of n] cnt [of n] op show "WaitMap_cnt n (repWaitMap (pri ((put_pri t C)\<lparr>pending := pend\<rparr>))) +
        acks n (net ((put_pri t C)\<lparr>pending := pend\<rparr>)) \<le>
        (if n \<le> opNum (pri ((put_pri t C)\<lparr>pending := pend\<rparr>)) then 1 else 0) +
        card (holders eps n ((put_pri t C)\<lparr>pending := pend\<rparr>))"
      by (auto simp: acks not_le split: if_splits)
  qed
  moreover have "pri_ok eps (flush t)"
    using t by (simp add: pri_ok_def regular_cong [of "flush t" t])
  moreover have "pending_ok pend (flush t)"
    using pend by (simp add: pending_ok_def split: option.splits)
  moreover have "backup_ok eps (plog C @ M) (commitNum t) (backup C b)" if "b \<in> {1..<length eps}" for b
    using inv cm that by (intro backup_ok_mono) (simp_all add: cluster_inv_def)
  moreover have "msg_ok (plog C @ M) (commitNum t) m" if "(ep, m) \<in># net C + mset (netOut t)" for ep m
    using inv_msg [OF inv] cm that msgs by (auto intro: msg_ok_mono)
  moreover have "durable eps ((put_pri t C)\<lparr>pending := pend\<rparr>)"
    using dur by (simp add: durable_def quorumReached_def getMajorityCnt_def)
  ultimately show ?thesis
    using inv cm op joined_mono [of eps C _ "(put_pri t C)\<lparr>pending := pend\<rparr>" M] by (auto simp: cluster_inv_def log)
qed

text \<open>A step of a backup.\<close>

lemma backup_step_inv:
  assumes inv: "cluster_inv eps C" and D: "pri D = pri C" "pending D = pending C" "net D = net C + M"
    and ok: "\<And>j. j \<in> {1..<length eps} \<Longrightarrow> backup_ok eps (plog C) (commitNum (pri C)) (backup D j)"
    and join: "\<And>j. j \<in> {1..<length eps} \<Longrightarrow> joined eps D j"
    and msgs: "\<And>ep m. (ep, m) \<in># M \<Longrightarrow> msg_ok (plog C) (commitNum (pri C)) m"
    and grow: "\<And>n. card (holders eps n C) + acks n M \<le> card (holders eps n D)"
  shows "cluster_inv eps D"
proof -
  have "count_ok eps D"
    unfolding count_ok_def
  proof
    fix n
    from inv_count [OF inv, of n] grow [of n] show "WaitMap_cnt n (repWaitMap (pri D)) +
        acks n (net D) \<le> (if n \<le> opNum (pri D) then 1 else 0) + card (holders eps n D)"
      by (simp add: D)
  qed
  moreover have "durable eps D"
    using inv grow [of "commitNum (pri C)"] by (auto simp: cluster_inv_def durable_def quorumReached_def D(1))
  ultimately show ?thesis
    using inv ok join msgs by (auto simp: cluster_inv_def D)
qed

lemma inv_joined:
  assumes inv: "cluster_inv eps C" and b: "b \<in> {1..<length eps}"
  shows "view_of (backup C b) = (of_nat b, 0, 0, peers eps b, [], [], [], [])"
    "status (backup C b) \<noteq> NORMAL \<Longrightarrow> status (backup C b) = RECOVERING \<and> waiting (backup C b) \<and> usable C b"
    "backup_ok eps (plog C) (commitNum (pri C)) (backup C b)"
  using inv b by (auto simp: cluster_inv_def joined_def)

lemma put_backup_inv:
  assumes inv: "cluster_inv eps C" and b: "b \<in> {1..<length eps}"
    and ok: "backup_ok eps (plog C) (commitNum (pri C)) (flush t)"
    and op: "opNum (backup C b) \<le> opNum t" and view: "view_of t = view_of (backup C b)" "status t = status (backup C b)"
    and wait: "status (backup C b) \<noteq> NORMAL \<Longrightarrow> waiting t \<and> opNum t = opNum (backup C b)"
    and msgs: "\<And>ep m. (ep, m) \<in> set (netOut t) \<Longrightarrow> msg_ok (plog C) (commitNum (pri C)) m"
    and ack: "\<And>n. acks n (mset (netOut t)) \<le> (if opNum (backup C b) < n \<and> n \<le> opNum t then 1 else 0)"
  shows "cluster_inv eps (put_backup b t C)"
proof (rule backup_step_inv [OF inv])
  have sub: "holders eps n C \<subseteq> holders eps n (put_backup b t C)" for n
    using op view(2) by (auto simp: holders_def)
  then have le: "card (holders eps n C) \<le> card (holders eps n (put_backup b t C))" for n
    by (intro card_mono) simp_all
  show "card (holders eps n C) + acks n (mset (netOut t)) \<le> card (holders eps n (put_backup b t C))" for n
  proof (cases "opNum (backup C b) < n \<and> n \<le> opNum t")
    case True
    then have "status (backup C b) = NORMAL"
      using wait by force
    then have "holders eps n (put_backup b t C) = insert b (holders eps n C)" "b \<notin> holders eps n C"
      using b True by (auto simp: holders_def)
    then show ?thesis
      using ack [of n] by (simp split: if_splits)
  next
    case False
    have "acks n (mset (netOut t)) = 0"
      using ack [of n] unfolding if_not_P [OF False] by simp
    then show ?thesis
      using le [of n] by simp
  qed
  show "joined eps (put_backup b t C) j" if "j \<in> {1..<length eps}" for j
    using inv_joined [OF inv that] view wait by (cases "j = b") (auto simp: joined_def usable_def)
qed (use inv ok msgs in \<open>auto simp: cluster_inv_def\<close>)

section \<open>Each step keeps the invariant\<close>

lemma inv_pri:
  assumes "cluster_inv eps C"
  shows "regular (pri C)" "status (pri C) = NORMAL" "selfId (pri C) = 0" "priId (pri C) = 0"
    "replicas (pri C) = peers eps 0" "netOut (pri C) = []" "length (plog C) = unat (opNum (pri C))"
    "commitNum (pri C) \<le> opNum (pri C)" "viewNum (pri C) = 0"
proof -
  have ok: "pri_ok eps (pri C)"
    using assms by (simp add: cluster_inv_def)
  then show reg: "regular (pri C)" and "status (pri C) = NORMAL" "selfId (pri C) = 0"
    "priId (pri C) = 0" "replicas (pri C) = peers eps 0" "netOut (pri C) = []" "viewNum (pri C) = 0"
    unfolding pri_ok_def by blast+
  show "length (plog C) = unat (opNum (pri C))"
    using reg by (rule regular_length)
  show "commitNum (pri C) \<le> opNum (pri C)"
    using reg unfolding regular_def by blast
qed

lemma client_begin_inv:
  assumes inv: "cluster_inv eps C" and pn: "pending C = None" and ne: "opNum (pri C) \<noteq> - 1"
    and p: "p = op_prep ty k v (pri C)" and b: "op_begin nw p (pri C) = (q, t)"
  shows "cluster_inv eps ((put_pri t C)\<lparr>pending := Some p\<rparr>)"
proof -
  note f = inv_pri [OF inv]
  note e = replicate_begin_effect [OF b [unfolded op_begin_def]]
  have num: "pi_opNum p = opNum (pri C) + 1"
    by (simp add: p op_prep_def)
  note r = op_begin_regular [OF b f(1) num ne]
  have eq: "commitNum (pri C) = opNum (pri C)"
    using inv pn by (simp add: cluster_inv_def pending_ok_def)
  have un: "unat (opNum (pri C) + 1) = Suc (unat (opNum (pri C)))"
    using ne by (rule unat_plus1)
  have last: "log_ops (oplog t) ! unat (opNum (pri C)) = prep_op p"
    using f(7) by (simp add: r(2) nth_append)
  have pos: "0 < opNum (pri C) + 1"
    by (simp add: word_less_nat_alt un)
  show ?thesis
  proof (rule put_pri_inv [OF inv r(1) _ _ _ _ _ _ r(2)])
    show "pending_ok (Some p) t"
      using ne last by (simp add: pending_ok_def r(3) num eq)
    show "msg_ok (plog C @ [prep_op p]) (commitNum t) m \<and> (\<nexists>r. m = PrepareOk r)"
      if "(ep, m) \<in> set (netOut t)" for ep m
    proof -
      have "m = Prepare p"
        using e(9) that f(6) by auto
      then show ?thesis
        using pos f(7) by (simp add: prep_ok_def num un nth_append)
    qed
    show "WaitMap_cnt n (repWaitMap t) \<le> WaitMap_cnt n (repWaitMap (pri C)) +
        (if opNum (pri C) < n \<and> n \<le> opNum t then 1 else 0)" for n
      using e(10) [of n] ne by (auto simp: num r(3) plus1_greater_iff)
    show "quorumReached (1 + card (holders eps (commitNum t) C)) t" if "0 < commitNum t"
      using inv that by (simp add: cluster_inv_def durable_def r(3) quorumReached_def
          getMajorityCnt_def e(5))
  qed (use f r e ne in \<open>simp_all add: less_imp_le plus1_greater_iff\<close>)
qed

lemma client_finish_inv:
  assumes inv: "cluster_inv eps C" and pn: "pending C = Some p"
    and q: "quorumReached (WaitMap_cnt (pi_opNum p) (repWaitMap (pri C))) (pri C)"
    and fin: "op_finish nw p (pri C) = Return () t"
  shows "cluster_inv eps ((put_pri t C)\<lparr>pending := None\<rparr>)"
proof -
  note f = inv_pri [OF inv]
  have pend: "opNum (pri C) = commitNum (pri C) + 1" "commitNum (pri C) \<noteq> - 1"
    "pi_opNum p = opNum (pri C)" "plog C ! unat (commitNum (pri C)) = prep_op p"
    using inv pn by (simp_all add: cluster_inv_def pending_ok_def)
  obtain u where fu: "op_finish nw p (pri C) = Return () u" and r: "regular u"
    "log_ops (oplog u) = plog C" "rstate u = rs_commitNum_update (\<lambda>_. opNum (pri C)) (rstate (pri C))"
    "selfId u = selfId (pri C)" "replicas u = replicas (pri C)"
    "\<exists>out. netOut u = netOut (pri C) @ out \<and> set out \<subseteq> snd ` set (replicas (pri C)) \<times>
       {message.Commit \<lparr>ci_viewNum = pi_viewNum p, ci_commitNum = opNum (pri C)\<rparr>}"
    "\<And>n. WaitMap_cnt n (repWaitMap u) \<le> WaitMap_cnt n (repWaitMap (pri C))"
    by (rule op_finish_regular [OF f(1) pend(3,1,2,4), of nw]) blast
  have "u = t"
    using fu fin by simp
  note r = r [unfolded this]
  have quo: "quorumReached (1 + card (holders eps (opNum (pri C)) C)) (pri C)"
    using q inv_count [OF inv, of "pi_opNum p"] by (simp add: quorumReached_def pend(3))
  show ?thesis
  proof (rule put_pri_inv [OF inv r(1), where M = "[]"])
    show "msg_ok (plog C @ []) (commitNum t) m \<and> (\<nexists>r. m = PrepareOk r)"
      if "(ep, m) \<in> set (netOut t)" for ep m
      using r(6) that f(6) by (auto simp: r(3))
    show "WaitMap_cnt n (repWaitMap t) \<le> WaitMap_cnt n (repWaitMap (pri C)) +
        (if opNum (pri C) < n \<and> n \<le> opNum t then 1 else 0)" for n
      using r(7) [of n] by simp
    show "quorumReached (1 + card (holders eps (commitNum t) C)) t"
      using quo by (simp add: r quorumReached_def getMajorityCnt_def)
  qed (use f r in \<open>simp_all add: pending_ok_def\<close>)
qed

lemma heartBeat_primary:
  assumes "status s = NORMAL" "selfId s = priId s" "heartBeat env s = Return r t"
  shows "sends (snd ` set (replicas s)) (message.Commit \<lparr>ci_viewNum = viewNum s, ci_commitNum = commitNum s\<rparr>) s t"
proof -
  have "t = invokeForAllReplicas (selfId s)
      (invokeCommit (hbe_net env) \<lparr>ci_viewNum = viewNum s, ci_commitNum = commitNum s\<rparr>) s"
    using assms by (simp add: heartBeat_def VsReplicator_isPrimary_def)
  then show ?thesis
    by (simp only:) (rule sends_broadcast, rule invokeCommit_sends)
qed

lemma heart_beat_inv:
  assumes inv: "cluster_inv eps C" and hb: "heartBeat env (pri C) = Return r t"
  shows "cluster_inv eps (put_pri t C)"
proof -
  note f = inv_pri [OF inv]
  note s = sends_frame [OF heartBeat_primary [OF f(2) _ hb]]
  have reg: "regular t"
    using f(1) regular_cong [of t "pri C"] s(1-3) f(3,4) by simp
  have "cluster_inv eps ((put_pri t C)\<lparr>pending := pending C\<rparr>)"
  proof (rule put_pri_inv [OF inv reg, where M = "[]"])
    show "pending_ok (pending C) t"
      using inv s(2,3) f(3,4) by (simp add: cluster_inv_def pending_ok_def split: option.splits)
    show "msg_ok (plog C @ []) (commitNum t) m \<and> (\<nexists>r. m = PrepareOk r)"
      if "(ep, m) \<in> set (netOut t)" for ep m
      using s(2,10) that f(3,4,6) by auto
    show "quorumReached (1 + card (holders eps (commitNum t) C)) t" if "0 < commitNum t"
      using inv that s(2,5) f(3,4)
      by (simp add: cluster_inv_def durable_def quorumReached_def getMajorityCnt_def)
  qed (use f s in simp_all)
  then show ?thesis
    by (simp add: put_pri_def)
qed

lemma recv_prepareOk_inv:
  assumes inv: "cluster_inv eps C" and m: "(ep, PrepareOk r) \<in># net C"
  shows "cluster_inv eps (put_pri (processPrepareOk r (pri C)) (take_msg (ep, PrepareOk r) C))"
proof -
  let ?s = "processPrepareOk r (pri C)" and ?D = "put_pri (processPrepareOk r (pri C)) (take_msg (ep, PrepareOk r) C)"
  note f = inv_pri [OF inv] and g = processPrepareOk_frame [where r = r and s = "pri C"]
  obtain N where N: "net C = add_mset (ep, PrepareOk r) N"
    using m by (metis insert_DiffM)
  have "count_ok eps ?D"
    unfolding count_ok_def
  proof
    fix n
    show "WaitMap_cnt n (repWaitMap (pri ?D)) + acks n (net ?D) \<le>
        (if n \<le> opNum (pri ?D) then 1 else 0) + card (holders eps n ?D)"
      using inv_count [OF inv, of n] g(7) [of n] by (simp add: N g(1-6) f(6) split: if_splits)
  qed
  moreover have "pri_ok eps (flush ?s)" "pending_ok (pending C) (flush ?s)"
    using inv by (simp_all add: cluster_inv_def pri_ok_def pending_ok_def g(1-6)
        regular_cong [of "flush ?s" "pri C"] split: option.splits)
  moreover have "durable eps ?D"
    using inv by (simp add: cluster_inv_def durable_def quorumReached_def getMajorityCnt_def g(1-6))
  ultimately show ?thesis
    using inv joined_mono [of eps C _ ?D "[]"] by (auto simp: cluster_inv_def g(1-6) f(6) dest: in_diffD)
qed

lemma processPrepare_frame:
  "kvMap (processPrepare p s) = kvMap s" "rstate (processPrepare p s) = rstate s"
  "oplog (processPrepare p s) = oplog s" "replicas (processPrepare p s) = replicas s"
  "replicatorRegistered (processPrepare p s) = replicatorRegistered s"
  "netOut (processPrepare p s) = netOut s"
  "set (prepReqQ (processPrepare p s)) \<subseteq> insert p (set (prepReqQ s))"
  by (simp_all add: processPrepare_def CQueue_push_def subset_insertI)

lemma recv_prepare_inv:
  assumes inv: "cluster_inv eps C" and b: "b \<in> {1..<length eps}" and m: "(ep, Prepare p) \<in># net C"
  shows "cluster_inv eps (put_backup b (processPrepare p (backup C b)) (take_msg (ep, Prepare p) C))"
proof (rule put_backup_inv [OF take_msg_inv [OF inv] b])
  have ok: "backup_ok eps (plog C) (commitNum (pri C)) (backup C b)"
    using inv b by (simp add: cluster_inv_def)
  have p: "prep_ok (plog C) p"
    using inv_msg [OF inv m] by simp
  note g = processPrepare_frame [of p "backup C b"]
  have reg: "regular (flush (processPrepare p (backup C b)))"
    using ok by (subst regular_cong [of _ "backup C b"]) (simp_all add: backup_ok_def g)
  show "backup_ok eps (plog (take_msg (ep, Prepare p) C)) (commitNum (pri (take_msg (ep, Prepare p) C)))
      (flush (processPrepare p (backup C b)))"
    using ok p reg g(7) by (auto simp: backup_ok_def g(1-6))
  show "acks n (mset (netOut (processPrepare p (backup C b)))) \<le>
      (if opNum (backup (take_msg (ep, Prepare p) C) b) < n \<and> n \<le> opNum (processPrepare p (backup C b))
       then 1 else 0)" for n
    using ok by (simp add: g backup_ok_def)
qed (use inv_joined [OF inv b] in \<open>auto simp: processPrepare_frame(1-6) processPrepare_not_normal backup_ok_def\<close>)

lemma recv_commit_inv:
  assumes inv: "cluster_inv eps C" and b: "b \<in> {1..<length eps}" and m: "(ep, message.Commit c) \<in># net C"
    and pc: "processCommit now c (backup C b) = Return () t"
  shows "cluster_inv eps (put_backup b t (take_msg (ep, message.Commit c) C))"
proof -
  let ?s = "backup C b"
  have ok: "backup_ok eps (plog C) (commitNum (pri C)) ?s"
    using inv b by (simp add: cluster_inv_def)
  then have reg: "regular ?s" and cb: "replicatorRegistered ?s"
    by (simp_all add: backup_ok_def)
  have c: "ci_commitNum c \<le> commitNum (pri C)"
    using inv_msg [OF inv m] by simp
  have t: "regular t \<and> log_ops (oplog t) = log_ops (oplog ?s) \<and> opNum t = opNum ?s \<and> priId t = priId ?s \<and>
      replicas t = replicas ?s \<and> prepReqQ t = prepReqQ ?s \<and> netOut t = netOut ?s \<and>
      replicatorRegistered t \<and> commitNum t \<le> commitNum (pri C)"
  proof (cases "status ?s = NORMAL \<and> ci_viewNum c = viewNum ?s \<and> commitNum ?s < ci_commitNum c \<and>
      commitNum ?s < opNum ?s")
    case True
    have "commitNum ?s + 1 \<le> ci_commitNum c"
      using True by (simp add: inc_le)
    then have "commitNum ?s + 1 \<le> commitNum (pri C)"
      using c by (rule order_trans)
    then show ?thesis
      using True pc cb by - (rule processCommit_commits [OF reg cb, of c now], auto)
  next
    case False
    then show ?thesis
      using pc ok processCommit_skips [OF reg False] regular_cong [of "set_lastCommitTime now ?s" ?s]
      by (auto simp: backup_ok_def)
  qed
  show ?thesis
  proof (rule put_backup_inv [OF take_msg_inv [OF inv] b])
    show "backup_ok eps (plog (take_msg (ep, message.Commit c) C))
        (commitNum (pri (take_msg (ep, message.Commit c) C))) (flush t)"
      using ok t regular_cong [of "flush t" t] by (simp add: backup_ok_def)
    show "waiting t \<and> opNum t = opNum (backup (take_msg (ep, message.Commit c) C) b)"
      if "status (backup (take_msg (ep, message.Commit c) C) b) \<noteq> NORMAL"
      using that processCommit_not_normal [OF pc] inv_joined(2) [OF inv b] by (simp add: waiting_def)
  qed (use ok t view_of_processCommit [OF pc] in \<open>auto simp: backup_ok_def\<close>)
qed

lemma log_prepared_inv:
  assumes inv: "cluster_inv eps C" and b: "b \<in> {1..<length eps}" and nw: "no_lost_answer nw"
    and pp: "processPrepInfo nw (backup C b) = Some (Return () t)"
  shows "cluster_inv eps (put_backup b t C)"
proof -
  let ?s = "backup C b"
  have ok: "backup_ok eps (plog C) (commitNum (pri C)) ?s"
    using inv b by (simp add: cluster_inv_def)
  then have reg: "regular ?s" and ep: "map_of (replicas ?s) (priId ?s) = Some (eps ! 0)" and no: "netOut ?s = []"
    by (simp_all add: backup_ok_def)
  obtain p q where pq: "prepReqQ ?s = p # q"
    using pp by (cases "prepReqQ ?s") (auto simp: processPrepInfo_def processPrepInfo_wait_def)
  have view: "view_of t = view_of ?s" "status t = status ?s"
    using ep view_of_processPrepInfo [OF pp] by simp_all
  have norm: "status ?s = NORMAL"
    using inv_joined(2) [OF inv b] pq by (auto simp: waiting_def)
  show ?thesis
  proof (rule processPrepInfo_cases [OF pp pq ep])
    assume t: "t = ?s\<lparr>prepReqQ := q\<rparr>"
    show ?thesis
      by (rule put_backup_inv [OF inv b])
        (use ok pq view norm regular_cong [of "flush t" ?s] in \<open>auto simp: t backup_ok_def\<close>)
  next
    let ?r = "\<lparr>pr_viewNum = viewNum ?s, pr_opNum = opNum ?s + 1, pr_replicaId = selfId ?s\<rparr>"
    assume num: "pi_opNum p = opNum ?s + 1"
      and rs: "rstate t = rs_opNum_update (\<lambda>_. opNum ?s + 1) (rstate ?s)"
      and log: "oplog t = log_append p (oplog ?s)"
      and fr: "kvMap t = kvMap ?s" "replicas t = replicas ?s" "prepReqQ t = q"
        "replicatorRegistered t = replicatorRegistered ?s"
      and out: "no_lost_answer nw \<Longrightarrow> netOut t \<in> {netOut ?s, netOut ?s @ [(eps ! 0, PrepareOk ?r)]}"
    have p: "prep_ok (plog C) p"
      using ok pq by (simp add: backup_ok_def)
    then have ne: "opNum ?s \<noteq> - 1"
      using num by (auto simp: prep_ok_def)
    have un: "unat (opNum ?s + 1) = Suc (unat (opNum ?s))"
      using ne by (rule unat_plus1)
    note r = regular_append [OF reg num ne, of t]
    have r1: "regular t" and r2: "log_ops (oplog t) = log_ops (oplog ?s) @ [prep_op p]"
      using r by (simp_all add: rs log fr)
    show ?thesis
    proof (rule put_backup_inv [OF inv b])
      show "backup_ok eps (plog C) (commitNum (pri C)) (flush t)"
        using ok p pq r1 regular_cong [of "flush t" t]
        by (simp add: backup_ok_def r2 rs fr un prep_ok_def num take_Suc_conv_app_nth)
    qed (use out [OF nw] ne view norm in \<open>auto simp: no rs less_imp_le plus1_greater_iff\<close>)
  qed
qed

text \<open>Crash and recovery. Only the primary's answer carries a log.\<close>

lemma backup_answer:
  assumes inv: "cluster_inv eps C" and j: "j \<in> {1..<length eps}"
  shows "\<not> rrs_isPrimary (recovery_answer nonce (backup C j))"
proof -
  have "length eps < 2 ^ 64"
    using inv by (simp add: cluster_inv_def)
  then have "unat (of_nat j :: u64) = j"
    using j by (intro unat_of_nat_u64) simp
  then have "(of_nat j :: u64) \<noteq> 0"
    using j by force
  moreover have "selfId (backup C j) = of_nat j" "priId (backup C j) = 0"
    using inv_joined(1) [OF inv j] by (simp_all add: view_of_def)
  ultimately show ?thesis
    by (simp add: recovery_answer_def)
qed

lemma answer_from_primary:
  assumes inv: "cluster_inv eps C" and j: "j < length eps" and pri: "rrs_isPrimary (recovery_answer nonce (node C j))"
  shows "recovery_answer nonce (node C j) = primary_response nonce (pri C)"
proof -
  have "j = 0"
    using backup_answer [OF inv, of j] j pri by (cases "j = 0") (auto simp: node_def)
  then show ?thesis
    using inv_pri(3,4) [OF inv] by (simp add: node_def recovery_answer_def)
qed

lemma answers_inv:
  assumes inv: "cluster_inv eps C" and b: "b \<in> {1..<length eps}" and j: "j < length eps"
  shows "cluster_inv eps (answer j b C)"
proof (rule backup_step_inv [OF inv, where M = "{#}"])
  note f = inv_pri [OF inv]
  let ?r = "recovery_answer (lastNonce C b) (node C j)"
  have r: "answer_ok (plog C) (commitNum (pri C)) n ?r" if "rrs_isPrimary ?r" "n \<le> opNum (pri C)" for n
    unfolding answer_ok_def snapshot_def
    by (rule exI [of _ "pri C"]) (use f that answer_from_primary [OF inv j] in simp)
  show "joined eps (answer j b C) i" if "i \<in> {1..<length eps}" for i
    using inv_joined [OF inv that] r by (auto simp: joined_def usable_def)
qed (use inv in \<open>auto simp: cluster_inv_def holders_def\<close>)

lemma regular_new:
  assumes "start_replica i reps now u r = Return () s"
  shows "regular s" "rstate s = (ReplicaState_new now)\<lparr>rs_status := if r then RECOVERING else NORMAL\<rparr>"
    "selfId s = i" "replicas s = reps" "netOut s = []" "oplog s = InMemOpLog_new" "kvMap s = []"
    "replicatorRegistered s" "threadsStarted s" "prepReqQ s = []" "repWaitMap s = []"
    "viewStartInfoMap s = []" "viewChangeInfoMap s = []" "doViewChangeMap s = []" "startViewMap s = []"
    "respViewCnt s = []" "recoveryRespMap s = []" "recWaitMap s = []"
  using assms
  by (auto simp: start_replica_Return replica_new_def regular_def ReplicaState_new_def
      log_ops_def getLog_inv getLogEntry_def) (simp_all add: InMemOpLog_new_def)

lemma log_ops_new [simp]: "log_ops InMemOpLog_new = []"
  by (simp add: log_ops_def getLog_inv) (simp add: InMemOpLog_new_def)

lemma more_prepReqQ: "rch.more t = rch.more s \<Longrightarrow> prepReqQ t = prepReqQ s" for s t :: replica
  by (cases s; cases t) simp

lemma crashes_inv:
  assumes inv: "cluster_inv eps C" and b: "b \<in> {1..<length eps}"
    and st: "start_replica (of_nat b) (peers eps b) now u True = Return () s"
    and new: "\<forall>r \<in> set (inbox C b). rrs_nonce r \<noteq> nonce"
  shows "cluster_inv eps (restart b nonce s C)"
proof (rule backup_step_inv [OF inv, where M = "{#}"])
  note s = regular_new [OF st] and f = inv_pri [OF inv]
  have len: "length eps < 2 ^ 64"
    using inv by (simp add: cluster_inv_def)
  have "map_of (peers eps b) 0 = Some (eps ! 0)"
    using map_of_peers [OF len, of 0 b] b by force
  then have ok: "backup_ok eps (plog C) (commitNum (pri C)) s"
    using s by (simp add: backup_ok_def ReplicaState_new_def)
  show "backup_ok eps (plog C) (commitNum (pri C)) (backup (restart b nonce s C) j)" if "j \<in> {1..<length eps}" for j
    using inv_joined(3) [OF inv that] ok by simp
  have "view_of s = (of_nat b, 0, 0, peers eps b, [], [], [], [])" "status s = RECOVERING" "waiting s"
    using s by (simp_all add: view_of_def waiting_def ReplicaState_new_def)
  then show "joined eps (restart b nonce s C) j" if "j \<in> {1..<length eps}" for j
    using inv_joined [OF inv that] new by (cases "j = b") (auto simp: joined_def usable_def)
  have "opNum (backup C b) \<le> opNum (pri C)"
    using inv_joined(3) [OF inv b] f(7) by (simp add: backup_ok_def word_le_nat_alt)
  then have "holders eps n C \<subseteq> holders eps n (restart b nonce s C)" for n
    using s(2) inv_joined(2) [OF inv b] by (auto simp: holders_def usable_def intro: order_trans)
  then show "card (holders eps n C) + acks n {#} \<le> card (holders eps n (restart b nonce s C))" for n
    by (simp add: card_mono)
qed (use inv in \<open>auto simp: cluster_inv_def\<close>)

lemma recovers_inv:
  assumes inv: "cluster_inv eps C" and b: "b \<in> {1..<length eps}" and st: "status (backup C b) = RECOVERING"
    and nonce: "lastNonce C b = of_int (now div ns_per_sec)" and rs: "set rs \<subseteq> set (inbox C b)"
    and ret: "recover (woken_env nw now rs) (backup C b) = Return () t"
  shows "cluster_inv eps (put_backup b t C)"
proof -
  let ?s = "backup C b" and ?P = "snapshot (plog C) (commitNum (pri C)) (opAtCrash C b)"
  have w: "waiting ?s" "usable C b"
    using inv_joined(2) [OF inv b] st by auto
  have ok: "backup_ok eps (plog C) (commitNum (pri C)) ?s"
    using inv_joined(3) [OF inv b] .
  have idle: "replicatorRegistered ?s" "kvMap ?s = []" "recoveryRespMap ?s = []"
    using w(1) ok by (simp_all add: waiting_def backup_ok_def)
  have usable: "\<exists>p. regular p \<and> ?P p \<and> r = primary_response (lastNonce C b) p"
    if "r \<in> set rs" "rrs_nonce r = lastNonce C b" "rrs_isPrimary r" for r
    using w(2) rs that by (auto simp: usable_def answer_ok_def)
  obtain p where p: "?P p" "regular p" and t: "regular t" "log_ops (oplog t) = log_ops (oplog p)" "opNum t = opNum p"
    "commitNum t = commitNum p" "viewNum t = viewNum p" "priId t = selfId p" "status t = NORMAL" "rec_only ?s t"
    by (rule recover_returns [OF ret nonce idle, of ?P]) (use usable in auto)
  have kept: "rec_kept t = rec_kept ?s" and out: "\<forall>x \<in> set (netOut t). \<exists>q. snd x = RecoveryReq q"
    using t(8) ok by (auto simp: rec_only_def backup_ok_def)
  have k: "replicatorRegistered t" "replicas t = replicas ?s" "prepReqQ t = []" "view_of t = view_of ?s" "priId t = priId ?s"
    using kept idle(1) p(1) t(5,6) w(1) inv_joined(1) [OF inv b] more_prepReqQ [of t ?s]
    by (auto simp: rec_kept_def view_of_def waiting_def snapshot_def)
  show ?thesis
  proof (rule backup_step_inv [OF inv])
    show "backup_ok eps (plog C) (commitNum (pri C)) (backup (put_backup b t C) j)" if "j \<in> {1..<length eps}" for j
      using inv_joined(3) [OF inv that] ok t(1-4) k p(1) regular_cong [of "flush t" t] by (simp add: backup_ok_def snapshot_def)
    show "joined eps (put_backup b t C) j" if "j \<in> {1..<length eps}" for j
      using inv_joined [OF inv that] k(4) t(7) by (auto simp: joined_def usable_def)
    show "msg_ok (plog C) (commitNum (pri C)) m" if "(ep, m) \<in># mset (netOut t)" for ep m
      using out that by force
    have "opNum ?s \<le> opNum t" "opAtCrash C b \<le> opNum t"
      using w(1) p(1) t(3) by (simp_all add: waiting_def snapshot_def)
    then have "holders eps n C \<subseteq> holders eps n (put_backup b t C)" for n
      by (auto simp: holders_def intro: order_trans)
    moreover have "acks n (mset (netOut t)) = 0" for n
      using out by (intro acks_none) auto
    ultimately show "card (holders eps n C) + acks n (mset (netOut t)) \<le> card (holders eps n (put_backup b t C))" for n
      by (simp add: card_mono)
  qed simp_all
qed

lemma cluster_step_inv:
  assumes "cluster_inv eps C" "cluster_step eps C D"
  shows "cluster_inv eps D"
  using assms(2,1)
  by cases (simp_all add: client_begin_inv client_finish_inv heart_beat_inv recv_prepareOk_inv
      recv_prepare_inv recv_commit_inv log_prepared_inv crashes_inv answers_inv recovers_inv)

lemma cluster_init_inv:
  assumes init: "cluster_init eps now u C" and n: "0 < length eps" "length eps < 2 ^ 64"
  shows "cluster_inv eps C"
proof -
  have p: "start_replica 0 (peers eps 0) now u False = Return () (pri C)"
    and b: "\<And>b. b \<in> {1..<length eps} \<Longrightarrow> start_replica (of_nat b) (peers eps b) now u False = Return () (backup C b)"
    and e: "pending C = None" "net C = {#}"
    using init by (auto simp: cluster_init_def)
  note rp = regular_new [OF p]
  have "backup_ok eps (plog C) (commitNum (pri C)) (backup C j)" if j: "j \<in> {1..<length eps}" for j
    using regular_new [OF b [OF j]] rp map_of_peers [OF n(2,1), of j] j
    by (simp add: backup_ok_def ReplicaState_new_def)
  moreover have "pri_ok eps (pri C)" "pending_ok (pending C) (pri C)"
    using rp e by (simp_all add: pri_ok_def pending_ok_def ReplicaState_new_def)
  moreover have "count_ok eps C" "durable eps C"
    using rp e by (simp_all add: count_ok_def durable_def ReplicaState_new_def)
  moreover have "view_of (backup C j) = (of_nat j, 0, 0, peers eps j, [], [], [], []) \<and> status (backup C j) = NORMAL" if "j \<in> {1..<length eps}" for j
    using regular_new [OF b [OF that]] by (simp add: view_of_def ReplicaState_new_def)
  ultimately show ?thesis
    using e n(2) by (simp add: cluster_inv_def joined_def)
qed

lemma cluster_run_inv:
  assumes "cluster_run eps C D" "cluster_inv eps C"
  shows "cluster_inv eps D"
  using assms by induction (auto intro: cluster_step_inv)

lemmas reachable_inv = cluster_run_inv [OF _ cluster_init_inv]

section \<open>What the invariant gives\<close>

lemma inv_node:
  assumes inv: "cluster_inv eps C" and i: "i < length eps"
  shows "regular (node C i)" "commitNum (node C i) \<le> commitNum (pri C)"
    "unat (opNum (node C i)) \<le> length (plog C)"
    "log_ops (oplog (node C i)) = take (unat (opNum (node C i))) (plog C)"
proof -
  have "regular (node C i) \<and> commitNum (node C i) \<le> commitNum (pri C) \<and>
      unat (opNum (node C i)) \<le> length (plog C) \<and>
      log_ops (oplog (node C i)) = take (unat (opNum (node C i))) (plog C)"
  proof (cases "i = 0")
    case True
    then show ?thesis
      using inv_pri [OF inv] by (simp add: node_def)
  next
    case False
    then have "backup_ok eps (plog C) (commitNum (pri C)) (backup C i)"
      using inv i by (simp add: cluster_inv_def)
    then show ?thesis
      using False by (simp add: node_def backup_ok_def)
  qed
  then show "regular (node C i)" "commitNum (node C i) \<le> commitNum (pri C)"
    "unat (opNum (node C i)) \<le> length (plog C)"
    "log_ops (oplog (node C i)) = take (unat (opNum (node C i))) (plog C)"
    by blast+
qed

text \<open>Every node's store is the replay of a prefix of the primary's log.\<close>

lemma inv_node_store:
  assumes inv: "cluster_inv eps C" and i: "i < length eps"
  shows "map_of (kvMap (node C i)) = replay_ops (take (unat (commitNum (node C i))) (plog C))"
proof -
  note n = inv_node [OF inv i]
  have "commitNum (node C i) \<le> opNum (node C i)"
    using n(1) by (simp add: regular_def)
  then have "take (unat (commitNum (node C i))) (log_ops (oplog (node C i))) =
      take (unat (commitNum (node C i))) (plog C)"
    using n(4) by (simp add: word_le_nat_alt min_def)
  then show ?thesis
    using n(1) by (simp add: regular_def)
qed

text \<open>A node holds operation \<open>n\<close> when its log has the primary's operation under that number.\<close>

definition holds_op :: "OpInt \<Rightarrow> cluster \<Rightarrow> nat \<Rightarrow> bool" where
  "holds_op n C i \<longleftrightarrow> (\<exists>e e'. getLogEntry n (oplog (node C i)) = Some e \<and>
     getLogEntry n (oplog (pri C)) = Some e' \<and> entry_op e = entry_op e')"

lemma regular_log_entry:
  assumes "regular s" "0 < n" "n \<le> opNum s"
  shows "\<exists>e. getLogEntry n (oplog s) = Some e \<and> entry_op e = log_ops (oplog s) ! (unat n - 1)"
proof -
  have "0 < unat n" "unat n \<le> unat (opNum s)"
    using assms(2,3) by (auto simp: word_less_nat_alt word_le_nat_alt)
  then have "unat n - 1 < unat (opNum s)" "of_nat (Suc (unat n - 1)) = n"
    by auto
  then show ?thesis
    using regular_entry_nth [OF assms(1), of "unat n - 1"] by metis
qed

lemma holds_op_opNum:
  assumes inv: "cluster_inv eps C" and i: "i < length eps" and n: "0 < n" "n \<le> opNum (node C i)"
  shows "holds_op n C i"
proof -
  note s = inv_node [OF inv i]
  have le: "unat n \<le> unat (opNum (node C i))" "0 < unat n"
    using n by (auto simp: word_less_nat_alt word_le_nat_alt)
  then have "n \<le> opNum (pri C)"
    using s(3) inv_pri(7) [OF inv] by (simp add: word_le_nat_alt)
  then obtain e' where e': "getLogEntry n (oplog (pri C)) = Some e'" "entry_op e' = plog C ! (unat n - 1)"
    using regular_log_entry [OF inv_pri(1) [OF inv] n(1)] by blast
  obtain e where e: "getLogEntry n (oplog (node C i)) = Some e"
    "entry_op e = log_ops (oplog (node C i)) ! (unat n - 1)"
    using regular_log_entry [OF s(1) n] by blast
  have "entry_op e = entry_op e'"
    using e(2) e'(2) s(4) le by simp
  then show ?thesis
    using e(1) e'(1) by (auto simp: holds_op_def)
qed

text \<open>The nodes that hold a committed operation are, with those that are recovering, a quorum.\<close>

lemma committed_quorum:
  assumes inv: "cluster_inv eps C" and len: "0 < length eps" and n: "0 < n" "n \<le> commitNum (pri C)"
  shows "quorumReached (card {i. i < length eps \<and> (holds_op n C i \<or> status (node C i) = RECOVERING)}) (pri C)"
proof -
  let ?H = "holders eps (commitNum (pri C)) C" and ?S = "{i. i < length eps \<and> (holds_op n C i \<or> status (node C i) = RECOVERING)}"
  have pos: "0 < commitNum (pri C)"
    using n by (rule less_le_trans)
  have "quorumReached (1 + card ?H) (pri C)"
    using inv pos by (simp add: cluster_inv_def durable_def)
  moreover have "1 + card ?H = card (insert 0 ?H)"
    by (simp add: holders_def)
  moreover have "insert 0 ?H \<subseteq> ?S"
  proof
    fix i assume i: "i \<in> insert 0 ?H"
    then have l: "i < length eps"
      using len by (auto simp: holders_def)
    have "commitNum (pri C) \<le> opNum (node C i) \<or> status (node C i) = RECOVERING"
      using i inv_pri(8) [OF inv] by (auto simp: holders_def node_def)
    then have "n \<le> opNum (node C i) \<or> status (node C i) = RECOVERING"
      using n(2) order_trans by blast
    then show "i \<in> ?S"
      using l holds_op_opNum [OF inv l n(1)] by auto
  qed
  then have "card (insert 0 ?H) \<le> card ?S"
    by (intro card_mono) simp_all
  ultimately show ?thesis
    by (simp add: quorumReached_def)
qed

text \<open>The primary's log only grows, and its commit number too.\<close>

lemma cluster_step_log:
  assumes inv: "cluster_inv eps C" and st: "cluster_step eps C D"
  shows "(\<exists>M. plog D = plog C @ M) \<and> commitNum (pri C) \<le> commitNum (pri D)"
  using st
proof cases
  case (client_begin p ty k v nw q t)
  then have "pi_opNum p = opNum (pri C) + 1"
    by (simp add: op_prep_def)
  then show ?thesis
    using client_begin op_begin_regular [OF client_begin(5) inv_pri(1) [OF inv]] by simp
next
  case (client_finish p nw t)
  have pend: "opNum (pri C) = commitNum (pri C) + 1" "commitNum (pri C) \<noteq> - 1"
    "pi_opNum p = opNum (pri C)" "plog C ! unat (commitNum (pri C)) = prep_op p"
    using inv client_finish by (simp_all add: cluster_inv_def pending_ok_def)
  show ?thesis
    by (rule op_finish_regular [OF inv_pri(1) [OF inv] pend(3,1,2,4), of nw])
      (use client_finish inv_pri(8) [OF inv] in auto)
next
  case (heart_beat env r t)
  then show ?thesis
    using sends_frame(2,3) [OF heartBeat_primary [OF inv_pri(2) [OF inv] _ heart_beat(2)]]
      inv_pri(3,4) [OF inv] by simp
qed (simp_all add: processPrepareOk_frame(1-6))

lemma cluster_run_log:
  assumes "cluster_run eps C D" "cluster_inv eps C"
  shows "(\<exists>M. plog D = plog C @ M) \<and> commitNum (pri C) \<le> commitNum (pri D)"
  using assms
proof induction
  case (run_step C D E)
  then show ?case
    using cluster_step_log [OF cluster_run_inv [OF run_step(1)] run_step(2)]
    by (metis append_assoc order_trans)
qed simp

section \<open>Recoveries return\<close>

lemma fold_answer [simp]:
  "pri (fold (\<lambda>j. answer j b) js C) = pri C" "backup (fold (\<lambda>j. answer j b) js C) = backup C"
  "lastNonce (fold (\<lambda>j. answer j b) js C) = lastNonce C"
  "inbox (fold (\<lambda>j. answer j b) js C) b = inbox C b @ map (\<lambda>j. recovery_answer (lastNonce C b) (node C j)) js"
  by (induction js arbitrary: C) (simp_all add: node_def)

lemma answers_run:
  assumes "b \<in> {1..<length eps}" "status (backup C b) = RECOVERING" "\<forall>j \<in> set js. j < length eps \<and> status (node C j) = NORMAL"
  shows "cluster_run eps C (fold (\<lambda>j. answer j b) js C)"
  using assms
proof (induction js rule: rev_induct)
  case (snoc j js)
  let ?D = "fold (\<lambda>j. answer j b) js C"
  have "cluster_step eps ?D (answer j b ?D)"
    using snoc.prems by (intro answers) (auto simp: node_def)
  then show ?case
    using snoc run_step by simp
qed (simp add: run_refl)

lemma run_trans: "cluster_run eps D E \<Longrightarrow> cluster_run eps C D \<Longrightarrow> cluster_run eps C E"
  by (induction rule: cluster_run.induct) (auto intro: run_step)

text \<open>A recovering backup whose flag is not set returns from \<open>recover\<close> when the primary and a quorum answer it.\<close>

lemma answered_recovery_returns:
  assumes inv: "cluster_inv eps C" and b: "b \<in> {1..<length eps}" and st: "status (backup C b) = RECOVERING"
    and nonce: "lastNonce C b = of_int (now div ns_per_sec)"
    and flag: "\<not> receivedRespFromPri (backup C b)"
    and js: "distinct js" "set js \<subseteq> {..<length eps} - {b}" "0 \<in> set js" "quorumReached (length js) (pri C)"
    and rs: "rs = map (\<lambda>j. recovery_answer (lastNonce C b) (node C j)) js"
  obtains t where "recover (recovery_env nw now k rs) (backup C b) = Return () t" "status t = NORMAL"
    "log_ops (oplog t) = plog C" "opNum t = opNum (pri C)" "commitNum t = commitNum (pri C)"
    "map_of (kvMap t) = map_of (kvMap (pri C))"
proof -
  let ?n = "lastNonce C b" and ?s = "backup C b"
  note f = inv_pri [OF inv]
  have s: "waiting ?s" "replicas ?s = peers eps b" "replicatorRegistered ?s"
    using inv_joined [OF inv b] st by (auto simp: view_of_def backup_ok_def)
  have "viewNum (node C j) = viewNum (pri C)" if "j < length eps" for j
    using f(9) inv_joined(1) [OF inv, of j] that by (cases "j = 0") (simp_all add: node_def view_of_def)
  then have "rrs_viewNum (recovery_answer ?n (node C j)) = viewNum (pri C)" if "j < length eps" for j
    using that by (simp add: recovery_answer_def primary_response_def)
  then have ans: "\<forall>r \<in> set rs. rrs_nonce r = ?n \<and> rrs_viewNum r = viewNum (pri C) \<and>
      (rrs_isPrimary r \<longrightarrow> r = primary_response ?n (pri C))"
    using js(2) answer_from_primary [OF inv] by (auto simp: rs)
  have "card (set js) \<le> card ({..<length eps} - {b})"
    using js(2) by (intro card_mono) auto
  then have len: "length rs \<le> length (replicas ?s)"
    using js(1) b by (simp add: rs s(2) length_peers distinct_card)
  have "filter (\<lambda>r. rrs_viewNum r = viewNum (pri C)) rs = rs"
    using ans by (simp add: filter_id_conv)
  moreover have "length (peers eps b) = length (peers eps 0)"
    using b length_peers [of 0 eps] length_peers [of b eps] by fastforce
  ultimately have q: "quorumReached (length (filter (\<lambda>r. rrs_viewNum r = viewNum (pri C)) rs)) ?s"
    using js(4) by (simp add: rs quorumReached_def getMajorityCnt_def s(2) f(5))
  have "recovery_answer ?n (node C 0) = primary_response ?n (pri C)"
    using f(3,4) by (simp add: node_def recovery_answer_def)
  then have p: "primary_response ?n (pri C) \<in> set rs"
    using js(3) by (force simp: rs)
  have a: "\<forall>r \<in> set rs. rrs_nonce r = ?n \<and> rrs_viewNum r \<le> viewNum (pri C) \<and>
      (rrs_isPrimary r \<longrightarrow> r = primary_response ?n (pri C))"
    using ans by simp
  have idle: "kvMap ?s = []" "recWaitMap ?s = []" "respViewCnt ?s = []" "recoveryRespMap ?s = []"
    using s(1) by (simp_all add: waiting_def)
  show ?thesis
    by (rule recover_installs [OF f(1) s(3) idle flag nonce a p len q, of nw k]) (rule that)
qed

text \<open>A primary that crashes cannot come back while its view lasts, whoever answers and whenever it is woken: no backup
  answers as a primary.\<close>

lemma crashed_primary_stays_out:
  assumes inv: "cluster_inv eps C" and st: "start_replica 0 (peers eps 0) now u True = Return () s"
    and js: "set js \<subseteq> {1..<length eps}"
  shows "recover (woken_env nw now' (map (\<lambda>j. recovery_answer nonce (backup C j)) js)) s \<noteq> Return () t"
proof
  assume "recover (woken_env nw now' (map (\<lambda>j. recovery_answer nonce (backup C j)) js)) s = Return () t"
  from recover_needs_primary [OF this regular_new(17) [OF st]] show False
    using js backup_answer [OF inv] by auto
qed

section \<open>Executing schedules\<close>

text \<open>A schedule picks one step after the other, over a network that answers every call.\<close>

datatype action =
    ClientBegin OpType string string
  | ClientFinish
  | RecvPrepareOk PrepResponse
  | RecvPrepare nat PrepInfo
  | RecvCommit nat CommitInfo
  | LogPrepared nat
  | Crash nat Nonce
  | Answer nat nat
  | Recovers nat

definition good_net :: network where
  "good_net m ep n = (True, CallOk)"

fun act :: "EndPoint list \<Rightarrow> action \<Rightarrow> cluster \<Rightarrow> cluster option" where
  "act eps (ClientBegin ty k v) C =
     (if pending C = None \<and> opNum (pri C) \<noteq> - 1 then
        let p = op_prep ty k v (pri C)
        in Some ((put_pri (snd (op_begin good_net p (pri C))) C)\<lparr>pending := Some p\<rparr>)
      else None)"
| "act eps ClientFinish C =
     (case pending C of
        None \<Rightarrow> None
      | Some p \<Rightarrow>
          if quorumReached (WaitMap_cnt (pi_opNum p) (repWaitMap (pri C))) (pri C) then
            (case op_finish good_net p (pri C) of
               Return _ t \<Rightarrow> Some ((put_pri t C)\<lparr>pending := None\<rparr>)
             | _ \<Rightarrow> None)
          else None)"
| "act eps (RecvPrepareOk r) C =
     (if (eps ! 0, PrepareOk r) \<in># net C
      then Some (put_pri (processPrepareOk r (pri C)) (take_msg (eps ! 0, PrepareOk r) C)) else None)"
| "act eps (RecvPrepare b p) C =
     (if 1 \<le> b \<and> b < length eps \<and> (eps ! b, Prepare p) \<in># net C
      then Some (put_backup b (processPrepare p (backup C b)) (take_msg (eps ! b, Prepare p) C)) else None)"
| "act eps (RecvCommit b c) C =
     (if 1 \<le> b \<and> b < length eps \<and> (eps ! b, message.Commit c) \<in># net C
      then case processCommit 0 c (backup C b) of
          Return _ t \<Rightarrow> Some (put_backup b t (take_msg (eps ! b, message.Commit c) C))
        | _ \<Rightarrow> None
      else None)"
| "act eps (LogPrepared b) C =
     (if 1 \<le> b \<and> b < length eps
      then case processPrepInfo good_net (backup C b) of
          Some (Return _ t) \<Rightarrow> Some (put_backup b t C)
        | _ \<Rightarrow> None
      else None)"
| "act eps (Crash b nonce) C =
     (if 1 \<le> b \<and> b < length eps \<and> list_all (\<lambda>r. rrs_nonce r \<noteq> nonce) (inbox C b)
      then case start_replica (of_nat b) (peers eps b) 0 False True of
          Return _ s \<Rightarrow> Some (restart b nonce s C)
        | _ \<Rightarrow> None
      else None)"
| "act eps (Answer j b) C =
     (if 1 \<le> b \<and> b < length eps \<and> j < length eps \<and> status (backup C b) = RECOVERING \<and> status (node C j) = NORMAL
      then Some (answer j b C) else None)"
| "act eps (Recovers b) C =
     (let now = ns_per_sec * uint (lastNonce C b)
      in if 1 \<le> b \<and> b < length eps \<and> status (backup C b) = RECOVERING
         then case recover (woken_env good_net now (inbox C b)) (backup C b) of
             Return _ t \<Rightarrow> Some (put_backup b t C)
           | _ \<Rightarrow> None
         else None)"

fun acts :: "EndPoint list \<Rightarrow> action list \<Rightarrow> cluster \<Rightarrow> cluster option" where
  "acts eps [] C = Some C"
| "acts eps (a # as) C = (case act eps a C of None \<Rightarrow> None | Some D \<Rightarrow> acts eps as D)"

lemma good_net_once: "no_lost_answer good_net"
  by (simp add: no_lost_answer_def good_net_def)

lemma act_step: "act eps a C = Some D \<Longrightarrow> cluster_step eps C D"
proof (cases a)
  case (LogPrepared b)
  assume "act eps a C = Some D"
  then show ?thesis
    unfolding LogPrepared by (auto simp: good_net_once split: if_splits option.splits res.splits intro!: log_prepared)
next
  case (Crash b nonce)
  assume "act eps a C = Some D"
  then show ?thesis
    unfolding Crash by (auto simp: list_all_iff split: if_splits res.splits intro!: crashes)
next
  case (Answer j b)
  assume "act eps a C = Some D"
  then show ?thesis
    unfolding Answer by (auto split: if_splits intro!: answers)
next
  case (Recovers b)
  assume "act eps a C = Some D"
  then obtain t where t: "b \<in> {1..<length eps}" "status (backup C b) = RECOVERING" "D = put_backup b t C"
    "recover (woken_env good_net (ns_per_sec * uint (lastNonce C b)) (inbox C b)) (backup C b) = Return () t"
    unfolding Recovers by (auto simp: Let_def split: if_splits res.splits)
  have "lastNonce C b = of_int (ns_per_sec * uint (lastNonce C b) div ns_per_sec)"
    by (simp add: ns_per_sec_def)
  then show ?thesis
    unfolding t(3) by (rule recovers [OF t(1,2) _ subset_refl t(4)])
qed (auto simp: Let_def good_net_once split: if_splits option.splits res.splits
    intro!: cluster_step.intros(1-6) prod.collapse [symmetric])

lemma run_trans_step: "cluster_run eps D E \<Longrightarrow> cluster_step eps C D \<Longrightarrow> cluster_run eps C E"
  by (induction rule: cluster_run.induct) (auto intro: cluster_run.intros)

lemma acts_run: "acts eps as C = Some D \<Longrightarrow> cluster_run eps C D"
  by (induction eps as C rule: acts.induct)
    (auto intro: run_refl run_trans_step act_step split: option.splits)

text \<open>Three nodes; one client writes a key and the first backup follows to the commit.\<close>

definition ex_eps :: "EndPoint list" where
  "ex_eps = map (\<lambda>p. \<lparr>ep_ip = ''10.0.0.1'', ep_port = p\<rparr>) [''7000'', ''7001'', ''7002'']"

definition started :: "ReplicaId \<Rightarrow> (ReplicaId, EndPoint) umap \<Rightarrow> replica" where
  "started i reps = (replica_new i reps 0 False)\<lparr>replicatorRegistered := True, threadsStarted := True\<rparr>"

definition ex_init :: cluster where
  "ex_init = \<lparr>pri = started 0 (peers ex_eps 0), pending = None,
     backup = (\<lambda>b. started (of_nat b) (peers ex_eps b)), net = {#}, inbox = (\<lambda>b. []), lastNonce = (\<lambda>b. 0),
     opAtCrash = (\<lambda>b. 0)\<rparr>"

definition ex_prep :: PrepInfo where
  "ex_prep = \<lparr>pi_viewNum = 0, pi_kvPair = \<lparr>kvp_key = ''/a'', kvp_val = ''1''\<rparr>, pi_opNum = 1,
     pi_opType = UPDATE, pi_commitNum = 0\<rparr>"

definition ex_schedule :: "action list" where
  "ex_schedule = [ClientBegin UPDATE ''/a'' ''1'', RecvPrepare 1 ex_prep, LogPrepared 1,
     RecvPrepareOk \<lparr>pr_viewNum = 0, pr_opNum = 1, pr_replicaId = 1\<rparr>, ClientFinish,
     RecvCommit 1 \<lparr>ci_viewNum = 0, ci_commitNum = 1\<rparr>]"

lemma ex_init_ok: "cluster_init ex_eps 0 False ex_init"
  by (simp add: cluster_init_def ex_init_def start_replica_Return started_def replica_new_def
      ReplicaState_new_def)

end
