(* ===== verification/Xdr.thy ===== *)
theory Xdr
  imports VrTypes
begin

text \<open>
  The serialisation functions generated from the interface files (\<open>xdr_traits<...>::save\<close> and
  \<open>load\<close> in \<open>include/kvStore.hh\<close>, \<open>server/vrTypes.hh\<close>, \<open>vsReplication.hh\<close>,
  \<open>viewChange.hh\<close> and \<open>recovery.hh\<close>) and the assignment of the union \<open>Result\<close>.

  They are templates over an archive of the XDR library, which is not part of the program: the
  archive is an argument here too. It says how the primitive types are written and read; the
  locale \<open>xdr_archive\<close> states that reading gives back what was written, and the encoding of
  RFC 4506 is an instance of it.
\<close>

section \<open>Archives\<close>

type_synonym ('w, 'a) loader = "'w list \<Rightarrow> ('a \<times> 'w list) option"

record 'w archive =
  put_u32 :: "u32 \<Rightarrow> 'w list"
  get_u32 :: "('w, u32) loader"
  put_u64 :: "u64 \<Rightarrow> 'w list"
  get_u64 :: "('w, u64) loader"
  put_bool :: "bool \<Rightarrow> 'w list"
  get_bool :: "('w, bool) loader"
  put_Error :: "Error \<Rightarrow> 'w list"
  get_Error :: "('w, Error) loader"
  put_OpType :: "OpType \<Rightarrow> 'w list"
  get_OpType :: "('w, OpType) loader"
  put_xstring :: "string \<Rightarrow> 'w list"
  get_xstring :: "nat \<Rightarrow> ('w, string) loader"
  put_xvector :: "'w list list \<Rightarrow> 'w list"
  get_strings :: "('w, string) loader \<Rightarrow> ('w, string list) loader"
  get_entries :: "('w, LogEntry) loader \<Rightarrow> ('w, LogEntry list) loader"

text \<open>Reading one field after the other.\<close>

definition load_bind :: "('w, 'a) loader \<Rightarrow> ('a \<Rightarrow> ('w, 'b) loader) \<Rightarrow> ('w, 'b) loader" where
  "load_bind d f ws = (case d ws of None \<Rightarrow> None | Some (x, r) \<Rightarrow> f x r)"

definition load_ret :: "'a \<Rightarrow> ('w, 'a) loader" where
  "load_ret x ws = Some (x, ws)"

text \<open>The bound of an \<open>xstring<>\<close> without an explicit one.\<close>

definition XDR_MAX_LEN :: nat where
  "XDR_MAX_LEN = 2 ^ 32 - 1"

section \<open>The client interface\<close>

definition save_KvPair :: "'w archive \<Rightarrow> KvPair \<Rightarrow> 'w list" where
  "save_KvPair ar obj = put_xstring ar (kvp_key obj) @ put_xstring ar (kvp_val obj)"

definition load_KvPair :: "'w archive \<Rightarrow> ('w, KvPair) loader" where
  "load_KvPair ar =
     load_bind (get_xstring ar 512) (\<lambda>k.
     load_bind (get_xstring ar XDR_MAX_LEN) (\<lambda>v.
     load_ret \<lparr>kvp_key = k, kvp_val = v\<rparr>))"

definition union_field_name :: "u32 \<Rightarrow> string" where
  "union_field_name which = (if which = 1 then ''val'' else if which = 2 then ''keys'' else ''err'')"

text \<open>The selected arm follows the discriminant.\<close>

fun save_Result :: "'w archive \<Rightarrow> Result \<Rightarrow> 'w list" where
  "save_Result ar (Res_val v) = put_u32 ar 1 @ put_xstring ar v"
| "save_Result ar (Res_keys ks) = put_u32 ar 2 @ put_xvector ar (map (put_xstring ar) ks)"
| "save_Result ar (Res_err d e) = put_u32 ar d @ put_Error ar e"

text \<open>
  \<open>load\<close> reads into an existing object: it first sets its discriminant, then reads the arm that
  the object then has.
\<close>

fun load_arm :: "'w archive \<Rightarrow> Result \<Rightarrow> ('w, Result) loader" where
  "load_arm ar (Res_val _) = load_bind (get_xstring ar XDR_MAX_LEN) (\<lambda>v. load_ret (Res_val v))"
| "load_arm ar (Res_keys _) =
     load_bind (get_strings ar (get_xstring ar XDR_MAX_LEN)) (\<lambda>ks. load_ret (Res_keys ks))"
| "load_arm ar (Res_err d _) = load_bind (get_Error ar) (\<lambda>e. load_ret (Res_err d e))"

definition load_Result :: "'w archive \<Rightarrow> Result \<Rightarrow> ('w, Result) loader" where
  "load_Result ar obj =
     load_bind (get_u32 ar) (\<lambda>which. load_arm ar (Result_set_discriminant which obj))"

text \<open>
  The size of a serialised result; the sizes of the arms are the library's.
\<close>

record field_sizes =
  size_xstring :: "string \<Rightarrow> nat"
  size_strings :: "string list \<Rightarrow> nat"
  size_Error :: "Error \<Rightarrow> nat"

fun field_size :: "field_sizes \<Rightarrow> Result \<Rightarrow> nat" where
  "field_size sz (Res_val v) = size_xstring sz v"
| "field_size sz (Res_keys ks) = size_strings sz ks"
| "field_size sz (Res_err d e) = size_Error sz e"

definition Result_serial_size :: "field_sizes \<Rightarrow> Result \<Rightarrow> nat" where
  "Result_serial_size sz obj = field_size sz obj + 4"

text \<open>
  Copy assignment of the union. With different arms it destroys the old arm, sets the discriminant
  to \<open>uint32_t(-1)\<close> and constructs the arm of that discriminant from the source, which is always
  the error arm: \<^term>\<open>None\<close> is the undefined behaviour of reading an inactive arm.
\<close>

fun construct_from :: "u32 \<Rightarrow> Result \<Rightarrow> Result option" where
  "construct_from which (Res_val v) = (if xdr_field_number which = 1 then Some (Res_val v) else None)"
| "construct_from which (Res_keys ks) = (if xdr_field_number which = 2 then Some (Res_keys ks) else None)"
| "construct_from which (Res_err d e) = (if xdr_field_number which = 3 then Some (Res_err which e) else None)"

fun with_discriminant :: "u32 \<Rightarrow> Result \<Rightarrow> Result" where
  "with_discriminant d (Res_err d' e) = Res_err d e"
| "with_discriminant d r = r"

text \<open>The copy and the move constructor construct the arm of the source's discriminant.\<close>

definition Result_copy :: "Result \<Rightarrow> Result option" where
  "Result_copy source = construct_from (Result_discriminant source) source"

definition Result_assign :: "Result \<Rightarrow> Result \<Rightarrow> Result option" where
  "Result_assign obj source =
     map_option (with_discriminant (Result_discriminant source))
       (if xdr_field_number (Result_discriminant obj) = xdr_field_number (Result_discriminant source)
        then construct_from (Result_discriminant obj) source
        else construct_from (- 1) source)"

section \<open>The replica interfaces\<close>

definition save_LogEntry :: "'w archive \<Rightarrow> LogEntry \<Rightarrow> 'w list" where
  "save_LogEntry ar obj = save_KvPair ar (le_kvPair obj) @ put_OpType ar (le_opType obj) @
     put_u64 ar (le_opNum obj) @ put_bool ar (le_committed obj)"

definition load_LogEntry :: "'w archive \<Rightarrow> ('w, LogEntry) loader" where
  "load_LogEntry ar =
     load_bind (load_KvPair ar) (\<lambda>kv.
     load_bind (get_OpType ar) (\<lambda>t.
     load_bind (get_u64 ar) (\<lambda>n.
     load_bind (get_bool ar) (\<lambda>c.
     load_ret \<lparr>le_kvPair = kv, le_opType = t, le_opNum = n, le_committed = c\<rparr>))))"

abbreviation save_OpLog :: "'w archive \<Rightarrow> OpLog \<Rightarrow> 'w list" where
  "save_OpLog ar log \<equiv> put_xvector ar (map (save_LogEntry ar) log)"

abbreviation load_OpLog :: "'w archive \<Rightarrow> ('w, OpLog) loader" where
  "load_OpLog ar \<equiv> get_entries ar (load_LogEntry ar)"

definition save_PrepInfo :: "'w archive \<Rightarrow> PrepInfo \<Rightarrow> 'w list" where
  "save_PrepInfo ar obj = put_u64 ar (pi_viewNum obj) @ save_KvPair ar (pi_kvPair obj) @
     put_u64 ar (pi_opNum obj) @ put_OpType ar (pi_opType obj) @ put_u64 ar (pi_commitNum obj)"

definition load_PrepInfo :: "'w archive \<Rightarrow> ('w, PrepInfo) loader" where
  "load_PrepInfo ar =
     load_bind (get_u64 ar) (\<lambda>v.
     load_bind (load_KvPair ar) (\<lambda>kv.
     load_bind (get_u64 ar) (\<lambda>n.
     load_bind (get_OpType ar) (\<lambda>t.
     load_bind (get_u64 ar) (\<lambda>c.
     load_ret \<lparr>pi_viewNum = v, pi_kvPair = kv, pi_opNum = n, pi_opType = t, pi_commitNum = c\<rparr>)))))"

definition save_CommitInfo :: "'w archive \<Rightarrow> CommitInfo \<Rightarrow> 'w list" where
  "save_CommitInfo ar obj = put_u64 ar (ci_viewNum obj) @ put_u64 ar (ci_commitNum obj)"

definition load_CommitInfo :: "'w archive \<Rightarrow> ('w, CommitInfo) loader" where
  "load_CommitInfo ar =
     load_bind (get_u64 ar) (\<lambda>v. load_bind (get_u64 ar) (\<lambda>c.
     load_ret \<lparr>ci_viewNum = v, ci_commitNum = c\<rparr>))"

definition save_PrepResponse :: "'w archive \<Rightarrow> PrepResponse \<Rightarrow> 'w list" where
  "save_PrepResponse ar obj =
     put_u64 ar (pr_viewNum obj) @ put_u64 ar (pr_opNum obj) @ put_u64 ar (pr_replicaId obj)"

definition load_PrepResponse :: "'w archive \<Rightarrow> ('w, PrepResponse) loader" where
  "load_PrepResponse ar =
     load_bind (get_u64 ar) (\<lambda>v. load_bind (get_u64 ar) (\<lambda>n. load_bind (get_u64 ar) (\<lambda>i.
     load_ret \<lparr>pr_viewNum = v, pr_opNum = n, pr_replicaId = i\<rparr>)))"

definition save_ViewChangeRequest :: "'w archive \<Rightarrow> ViewChangeRequest \<Rightarrow> 'w list" where
  "save_ViewChangeRequest ar obj = put_u64 ar (vcr_viewNum obj) @ put_u64 ar (vcr_replicaId obj)"

definition load_ViewChangeRequest :: "'w archive \<Rightarrow> ('w, ViewChangeRequest) loader" where
  "load_ViewChangeRequest ar =
     load_bind (get_u64 ar) (\<lambda>v. load_bind (get_u64 ar) (\<lambda>i.
     load_ret \<lparr>vcr_viewNum = v, vcr_replicaId = i\<rparr>))"

definition save_ViewChangeInfo :: "'w archive \<Rightarrow> ViewChangeInfo \<Rightarrow> 'w list" where
  "save_ViewChangeInfo ar obj = put_u64 ar (vci_viewNum obj) @ save_OpLog ar (vci_opLog obj) @
     put_u64 ar (vci_oldViewNum obj) @ put_u64 ar (vci_opNum obj) @ put_u64 ar (vci_commitNum obj) @
     put_u64 ar (vci_replicaId obj)"

definition load_ViewChangeInfo :: "'w archive \<Rightarrow> ('w, ViewChangeInfo) loader" where
  "load_ViewChangeInfo ar =
     load_bind (get_u64 ar) (\<lambda>v.
     load_bind (load_OpLog ar) (\<lambda>l.
     load_bind (get_u64 ar) (\<lambda>ov.
     load_bind (get_u64 ar) (\<lambda>n.
     load_bind (get_u64 ar) (\<lambda>c.
     load_bind (get_u64 ar) (\<lambda>i.
     load_ret \<lparr>vci_viewNum = v, vci_opLog = l, vci_oldViewNum = ov, vci_opNum = n, vci_commitNum = c,
               vci_replicaId = i\<rparr>))))))"

definition save_ViewStartInfo :: "'w archive \<Rightarrow> ViewStartInfo \<Rightarrow> 'w list" where
  "save_ViewStartInfo ar obj = put_u64 ar (vsi_viewNum obj) @ save_OpLog ar (vsi_opLog obj) @
     put_u64 ar (vsi_opNum obj) @ put_u64 ar (vsi_commitNum obj) @ put_u64 ar (vsi_replicaId obj)"

definition load_ViewStartInfo :: "'w archive \<Rightarrow> ('w, ViewStartInfo) loader" where
  "load_ViewStartInfo ar =
     load_bind (get_u64 ar) (\<lambda>v.
     load_bind (load_OpLog ar) (\<lambda>l.
     load_bind (get_u64 ar) (\<lambda>n.
     load_bind (get_u64 ar) (\<lambda>c.
     load_bind (get_u64 ar) (\<lambda>i.
     load_ret \<lparr>vsi_viewNum = v, vsi_opLog = l, vsi_opNum = n, vsi_commitNum = c, vsi_replicaId = i\<rparr>)))))"

definition save_RecoveryRequest :: "'w archive \<Rightarrow> RecoveryRequest \<Rightarrow> 'w list" where
  "save_RecoveryRequest ar obj =
     put_u64 ar (rrq_replicaId obj) @ put_u64 ar (rrq_nonce obj) @ put_u64 ar (rrq_knownCommitNum obj)"

definition load_RecoveryRequest :: "'w archive \<Rightarrow> ('w, RecoveryRequest) loader" where
  "load_RecoveryRequest ar =
     load_bind (get_u64 ar) (\<lambda>i. load_bind (get_u64 ar) (\<lambda>n. load_bind (get_u64 ar) (\<lambda>c.
     load_ret \<lparr>rrq_replicaId = i, rrq_nonce = n, rrq_knownCommitNum = c\<rparr>)))"

definition save_RecoveryResponse :: "'w archive \<Rightarrow> RecoveryResponse \<Rightarrow> 'w list" where
  "save_RecoveryResponse ar obj = put_u64 ar (rrs_viewNum obj) @ put_u64 ar (rrs_nonce obj) @
     put_u64 ar (rrs_replicaId obj) @ put_bool ar (rrs_isPrimary obj) @ save_OpLog ar (rrs_opLog obj) @
     put_u64 ar (rrs_opNum obj) @ put_u64 ar (rrs_commitNum obj)"

definition load_RecoveryResponse :: "'w archive \<Rightarrow> ('w, RecoveryResponse) loader" where
  "load_RecoveryResponse ar =
     load_bind (get_u64 ar) (\<lambda>v.
     load_bind (get_u64 ar) (\<lambda>n.
     load_bind (get_u64 ar) (\<lambda>i.
     load_bind (get_bool ar) (\<lambda>p.
     load_bind (load_OpLog ar) (\<lambda>l.
     load_bind (get_u64 ar) (\<lambda>on.
     load_bind (get_u64 ar) (\<lambda>c.
     load_ret \<lparr>rrs_viewNum = v, rrs_nonce = n, rrs_replicaId = i, rrs_isPrimary = p, rrs_opLog = l,
               rrs_opNum = on, rrs_commitNum = c\<rparr>)))))))"

section \<open>Round trips\<close>

definition kv_fits :: "KvPair \<Rightarrow> bool" where
  "kv_fits kv \<longleftrightarrow> length (kvp_key kv) \<le> 512 \<and> length (kvp_val kv) \<le> XDR_MAX_LEN"

definition log_fits :: "OpLog \<Rightarrow> bool" where
  "log_fits l \<longleftrightarrow> length l \<le> XDR_MAX_LEN \<and> (\<forall>e \<in> set l. kv_fits (le_kvPair e))"

fun result_fits :: "Result \<Rightarrow> bool" where
  "result_fits (Res_val v) \<longleftrightarrow> length v \<le> XDR_MAX_LEN"
| "result_fits (Res_keys ks) \<longleftrightarrow> length ks \<le> XDR_MAX_LEN \<and> (\<forall>k \<in> set ks. length k \<le> XDR_MAX_LEN)"
| "result_fits (Res_err d e) \<longleftrightarrow> d \<noteq> 1 \<and> d \<noteq> 2"

lemma load_bind_step [simp]: "d (e @ r) = Some (x, r) \<Longrightarrow> load_bind d f (e @ r) = f x r"
  by (simp add: load_bind_def)

lemma load_bind_last [simp]: "d e = Some (x, r) \<Longrightarrow> load_bind d f e = f x r"
  by (simp add: load_bind_def)

text \<open>The promise of an archive: each reader gives back what its writer wrote, whatever follows.\<close>

locale xdr_archive =
  fixes ar :: "'w archive"
  assumes u32_back: "get_u32 ar (put_u32 ar n @ r) = Some (n, r)"
    and u64_back: "get_u64 ar (put_u64 ar x @ r) = Some (x, r)"
    and bool_back: "get_bool ar (put_bool ar b @ r) = Some (b, r)"
    and Error_back: "get_Error ar (put_Error ar er @ r) = Some (er, r)"
    and OpType_back: "get_OpType ar (put_OpType ar t @ r) = Some (t, r)"
    and xstring_back: "length s \<le> m \<Longrightarrow> m \<le> XDR_MAX_LEN \<Longrightarrow> get_xstring ar m (put_xstring ar s @ r) = Some (s, r)"
    and strings_back: "(\<And>k r. k \<in> set ks \<Longrightarrow> ds (es k @ r) = Some (k, r)) \<Longrightarrow> length ks \<le> XDR_MAX_LEN \<Longrightarrow>
      get_strings ar ds (put_xvector ar (map es ks) @ r) = Some (ks, r)"
    and entries_back: "(\<And>e r. e \<in> set l \<Longrightarrow> d (f e @ r) = Some (e, r)) \<Longrightarrow> length l \<le> XDR_MAX_LEN \<Longrightarrow>
      get_entries ar d (put_xvector ar (map f l) @ r) = Some (l, r)"
begin

lemmas primitives = u32_back u64_back bool_back Error_back OpType_back

lemma KvPair_back: "kv_fits kv \<Longrightarrow> load_KvPair ar (save_KvPair ar kv @ r) = Some (kv, r)"
  by (simp add: load_KvPair_def save_KvPair_def kv_fits_def xstring_back XDR_MAX_LEN_def load_ret_def)

lemma LogEntry_back: "kv_fits (le_kvPair e) \<Longrightarrow> load_LogEntry ar (save_LogEntry ar e @ r) = Some (e, r)"
  by (simp add: load_LogEntry_def save_LogEntry_def KvPair_back primitives load_ret_def)

lemma OpLog_back: "log_fits l \<Longrightarrow> load_OpLog ar (save_OpLog ar l @ r) = Some (l, r)"
  by (rule entries_back) (simp_all add: log_fits_def LogEntry_back)

text \<open>
  A \<open>Result\<close> read into a fresh object comes back, except that the discriminant of the error arm
  stays that of the fresh object.
\<close>

lemma Result_back:
  assumes "result_fits res"
  shows "load_Result ar (Result_new 0) (save_Result ar res @ r) = Some (with_discriminant 0 res, r)"
proof (cases res)
  case (Res_keys ks)
  have "get_strings ar (get_xstring ar XDR_MAX_LEN) (put_xvector ar (map (put_xstring ar) ks) @ r) = Some (ks, r)"
    by (rule strings_back) (use assms Res_keys in \<open>simp_all add: xstring_back\<close>)
  then show ?thesis
    using Res_keys by (simp add: load_Result_def primitives load_ret_def)
qed (use assms in \<open>simp_all add: load_Result_def primitives xstring_back load_ret_def
  Result_set_discriminant_def xdr_field_number_def Result_new_def\<close>)

lemmas load_save_defs =
  load_PrepInfo_def save_PrepInfo_def load_CommitInfo_def save_CommitInfo_def
  load_PrepResponse_def save_PrepResponse_def load_ViewChangeRequest_def save_ViewChangeRequest_def
  load_ViewChangeInfo_def save_ViewChangeInfo_def load_ViewStartInfo_def save_ViewStartInfo_def
  load_RecoveryRequest_def save_RecoveryRequest_def load_RecoveryResponse_def save_RecoveryResponse_def

lemma PrepInfo_back: "kv_fits (pi_kvPair p) \<Longrightarrow> load_PrepInfo ar (save_PrepInfo ar p @ r) = Some (p, r)"
  by (simp add: load_save_defs KvPair_back primitives load_ret_def)

lemma CommitInfo_back: "load_CommitInfo ar (save_CommitInfo ar c @ r) = Some (c, r)"
  by (simp add: load_save_defs primitives load_ret_def)

lemma PrepResponse_back: "load_PrepResponse ar (save_PrepResponse ar p @ r) = Some (p, r)"
  by (simp add: load_save_defs primitives load_ret_def)

lemma ViewChangeRequest_back: "load_ViewChangeRequest ar (save_ViewChangeRequest ar v @ r) = Some (v, r)"
  by (simp add: load_save_defs primitives load_ret_def)

lemma ViewChangeInfo_back:
  "log_fits (vci_opLog v) \<Longrightarrow> load_ViewChangeInfo ar (save_ViewChangeInfo ar v @ r) = Some (v, r)"
  by (simp add: load_save_defs OpLog_back primitives load_ret_def)

lemma ViewStartInfo_back:
  "log_fits (vsi_opLog v) \<Longrightarrow> load_ViewStartInfo ar (save_ViewStartInfo ar v @ r) = Some (v, r)"
  by (simp add: load_save_defs OpLog_back primitives load_ret_def)

lemma RecoveryRequest_back: "load_RecoveryRequest ar (save_RecoveryRequest ar q @ r) = Some (q, r)"
  by (simp add: load_save_defs primitives load_ret_def)

lemma RecoveryResponse_back:
  "log_fits (rrs_opLog q) \<Longrightarrow> load_RecoveryResponse ar (save_RecoveryResponse ar q @ r) = Some (q, r)"
  by (simp add: load_save_defs OpLog_back primitives load_ret_def)

end

section \<open>The standard encoding\<close>

text \<open>
  The encoding of RFC 4506: big-endian numbers in four or eight bytes, booleans and enums as
  four-byte numbers, strings and vectors with their length in front, strings padded with zeros to a
  multiple of four bytes.
\<close>

type_synonym byte = "8 word"

fun le_bytes :: "nat \<Rightarrow> nat \<Rightarrow> byte list" where
  "le_bytes 0 n = []"
| "le_bytes (Suc k) n = of_nat (n mod 256) # le_bytes k (n div 256)"

fun le_value :: "byte list \<Rightarrow> nat" where
  "le_value [] = 0"
| "le_value (b # bs) = unat b + 256 * le_value bs"

definition take_bytes :: "nat \<Rightarrow> (byte, byte list) loader" where
  "take_bytes k ws = (if k \<le> length ws then Some (take k ws, drop k ws) else None)"

definition rfc_nat :: "nat \<Rightarrow> nat \<Rightarrow> byte list" where
  "rfc_nat k n = rev (le_bytes k n)"

definition rfc_get_nat :: "nat \<Rightarrow> (byte, nat) loader" where
  "rfc_get_nat k = load_bind (take_bytes k) (\<lambda>bs. load_ret (le_value (rev bs)))"

definition rfc_code :: "(nat \<Rightarrow> 'a option) \<Rightarrow> (byte, 'a) loader" where
  "rfc_code f = load_bind (rfc_get_nat 4) (\<lambda>n ws. map_option (\<lambda>x. (x, ws)) (f n))"

definition pad :: "nat \<Rightarrow> nat" where
  "pad n = (4 - n mod 4) mod 4"

definition rfc_string :: "string \<Rightarrow> byte list" where
  "rfc_string s = rfc_nat 4 (length s) @ map (\<lambda>c. of_nat (of_char c)) s @ replicate (pad (length s)) 0"

definition rfc_get_string :: "nat \<Rightarrow> (byte, string) loader" where
  "rfc_get_string m = load_bind (rfc_get_nat 4) (\<lambda>n.
     if n \<le> m then load_bind (take_bytes n) (\<lambda>bs. load_bind (take_bytes (pad n)) (\<lambda>_.
       load_ret (map (\<lambda>b. char_of (unat b)) bs)))
     else (\<lambda>_. None))"

fun load_n :: "nat \<Rightarrow> ('w, 'a) loader \<Rightarrow> ('w, 'a list) loader" where
  "load_n 0 d = load_ret []"
| "load_n (Suc n) d = load_bind d (\<lambda>x. load_bind (load_n n d) (\<lambda>xs. load_ret (x # xs)))"

definition rfc_get_vector :: "(byte, 'a) loader \<Rightarrow> (byte, 'a list) loader" where
  "rfc_get_vector d = load_bind (rfc_get_nat 4) (\<lambda>n. load_n n d)"

definition rfc4506 :: "byte archive" where
  "rfc4506 =
    \<lparr>put_u32 = (\<lambda>x. rfc_nat 4 (unat x)),
     get_u32 = load_bind (rfc_get_nat 4) (\<lambda>n. load_ret (of_nat n)),
     put_u64 = (\<lambda>x. rfc_nat 8 (unat x)),
     get_u64 = load_bind (rfc_get_nat 8) (\<lambda>n. load_ret (of_nat n)),
     put_bool = (\<lambda>b. rfc_nat 4 (of_bool b)),
     get_bool = rfc_code (\<lambda>n. if n = 0 then Some False else if n = 1 then Some True else None),
     put_Error = (\<lambda>e. rfc_nat 4 (unat (Error_code e))),
     get_Error = rfc_code (\<lambda>n. List.find (\<lambda>e. unat (Error_code e) = n)
       [NONE, KEY_ALREADY_PRESENT, KEY_NOT_PRESENT, KEY_HAS_NO_PARENT, KEY_HAS_CHILDREN, KEY_MALFORMED,
        REPLICA_NOT_PRIMARY, QUORUM_NOT_REACHED, STATUS_NOT_NORMAL]),
     put_OpType = (\<lambda>t. rfc_nat 4 (case t of UPDATE \<Rightarrow> 0 | DELETE \<Rightarrow> 1)),
     get_OpType = rfc_code (\<lambda>n. if n = 0 then Some UPDATE else if n = 1 then Some DELETE else None),
     put_xstring = rfc_string,
     get_xstring = rfc_get_string,
     put_xvector = (\<lambda>es. rfc_nat 4 (length es) @ concat es),
     get_strings = rfc_get_vector,
     get_entries = rfc_get_vector\<rparr>"

lemma length_le_bytes [simp]: "length (le_bytes k n) = k"
  by (induction k arbitrary: n) auto

lemma le_value_bytes: "n < 256 ^ k \<Longrightarrow> le_value (le_bytes k n) = n"
proof (induction k arbitrary: n)
  case (Suc k)
  then have "n div 256 < 256 ^ k"
    by (simp add: less_mult_imp_div_less)
  then show ?case
    using Suc.IH [of "n div 256"] by (simp add: unat_of_nat take_bit_nat_def)
qed simp

lemma take_bytes_append: "length bs = k \<Longrightarrow> take_bytes k (bs @ r) = Some (bs, r)"
  by (simp add: take_bytes_def)

lemma rfc_nat_back: "n < 256 ^ k \<Longrightarrow> rfc_get_nat k (rfc_nat k n @ r) = Some (n, r)"
  by (simp add: rfc_get_nat_def rfc_nat_def take_bytes_append load_ret_def le_value_bytes)

lemma rfc_code_back: "n < 256 ^ 4 \<Longrightarrow> f n = Some x \<Longrightarrow> rfc_code f (rfc_nat 4 n @ r) = Some (x, r)"
  by (simp add: rfc_code_def rfc_nat_back)

lemma rfc_string_back:
  assumes "length s \<le> m" "m \<le> XDR_MAX_LEN"
  shows "rfc_get_string m (rfc_string s @ r) = Some (s, r)"
proof -
  have "char_of (unat (of_nat (of_char c) :: byte)) = c" for c
    by (simp add: unat_of_nat take_bit_nat_def)
  moreover have "length s < 256 ^ 4"
    using assms by (simp add: XDR_MAX_LEN_def)
  ultimately show ?thesis
    using assms(1) by (simp add: rfc_get_string_def rfc_string_def rfc_nat_back take_bytes_append load_ret_def o_def)
qed

lemma load_n_back:
  "(\<And>x r. x \<in> set xs \<Longrightarrow> d (e x @ r) = Some (x, r)) \<Longrightarrow> load_n (length xs) d (concat (map e xs) @ r) = Some (xs, r)"
  by (induction xs) (simp_all add: load_ret_def)

lemma rfc_vector_back:
  "(\<And>x r. x \<in> set xs \<Longrightarrow> d (e x @ r) = Some (x, r)) \<Longrightarrow> length xs \<le> XDR_MAX_LEN \<Longrightarrow>
   rfc_get_vector d ((rfc_nat 4 (length xs) @ concat (map e xs)) @ r) = Some (xs, r)"
  by (simp add: rfc_get_vector_def rfc_nat_back XDR_MAX_LEN_def load_n_back)

interpretation rfc: xdr_archive rfc4506
proof
  fix x :: u32 and r
  have "unat x < 256 ^ 4"
    using unsigned_less [of x, where ?'a = nat] by simp
  then show "get_u32 rfc4506 (put_u32 rfc4506 x @ r) = Some (x, r)"
    by (simp add: rfc4506_def rfc_nat_back load_ret_def)
next
  fix x :: u64 and r
  have "unat x < 256 ^ 8"
    using unsigned_less [of x, where ?'a = nat] by simp
  then show "get_u64 rfc4506 (put_u64 rfc4506 x @ r) = Some (x, r)"
    by (simp add: rfc4506_def rfc_nat_back load_ret_def)
next
  fix er r
  show "get_Error rfc4506 (put_Error rfc4506 er @ r) = Some (er, r)"
    unfolding rfc4506_def by (cases er) (simp_all add: rfc_code_back)
next
  fix t r
  show "get_OpType rfc4506 (put_OpType rfc4506 t @ r) = Some (t, r)"
    unfolding rfc4506_def by (cases t) (simp_all add: rfc_code_back)
next
  fix ks r and es :: "string \<Rightarrow> byte list" and ds
  assume "\<And>k r. k \<in> set ks \<Longrightarrow> ds (es k @ r) = Some (k, r)" "length ks \<le> XDR_MAX_LEN"
  then show "get_strings rfc4506 ds (put_xvector rfc4506 (map es ks) @ r) = Some (ks, r)"
    using rfc_vector_back [of ks ds es r] by (simp add: rfc4506_def)
next
  fix l r and f :: "LogEntry \<Rightarrow> byte list" and d
  assume "\<And>e r. e \<in> set l \<Longrightarrow> d (f e @ r) = Some (e, r)" "length l \<le> XDR_MAX_LEN"
  then show "get_entries rfc4506 d (put_xvector rfc4506 (map f l) @ r) = Some (l, r)"
    using rfc_vector_back [of l d f r] by (simp add: rfc4506_def)
qed (simp_all add: rfc4506_def rfc_code_back rfc_string_back)

section \<open>Sizes\<close>

text \<open>With the sizes of RFC 4506, \<open>serial_size\<close> is the number of bytes that \<open>save\<close> writes.\<close>

definition rfc_sizes :: field_sizes where
  "rfc_sizes = \<lparr>size_xstring = (\<lambda>s. 4 + length s + pad (length s)),
     size_strings = (\<lambda>ks. 4 + sum_list (map (\<lambda>s. 4 + length s + pad (length s)) ks)), size_Error = (\<lambda>_. 4)\<rparr>"

lemma length_rfc_nat [simp]: "length (rfc_nat k n) = k"
  by (simp add: rfc_nat_def)

lemma length_rfc_string: "length (rfc_string s) = 4 + length s + pad (length s)"
  by (simp add: rfc_string_def)

lemma serial_size_saved: "Result_serial_size rfc_sizes r = length (save_Result rfc4506 r)"
  by (cases r) (simp_all add: Result_serial_size_def rfc_sizes_def rfc4506_def length_rfc_string length_concat comp_def)

section \<open>Assignment\<close>

lemma Result_copy_same:
  "(\<And>d e. src = Res_err d e \<Longrightarrow> d \<noteq> 1 \<and> d \<noteq> 2) \<Longrightarrow> Result_copy src = Some src"
  by (cases src) (auto simp: Result_copy_def xdr_field_number_def)

text \<open>C38. Assigning a \<open>Result\<close> is defined, and then makes the two equal, exactly when both have the
  same arm or the source is an error: otherwise the generated operator reads the error arm of a
  source that has another one.\<close>

theorem Result_assign_defined:
  assumes "\<And>d e. src = Res_err d e \<Longrightarrow> d \<noteq> 1 \<and> d \<noteq> 2" "\<And>d e. obj = Res_err d e \<Longrightarrow> d \<noteq> 1 \<and> d \<noteq> 2"
  shows "Result_assign obj src =
    (if xdr_field_number (Result_discriminant obj) = xdr_field_number (Result_discriminant src) \<or>
        xdr_field_number (Result_discriminant src) = 3 then Some src else None)"
  using assms by (cases src; cases obj) (auto simp: Result_assign_def xdr_field_number_def)

theorem Result_assign_defined_witness:
  "Result_assign (res_error NONE) (Res_val ''1'') = None \<and>
   Result_assign (Res_val ''1'') (res_error KEY_MALFORMED) = Some (res_error KEY_MALFORMED)"
  using Result_assign_defined [of "Res_val ''1''" "res_error NONE"]
    Result_assign_defined [of "res_error KEY_MALFORMED" "Res_val ''1''"]
  by (simp add: xdr_field_number_def)

end
