(* ===== verification/KeyFormat.thy ===== *)
theory KeyFormat
  imports CppString KvTypes
begin

text \<open>
  Key validation and normalisation (\<open>checkKeyFormat\<close> and \<open>pruneKey\<close> in
  \<open>server/kvStoreImpl.cc\<close>), against paths as lists of components.
\<close>

section \<open>The code\<close>

abbreviation slash :: char where
  "slash \<equiv> CHR ''/''"

text \<open>
  The loop of \<open>pruneKey\<close>: a slash right after the last slash is erased and the index stays (the
  decrement is undone by the loop's increment); another slash moves \<open>lastSlashIndex\<close>.
\<close>

function prune_loop :: "string \<Rightarrow> nat \<Rightarrow> nat \<Rightarrow> string \<times> nat" where
  "prune_loop key i lastSlashIndex =
     (if i < length key then
        if key ! i = slash then
          if lastSlashIndex = i - 1 then prune_loop (str_erase key i 1) i lastSlashIndex
          else prune_loop key (i + 1) i
        else prune_loop key (i + 1) lastSlashIndex
      else (key, lastSlashIndex))"
  by pat_completeness auto
termination
  by (relation "measure (\<lambda>(key, i, l). length key - i)") (auto simp: str_erase_def)

declare prune_loop.simps [simp del]

text \<open>
  \<open>key\<close> is an in/out parameter, so it is the state of the outcome; \<open>at(0)\<close> throws on an empty
  key and the assertion rejects one that does not start with a slash.
\<close>

definition pruneKey :: "string \<Rightarrow> (string, nat) res" where
  "pruneKey key =
     (if key = [] then Raise OutOfRange key
      else assert_res (key ! 0 = slash)
        (let (key', lastSlashIndex) = prune_loop key 1 0 in Return lastSlashIndex key'))"

text \<open>The conversion of a (signed) \<open>char\<close> to \<open>unsigned\<close> extends the sign.\<close>

definition char_to_unsigned :: "char \<Rightarrow> nat" where
  "char_to_unsigned c = (let n = of_char c in if n < 128 then n else n + (2 ^ 32 - 256))"

definition key_char :: "char \<Rightarrow> bool" where
  "key_char c =
     (let keyInt = char_to_unsigned c
      in (keyInt \<ge> 47 \<and> keyInt \<le> 57) \<or> (keyInt \<ge> 65 \<and> keyInt \<le> 90) \<or>
         (keyInt \<ge> 97 \<and> keyInt \<le> 122) \<or> keyInt = 95)"

text \<open>The loop from index 1: \<open>i == key.size() - 1\<close> is the case of an empty rest.\<close>

fun check_loop :: "string \<Rightarrow> Error" where
  "check_loop [] = NONE"
| "check_loop (c # cs) =
     (if cs = [] \<and> c = slash then KEY_MALFORMED
      else if \<not> key_char c then KEY_MALFORMED
      else check_loop cs)"

definition checkKeyFormat :: "string \<Rightarrow> Error" where
  "checkKeyFormat key =
     (if key = [] \<or> key ! 0 \<noteq> slash then KEY_MALFORMED
      else if length key = 1 then KEY_MALFORMED
      else check_loop (drop 1 key))"

section \<open>Paths\<close>

type_synonym path = "string list"

definition wf_comp :: "string \<Rightarrow> bool" where
  "wf_comp c \<longleftrightarrow> c \<noteq> [] \<and> slash \<notin> set c \<and> list_all key_char c"

definition wf_path :: "path \<Rightarrow> bool" where
  "wf_path cs \<longleftrightarrow> cs \<noteq> [] \<and> list_all wf_comp cs"

fun print_path :: "path \<Rightarrow> string" where
  "print_path [] = []"
| "print_path (c # cs) = slash # c @ print_path cs"

fun split_on :: "char \<Rightarrow> string \<Rightarrow> string list" where
  "split_on d [] = [[]]"
| "split_on d (c # cs) =
     (if c = d then [] # split_on d cs
      else (case split_on d cs of [] \<Rightarrow> [[c]] | x # xs \<Rightarrow> (c # x) # xs))"

text \<open>The path a key names: its non-empty components.\<close>

definition path_of :: "string \<Rightarrow> path" where
  "path_of key = filter (\<lambda>c. c \<noteq> []) (split_on slash key)"

text \<open>What pruning does to a string: a slash after a slash disappears.\<close>

fun collapse :: "bool \<Rightarrow> string \<Rightarrow> string" where
  "collapse b [] = []"
| "collapse b (c # cs) =
     (if c = slash then (if b then collapse True cs else c # collapse True cs)
      else c # collapse False cs)"

lemma print_path_append [simp]: "print_path (xs @ ys) = print_path xs @ print_path ys"
  by (induction xs) auto

lemma print_path_eq_Nil [simp]: "print_path cs = [] \<longleftrightarrow> cs = []"
  by (cases cs) auto

subsection \<open>The pruning loop\<close>

definition last_slash :: "string \<Rightarrow> nat \<Rightarrow> bool" where
  "last_slash s i \<longleftrightarrow> i < length s \<and> s ! i = slash \<and> (\<forall>j. i < j \<and> j < length s \<longrightarrow> s ! j \<noteq> slash)"

lemma last_slash_snoc_slash: "last_slash (p @ [slash]) (length p)"
  by (auto simp: last_slash_def)

lemma last_slash_snoc_other: "last_slash p l \<Longrightarrow> c \<noteq> slash \<Longrightarrow> last_slash (p @ [c]) l"
  by (auto simp: last_slash_def nth_append less_Suc_eq)

lemma last_slash_unique: "last_slash s i \<Longrightarrow> last_slash s j \<Longrightarrow> i = j"
  unfolding last_slash_def by (metis linorder_neqE_nat)

lemma prune_loop_collapse:
  assumes "last_slash p l"
  shows "\<exists>l'. prune_loop (p @ r) (length p) l = (p @ collapse (l = length p - 1) r, l') \<and>
    last_slash (p @ collapse (l = length p - 1) r) l'"
  using assms
proof (induction r arbitrary: p l)
  case Nil
  then show ?case
    by (auto simp: prune_loop.simps [of p])
next
  case (Cons c r)
  have len: "length p \<noteq> 0"
    using Cons.prems by (auto simp: last_slash_def)
  consider (dup) "c = slash" "l = length p - 1" | (new) "c = slash" "l \<noteq> length p - 1"
    | (other) "c \<noteq> slash"
    by blast
  then show ?case
  proof cases
    case dup
    have "prune_loop (p @ c # r) (length p) l = prune_loop (p @ r) (length p) l"
      using dup by (subst prune_loop.simps) (simp add: str_erase_def)
    then show ?thesis
      using Cons.IH [OF Cons.prems] dup by simp
  next
    case new
    have "prune_loop (p @ c # r) (length p) l =
        prune_loop ((p @ [slash]) @ r) (length (p @ [slash])) (length p)"
      using new by (subst prune_loop.simps) simp
    then show ?thesis
      using Cons.IH [OF last_slash_snoc_slash, of p] new by simp
  next
    case other
    have "l \<noteq> length p"
      using Cons.prems by (auto simp: last_slash_def)
    moreover have "prune_loop (p @ c # r) (length p) l =
        prune_loop ((p @ [c]) @ r) (length (p @ [c])) l"
      using other by (subst prune_loop.simps) simp
    ultimately show ?thesis
      using Cons.IH [OF last_slash_snoc_other [OF Cons.prems other]] other by simp
  qed
qed

lemma pruneKey_collapse:
  assumes "key = slash # r"
  obtains l where "pruneKey key = Return l (slash # collapse True r)"
    and "last_slash (slash # collapse True r) l"
proof -
  have "last_slash [slash] 0"
    by (auto simp: last_slash_def)
  from prune_loop_collapse [OF this, of r] obtain l where
    "prune_loop (slash # r) 1 0 = (slash # collapse True r, l)"
    "last_slash (slash # collapse True r) l"
    by auto
  then show ?thesis
    using that assms by (simp add: pruneKey_def)
qed

subsection \<open>Keys and paths\<close>

lemma split_on_not_Nil [simp]: "split_on d s \<noteq> []"
  by (cases s) (auto split: list.splits)

lemma split_on_no_sep: "d \<notin> set s \<Longrightarrow> split_on d s = [s]"
  by (induction s) auto

lemma split_on_append_sep: "d \<notin> set x \<Longrightarrow> split_on d (x @ d # s) = x # split_on d s"
  by (induction x) auto

lemma path_of_slash [simp]: "path_of (slash # s) = path_of s"
  by (simp add: path_of_def)

lemma path_of_comp: "slash \<notin> set x \<Longrightarrow> x \<noteq> [] \<Longrightarrow> path_of (x @ slash # s) = x # path_of s"
  by (simp add: path_of_def split_on_append_sep)

lemma path_of_last: "slash \<notin> set x \<Longrightarrow> x \<noteq> [] \<Longrightarrow> path_of x = [x]"
  by (simp add: path_of_def split_on_no_sep)

lemma collapse_no_slash: "slash \<notin> set x \<Longrightarrow> collapse False (x @ s) = x @ collapse False s"
  by (induction x) auto

lemma collapse_comp: "slash \<notin> set x \<Longrightarrow> x \<noteq> [] \<Longrightarrow> collapse b (x @ s) = x @ collapse False s"
  by (cases x) (auto simp: collapse_no_slash)

text \<open>
  A string that does not end in a slash starts with a slash, is one component, or is a component,
  a slash and a shorter such string.
\<close>

lemma key_induct [consumes 2, case_names slash last comp]:
  assumes "s \<noteq> []" "last s \<noteq> slash"
    and slash: "\<And>r. r \<noteq> [] \<Longrightarrow> last r \<noteq> slash \<Longrightarrow> P r \<Longrightarrow> P (slash # r)"
    and last: "\<And>x. x \<noteq> [] \<Longrightarrow> slash \<notin> set x \<Longrightarrow> P x"
    and comp: "\<And>x r. x \<noteq> [] \<Longrightarrow> slash \<notin> set x \<Longrightarrow> r \<noteq> [] \<Longrightarrow> last r \<noteq> slash \<Longrightarrow> P r \<Longrightarrow>
      P (x @ slash # r)"
  shows "P s"
  using assms(1,2)
proof (induction s rule: length_induct)
  case (1 s)
  have IH: "P r" if "length r < length s" "r \<noteq> []" "last r \<noteq> slash" for r
    using "1.IH" that by blast
  show ?case
  proof (cases "slash \<in> set s")
    case False
    then show ?thesis
      using "1.prems" by (intro last)
  next
    case True
    then obtain x r where s: "s = x @ slash # r" "slash \<notin> set x"
      by (metis split_list_first)
    then have r: "r \<noteq> []" "last r \<noteq> slash" "length r < length s"
      using "1.prems" by (auto split: if_splits)
    then have "P r"
      using IH by simp
    then show ?thesis
      using s r slash comp by (cases "x = []") auto
  qed
qed

lemma collapse_print_path:
  "s \<noteq> [] \<Longrightarrow> last s \<noteq> slash \<Longrightarrow> slash # collapse True s = print_path (path_of s)"
proof (induction s rule: key_induct)
  case (last x)
  then show ?case
    using collapse_comp [of x True "[]"] by (simp add: path_of_last)
qed (simp_all add: collapse_comp path_of_comp)

lemma wf_path_path_of:
  "s \<noteq> [] \<Longrightarrow> last s \<noteq> slash \<Longrightarrow> list_all key_char s \<Longrightarrow> wf_path (path_of s)"
  by (induction s rule: key_induct) (auto simp: path_of_last path_of_comp wf_path_def wf_comp_def)

lemma path_of_print_path: "wf_path cs \<Longrightarrow> path_of (print_path cs) = cs"
proof (induction cs)
  case (Cons c cs)
  then have c: "c \<noteq> []" "slash \<notin> set c"
    by (auto simp: wf_path_def wf_comp_def)
  show ?case
  proof (cases cs)
    case Nil
    then show ?thesis
      using c by (simp add: path_of_last)
  next
    case (Cons d ds)
    then have "path_of (print_path cs) = cs"
      using Cons.IH Cons.prems by (simp add: wf_path_def)
    then show ?thesis
      using c Cons by (simp add: path_of_comp)
  qed
qed (simp add: wf_path_def)

lemma last_slash_print_path:
  "slash \<notin> set c \<Longrightarrow> last_slash (print_path (cs @ [c])) (length (print_path cs))"
  by (auto simp: last_slash_def nth_append nth_Cons' in_set_conv_nth)

subsection \<open>What the two functions compute\<close>

lemma check_loop_NONE:
  "check_loop s = NONE \<longleftrightarrow> list_all key_char s \<and> (s \<noteq> [] \<longrightarrow> last s \<noteq> slash)"
  by (induction s) auto

lemma checkKeyFormat_NONE:
  "checkKeyFormat key = NONE \<longleftrightarrow>
    (\<exists>r. key = slash # r \<and> r \<noteq> [] \<and> last r \<noteq> slash \<and> list_all key_char r)"
  by (cases key) (auto simp: checkKeyFormat_def check_loop_NONE)

lemma checkKeyFormat_cases: "checkKeyFormat key = NONE \<or> checkKeyFormat key = KEY_MALFORMED"
proof -
  have "check_loop s = NONE \<or> check_loop s = KEY_MALFORMED" for s
    by (induction s) auto
  then show ?thesis
    by (auto simp: checkKeyFormat_def)
qed

lemma wf_path_of_key: "checkKeyFormat key = NONE \<Longrightarrow> wf_path (path_of key)"
  by (auto simp: checkKeyFormat_NONE wf_path_path_of)

text \<open>A well-formed key is pruned to the canonical spelling of its path.\<close>

lemma pruneKey_wf:
  assumes "checkKeyFormat key = NONE"
  shows "pruneKey key =
    Return (length (print_path (butlast (path_of key)))) (print_path (path_of key))"
proof -
  from assms obtain r where key: "key = slash # r" "r \<noteq> []" "last r \<noteq> slash" "list_all key_char r"
    by (auto simp: checkKeyFormat_NONE)
  have wf: "wf_path (path_of key)"
    using assms by (rule wf_path_of_key)
  then have snoc: "path_of key = butlast (path_of key) @ [last (path_of key)]"
    by (simp add: wf_path_def)
  have "wf_comp (last (path_of key))"
    using wf by (simp add: wf_path_def list_all_iff)
  then have "last_slash (print_path (butlast (path_of key) @ [last (path_of key)]))
      (length (print_path (butlast (path_of key))))"
    by (intro last_slash_print_path) (simp add: wf_comp_def)
  then have ls: "last_slash (print_path (path_of key)) (length (print_path (butlast (path_of key))))"
    by (simp only: snoc [symmetric])
  obtain l where l: "pruneKey key = Return l (slash # collapse True r)"
      "last_slash (slash # collapse True r) l"
    using pruneKey_collapse [OF key(1)] .
  have "slash # collapse True r = print_path (path_of key)"
    using key by (simp add: collapse_print_path)
  then show ?thesis
    using l ls last_slash_unique by simp
qed

lemma checkKeyFormat_print_path: "wf_path cs \<Longrightarrow> checkKeyFormat (print_path cs) = NONE"
proof -
  assume wf: "wf_path cs"
  have chars: "list_all wf_comp ds \<Longrightarrow> list_all key_char (print_path ds)" for ds
    by (induction ds) (auto simp: wf_comp_def key_char_def char_to_unsigned_def)
  obtain d ds where cs: "cs = d # ds"
    using wf by (cases cs) (auto simp: wf_path_def)
  obtain bs b where snoc: "cs = bs @ [b]" "wf_comp b"
    using wf by (metis append_butlast_last_id last_in_set list_all_iff wf_path_def)
  have "last (print_path cs) = last b" "last b \<noteq> slash"
    using snoc by (auto simp: wf_comp_def dest: last_in_set)
  then show ?thesis
    using wf chars [of cs] cs by (auto simp: checkKeyFormat_NONE wf_path_def wf_comp_def)
qed

section \<open>Accepted keys\<close>

lemma key_char_alphabet: "key_char c \<longleftrightarrow> c \<in> set ''/0123456789ABCDEFGHIJKLMNOPQRSTUVWXYZ_abcdefghijklmnopqrstuvwxyz''"
proof (cases c)
  case (Char a b c d e f g h)
  then show ?thesis
    by (cases a; cases b; cases c; cases d; cases e; cases f; cases g; cases h)
      (simp_all add: key_char_def char_to_unsigned_def)
qed

text \<open>C31. The keys that pass \<open>checkKeyFormat\<close> are a slash followed by a non-empty text of the 64 characters slash, digits,
  letters and underscore that does not end with a slash. For these \<open>pruneKey\<close> does not fail and leaves
  the canonical spelling of the path the key names, with the index of its last slash.\<close>

theorem pruneKey_canonical:
  "(checkKeyFormat key = NONE \<longleftrightarrow>
      (\<exists>r. key = slash # r \<and> r \<noteq> [] \<and> last r \<noteq> slash \<and>
        set r \<subseteq> set ''/0123456789ABCDEFGHIJKLMNOPQRSTUVWXYZ_abcdefghijklmnopqrstuvwxyz'')) \<and>
   (checkKeyFormat key = NONE \<longrightarrow> wf_path (path_of key) \<and>
      pruneKey key = Return (length (print_path (butlast (path_of key)))) (print_path (path_of key)))"
proof -
  have "list_all key_char r \<longleftrightarrow> set r \<subseteq> set ''/0123456789ABCDEFGHIJKLMNOPQRSTUVWXYZ_abcdefghijklmnopqrstuvwxyz''" for r
    unfolding list_all_iff key_char_alphabet by blast
  then show ?thesis
    using checkKeyFormat_NONE [of key] pruneKey_wf [of key] wf_path_of_key [of key] by presburger
qed

theorem pruneKey_canonical_witness:
  "pruneKey ''/a//b'' = Return 2 ''/a/b''"
proof -
  have "checkKeyFormat ''/a//b'' = NONE" "path_of ''/a//b'' = [''a'', ''b'']"
    by (code_simp, code_simp)
  then show ?thesis
    using pruneKey_canonical [of "''/a//b''"] by simp
qed

end
