(* ===== verification/KvStoreApi.thy ===== *)
theory KvStoreApi
  imports KeyFormat KvMemStore
begin

text \<open>
  The client-facing operations of a server (\<open>server/kvStoreImpl.cc\<close>): \<open>create\<close>, \<open>remove\<close>,
  \<open>set\<close>, \<open>get\<close> and \<open>list\<close>, over the store and its replicator. Each returns a
  \<open>Result\<close>.
\<close>

section \<open>The operations\<close>

text \<open>
  The \<open>catch\<close> clauses around the replicated calls: the two replication exceptions become error
  codes, any other exception escapes, and success leaves the error \<open>NONE\<close>.
\<close>

fun catch_replication :: "('s, 'x) res \<Rightarrow> ('s, Result) res" where
  "catch_replication Abort = Abort"
| "catch_replication (Return x s) = Return (res_error NONE) s"
| "catch_replication (Raise e s) =
     (case e of
        QuorumNotReached \<Rightarrow> Return (res_error QUORUM_NOT_REACHED) s
      | ReplicaStateNotNormal \<Rightarrow> Return (res_error STATUS_NOT_NORMAL) s
      | _ \<Rightarrow> Raise e s)"

text \<open>Pruning works on the request's own key; its failures end the request.\<close>

fun with_pruned :: "(string, nat) res \<Rightarrow> 's \<Rightarrow> (nat \<Rightarrow> string \<Rightarrow> ('s, 'x) res) \<Rightarrow> ('s, 'x) res" where
  "with_pruned Abort s f = Abort"
| "with_pruned (Raise e k) s f = Raise e s"
| "with_pruned (Return i k) s f = f i k"

definition api_create ::
  "'a kvmem_scheme IReplicator \<Rightarrow> KvPair \<Rightarrow> 'a kvmem_scheme \<Rightarrow> ('a kvmem_scheme, Result) res"
where
  "api_create R arg s =
     (if \<not> isPrimary R s then Return (res_error REPLICA_NOT_PRIMARY) s
      else if checkKeyFormat (kvp_key arg) = NONE then
        with_pruned (pruneKey (kvp_key arg)) s (\<lambda>lastSlashIndex key.
          let err = (if hasKey key s then KEY_ALREADY_PRESENT else NONE);
              err = (if lastSlashIndex > 0 then
                       if \<not> hasKey (str_substr key 0 lastSlashIndex) s then KEY_HAS_NO_PARENT
                       else err
                     else err)
          in if err = NONE then catch_replication (KvMemStore_set R key (kvp_val arg) s)
             else Return (res_error err) s)
      else Return (res_error (checkKeyFormat (kvp_key arg))) s)"

definition api_remove ::
  "'a kvmem_scheme IReplicator \<Rightarrow> string \<Rightarrow> 'a kvmem_scheme \<Rightarrow> ('a kvmem_scheme, Result) res"
where
  "api_remove R arg s =
     (if \<not> isPrimary R s then Return (res_error REPLICA_NOT_PRIMARY) s
      else if checkKeyFormat arg = NONE then
        with_pruned (pruneKey arg) s (\<lambda>_ key.
          if \<not> hasKey key s then Return (res_error KEY_NOT_PRESENT) s
          else if KvMemStore_list (key @ [slash]) slash s \<noteq> []
          then Return (res_error KEY_HAS_CHILDREN) s
          else catch_replication (KvMemStore_remove R key s))
      else Return (res_error (checkKeyFormat arg)) s)"

definition api_set ::
  "'a kvmem_scheme IReplicator \<Rightarrow> KvPair \<Rightarrow> 'a kvmem_scheme \<Rightarrow> ('a kvmem_scheme, Result) res"
where
  "api_set R arg s =
     (if \<not> isPrimary R s then Return (res_error REPLICA_NOT_PRIMARY) s
      else if checkKeyFormat (kvp_key arg) = NONE then
        with_pruned (pruneKey (kvp_key arg)) s (\<lambda>_ key.
          if \<not> hasKey key s then Return (res_error KEY_NOT_PRESENT) s
          else catch_replication (KvMemStore_set R key (kvp_val arg) s))
      else Return (res_error (checkKeyFormat (kvp_key arg))) s)"

definition api_get ::
  "'a kvmem_scheme IReplicator \<Rightarrow> string \<Rightarrow> 'a kvmem_scheme \<Rightarrow> ('a kvmem_scheme, Result) res"
where
  "api_get R arg s =
     (if \<not> isPrimary R s then Return (res_error REPLICA_NOT_PRIMARY) s
      else if checkKeyFormat arg = NONE then
        with_pruned (pruneKey arg) s (\<lambda>_ key.
          if \<not> hasKey key s then Return (res_error KEY_NOT_PRESENT) s
          else bind_res (KvMemStore_get key s) (\<lambda>v s'. Return (Res_val v) s'))
      else Return (res_error (checkKeyFormat arg)) s)"

text \<open>The loop of \<open>list\<close>: the part of each key after its last slash, which must not be empty.\<close>

fun leaf_loop :: "string list \<Rightarrow> string list \<Rightarrow> string list option" where
  "leaf_loop [] acc = Some acc"
| "leaf_loop (k # ks) acc =
     (case str_find_last_of k slash of
        None \<Rightarrow> None
      | Some i \<Rightarrow> if i < length k - 1
          then leaf_loop ks (acc @ [str_substr k (i + 1) (length k - i)]) else None)"

definition list_keys :: "string \<Rightarrow> 'a kvmem_scheme \<Rightarrow> ('a kvmem_scheme, Result) res" where
  "list_keys key s =
     (case leaf_loop (KvMemStore_list (key @ [slash]) slash s) [] of
        None \<Rightarrow> Abort
      | Some leaves \<Rightarrow> Return (Res_keys leaves) s)"

definition api_list ::
  "'a kvmem_scheme IReplicator \<Rightarrow> string \<Rightarrow> 'a kvmem_scheme \<Rightarrow> ('a kvmem_scheme, Result) res"
where
  "api_list R arg s =
     (if \<not> isPrimary R s then Return (res_error REPLICA_NOT_PRIMARY) s
      else if length arg = 1 \<and> arg ! 0 = slash then list_keys [] s
      else if checkKeyFormat arg = NONE then
        with_pruned (pruneKey arg) s (\<lambda>_ key.
          if \<not> hasKey key s then Return (res_error KEY_NOT_PRESENT) s
          else list_keys key s)
      else Return (res_error (checkKeyFormat arg)) s)"

text \<open>
  The dispatch of a client call by its procedure number (\<open>call_dispatch\<close> in
  \<open>include/kvStore.hh\<close>); the argument of each procedure is decoded at its own type.
\<close>

datatype request =
    CreateReq KvPair
  | RemoveReq string
  | SetReq KvPair
  | GetReq string
  | ListReq string

fun request_proc :: "request \<Rightarrow> u32" where
  "request_proc (CreateReq a) = 1"
| "request_proc (RemoveReq a) = 2"
| "request_proc (SetReq a) = 3"
| "request_proc (GetReq a) = 4"
| "request_proc (ListReq a) = 5"

fun KvStoreApi_dispatch ::
  "'a kvmem_scheme IReplicator \<Rightarrow> request \<Rightarrow> 'a kvmem_scheme \<Rightarrow> ('a kvmem_scheme, Result) res"
where
  "KvStoreApi_dispatch R (CreateReq a) s = api_create R a s"
| "KvStoreApi_dispatch R (RemoveReq a) s = api_remove R a s"
| "KvStoreApi_dispatch R (SetReq a) s = api_set R a s"
| "KvStoreApi_dispatch R (GetReq a) s = api_get R a s"
| "KvStoreApi_dispatch R (ListReq a) s = api_list R a s"

end
