(* ===== verification/KvsClient.thy ===== *)
theory KvsClient
  imports KvStoreApi
begin

text \<open>
  The client library (\<open>libClient/kvsClient.cc\<close>, \<open>include/kvsClient.h\<close>): each operation makes one
  remote call and turns the returned \<open>Result\<close> into a value or a \<open>ClientException\<close>. The remote
  call is an argument: a function from the request and the world (the server, or whatever the
  connection leads to) to the outcome of the call, which may throw.
\<close>

type_synonym 'w rpc_invoke = "request \<Rightarrow> 'w \<Rightarrow> ('w, Result) res"

section \<open>Error codes\<close>

text \<open>\<^term>\<open>None\<close> is a failed assertion: the caller must have handled these two codes.\<close>

fun getClientError :: "Error \<Rightarrow> ClientError option" where
  "getClientError NONE = None"
| "getClientError KEY_ALREADY_PRESENT = None"
| "getClientError KEY_NOT_PRESENT = Some KEY_NOT_FOUND"
| "getClientError KEY_HAS_NO_PARENT = Some NO_PARENT"
| "getClientError KEY_HAS_CHILDREN = Some HAS_CHILDREN"
| "getClientError KEY_MALFORMED = Some MALFORMED_KEY"
| "getClientError REPLICA_NOT_PRIMARY = Some NOT_PRIMARY_REPLICA"
| "getClientError QUORUM_NOT_REACHED = Some FAILED_TO_REACH_QUORUM"
| "getClientError STATUS_NOT_NORMAL = Some REPLICA_STATUS_NOT_NORMAL"

fun ClientException_what :: "ClientError \<Rightarrow> string" where
  "ClientException_what KEY_NOT_FOUND = ''KEY NOT FOUND''"
| "ClientException_what NO_PARENT = ''NO PARENT''"
| "ClientException_what HAS_CHILDREN = ''HAS CHILDREN''"
| "ClientException_what MALFORMED_KEY = ''MALFORMED KEY''"
| "ClientException_what NOT_PRIMARY_REPLICA = ''NOT_PRIMARY_REPLICA''"
| "ClientException_what FAILED_TO_REACH_QUORUM = ''FAILED_TO_REACH_QUORUM''"
| "ClientException_what REPLICA_STATUS_NOT_NORMAL = ''REPLICA_STATUS_NOT_NORMAL''"

text \<open>\<open>throw ClientException(getClientError(err))\<close>.\<close>

definition throw_client :: "Error \<Rightarrow> 'w \<Rightarrow> ('w, 'x) res" where
  "throw_client err w =
     (case getClientError err of None \<Rightarrow> Abort | Some ce \<Rightarrow> Raise (ClientException ce) w)"

text \<open>Reading a field of the result: the accessors throw when another arm is selected.\<close>

definition access :: "exn + 'v \<Rightarrow> 'w \<Rightarrow> ('v \<Rightarrow> ('w, 'x) res) \<Rightarrow> ('w, 'x) res" where
  "access f w k = (case f of Inl e \<Rightarrow> Raise e w | Inr v \<Rightarrow> k v)"

section \<open>Operations\<close>

definition Client_create :: "'w rpc_invoke \<Rightarrow> string \<Rightarrow> string \<Rightarrow> 'w \<Rightarrow> ('w, bool) res" where
  "Client_create invoke path val w =
     bind_res (invoke (CreateReq \<lparr>kvp_key = path, kvp_val = val\<rparr>) w) (\<lambda>r w.
       access (Result_err r) w (\<lambda>err.
         if err = KEY_ALREADY_PRESENT then Return False w
         else if err \<noteq> NONE then throw_client err w
         else Return True w))"

definition Client_remove :: "'w rpc_invoke \<Rightarrow> string \<Rightarrow> 'w \<Rightarrow> ('w, bool) res" where
  "Client_remove invoke path w =
     bind_res (invoke (RemoveReq path) w) (\<lambda>r w.
       access (Result_err r) w (\<lambda>err.
         if err = KEY_NOT_PRESENT then Return False w
         else if err \<noteq> NONE then throw_client err w
         else Return True w))"

definition Client_get :: "'w rpc_invoke \<Rightarrow> string \<Rightarrow> 'w \<Rightarrow> ('w, string) res" where
  "Client_get invoke path w =
     bind_res (invoke (GetReq path) w) (\<lambda>r w.
       if Result_discriminant r \<noteq> 1 then access (Result_err r) w (\<lambda>err. throw_client err w)
       else access (Result_val r) w (\<lambda>v. Return v w))"

definition Client_set :: "'w rpc_invoke \<Rightarrow> string \<Rightarrow> string \<Rightarrow> 'w \<Rightarrow> ('w, unit) res" where
  "Client_set invoke path val w =
     bind_res (invoke (SetReq \<lparr>kvp_key = path, kvp_val = val\<rparr>) w) (\<lambda>r w.
       access (Result_err r) w (\<lambda>err.
         if err \<noteq> NONE then throw_client err w else Return () w))"

text \<open>The keys are collected in a \<open>std::set\<close>, a sorted list without duplicates.\<close>

definition Client_list :: "'w rpc_invoke \<Rightarrow> string \<Rightarrow> 'w \<Rightarrow> ('w, string list) res" where
  "Client_list invoke path w =
     bind_res (invoke (ListReq path) w) (\<lambda>r w.
       if Result_discriminant r \<noteq> 2 then access (Result_err r) w (\<lambda>err. throw_client err w)
       else access (Result_keys r) w (\<lambda>ks. Return (fold insort_insert ks []) w))"

section \<open>The results a server gives\<close>

text \<open>
  Which results a server of \<open>KvStoreApi\<close> gives to which request: the client handles exactly these,
  so that it never fails an assertion and never reads the wrong arm of the union.
\<close>

definition write_errors :: "Error set" where
  "write_errors = {REPLICA_NOT_PRIMARY, KEY_MALFORMED, QUORUM_NOT_REACHED, STATUS_NOT_NORMAL}"

fun answers :: "request \<Rightarrow> Result \<Rightarrow> bool" where
  "answers (CreateReq a) r \<longleftrightarrow>
     (\<exists>e. r = res_error e \<and> e \<in> write_errors \<union> {NONE, KEY_ALREADY_PRESENT, KEY_HAS_NO_PARENT})"
| "answers (RemoveReq a) r \<longleftrightarrow>
     (\<exists>e. r = res_error e \<and> e \<in> write_errors \<union> {NONE, KEY_NOT_PRESENT, KEY_HAS_CHILDREN})"
| "answers (SetReq a) r \<longleftrightarrow> (\<exists>e. r = res_error e \<and> e \<in> write_errors \<union> {NONE, KEY_NOT_PRESENT})"
| "answers (GetReq a) r \<longleftrightarrow> (\<exists>v. r = Res_val v) \<or>
     (\<exists>e. r = res_error e \<and> e \<in> {REPLICA_NOT_PRIMARY, KEY_MALFORMED, KEY_NOT_PRESENT})"
| "answers (ListReq a) r \<longleftrightarrow> (\<exists>ks. r = Res_keys ks) \<or>
     (\<exists>e. r = res_error e \<and> e \<in> {REPLICA_NOT_PRIMARY, KEY_MALFORMED, KEY_NOT_PRESENT})"

lemma catch_replication_answer:
  "catch_replication r = Return x t \<Longrightarrow>
   \<exists>e. x = res_error e \<and> e \<in> {NONE, QUORUM_NOT_REACHED, STATUS_NOT_NORMAL}"
  by (cases r) (auto split: exn.splits)

lemma with_pruned_Return:
  "with_pruned p s f = Return x t \<Longrightarrow> \<exists>i k. p = Return i k \<and> f i k = Return x t"
  by (cases p) auto

lemma dispatch_answers:
  assumes "KvStoreApi_dispatch R req s = Return r t"
  shows "answers req r"
proof (cases req)
  case (CreateReq a)
  then show ?thesis
    using assms checkKeyFormat_cases [of "kvp_key a"]
    by (auto simp: api_create_def Let_def write_errors_def split: if_splits
        dest!: with_pruned_Return catch_replication_answer)
next
  case (RemoveReq a)
  then show ?thesis
    using assms checkKeyFormat_cases [of a]
    by (auto simp: api_remove_def write_errors_def split: if_splits
        dest!: with_pruned_Return catch_replication_answer)
next
  case (SetReq a)
  then show ?thesis
    using assms checkKeyFormat_cases [of "kvp_key a"]
    by (auto simp: api_set_def write_errors_def split: if_splits
        dest!: with_pruned_Return catch_replication_answer)
next
  case (GetReq a)
  then show ?thesis
    using assms checkKeyFormat_cases [of a]
    by (auto simp: api_get_def outcome_simps split: if_splits dest!: with_pruned_Return)
next
  case (ListReq a)
  then show ?thesis
    using assms checkKeyFormat_cases [of a]
    by (auto simp: api_list_def list_keys_def split: if_splits option.splits dest!: with_pruned_Return)
qed

section \<open>Clients of a conforming server\<close>

locale kv_server =
  fixes invoke :: "'w rpc_invoke"
  assumes answer: "invoke req w = Return r t \<Longrightarrow> answers req r"
begin

lemma create_outcome:
  "Client_create invoke p v w = (case invoke (CreateReq \<lparr>kvp_key = p, kvp_val = v\<rparr>) w of
      Abort \<Rightarrow> Abort
    | Raise e t \<Rightarrow> Raise e t
    | Return r t \<Rightarrow>
        if r = res_error NONE then Return True t
        else if r = res_error KEY_ALREADY_PRESENT then Return False t
        else Raise (ClientException (the (getClientError (projr (Result_err r))))) t)"
  using answer [of "CreateReq \<lparr>kvp_key = p, kvp_val = v\<rparr>" w]
  by (auto simp: Client_create_def access_def throw_client_def write_errors_def split: res.splits)

lemma remove_outcome:
  "Client_remove invoke p w = (case invoke (RemoveReq p) w of
      Abort \<Rightarrow> Abort
    | Raise e t \<Rightarrow> Raise e t
    | Return r t \<Rightarrow>
        if r = res_error NONE then Return True t
        else if r = res_error KEY_NOT_PRESENT then Return False t
        else Raise (ClientException (the (getClientError (projr (Result_err r))))) t)"
  using answer [of "RemoveReq p" w]
  by (auto simp: Client_remove_def access_def throw_client_def write_errors_def split: res.splits)

lemma set_outcome:
  "Client_set invoke p v w = (case invoke (SetReq \<lparr>kvp_key = p, kvp_val = v\<rparr>) w of
      Abort \<Rightarrow> Abort
    | Raise e t \<Rightarrow> Raise e t
    | Return r t \<Rightarrow>
        if r = res_error NONE then Return () t
        else Raise (ClientException (the (getClientError (projr (Result_err r))))) t)"
  using answer [of "SetReq \<lparr>kvp_key = p, kvp_val = v\<rparr>" w]
  by (auto simp: Client_set_def access_def throw_client_def write_errors_def split: res.splits)

lemma get_outcome:
  "Client_get invoke p w = (case invoke (GetReq p) w of
      Abort \<Rightarrow> Abort
    | Raise e t \<Rightarrow> Raise e t
    | Return r t \<Rightarrow>
        (case r of Res_val v \<Rightarrow> Return v t
         | _ \<Rightarrow> Raise (ClientException (the (getClientError (projr (Result_err r))))) t))"
  using answer [of "GetReq p" w]
  by (auto simp: Client_get_def access_def throw_client_def split: res.splits)

lemma list_outcome:
  "Client_list invoke p w = (case invoke (ListReq p) w of
      Abort \<Rightarrow> Abort
    | Raise e t \<Rightarrow> Raise e t
    | Return r t \<Rightarrow>
        (case r of Res_keys ks \<Rightarrow> Return (fold insort_insert ks []) t
         | _ \<Rightarrow> Raise (ClientException (the (getClientError (projr (Result_err r))))) t))"
  using answer [of "ListReq p" w]
  by (auto simp: Client_list_def access_def throw_client_def split: res.splits)

lemmas client_outcomes = create_outcome remove_outcome set_outcome get_outcome list_outcome

end

interpretation served: kv_server "KvStoreApi_dispatch R" for R
  by unfold_locales (rule dispatch_answers)

lemma fold_insort_insert:
  "sorted acc \<Longrightarrow> distinct acc \<Longrightarrow>
   sorted (fold insort_insert ks acc) \<and> distinct (fold insort_insert ks acc) \<and>
   set (fold insort_insert ks acc) = set ks \<union> set acc"
  by (induction ks arbitrary: acc)
    (auto simp: sorted_insort_insert distinct_insort_insert set_insort_insert)

section \<open>Properties\<close>

text \<open>A client call ends as the server's call did: with a value or a client exception when it returned.\<close>

fun handled :: "('w, Result) res \<Rightarrow> ('w, 'x) res \<Rightarrow> bool" where
  "handled Abort c \<longleftrightarrow> c = Abort"
| "handled (Raise e t) c \<longleftrightarrow> c = Raise e t"
| "handled (Return r t) c \<longleftrightarrow> (\<exists>x. c = Return x t) \<or> (\<exists>e. c = Raise (ClientException e) t)"

text \<open>C37. The client library handles every answer of a server: when the server's call returns, the library
  neither fails an assertion nor reads the wrong arm of the result; it returns a value or throws the
  exception of the error code.\<close>

theorem client_handles_answers:
  "handled (KvStoreApi_dispatch R (CreateReq \<lparr>kvp_key = p, kvp_val = v\<rparr>) s)
     (Client_create (KvStoreApi_dispatch R) p v s) \<and>
   handled (KvStoreApi_dispatch R (RemoveReq p) s) (Client_remove (KvStoreApi_dispatch R) p s) \<and>
   handled (KvStoreApi_dispatch R (SetReq \<lparr>kvp_key = p, kvp_val = v\<rparr>) s)
     (Client_set (KvStoreApi_dispatch R) p v s) \<and>
   handled (KvStoreApi_dispatch R (GetReq p) s) (Client_get (KvStoreApi_dispatch R) p s) \<and>
   handled (KvStoreApi_dispatch R (ListReq p) s) (Client_list (KvStoreApi_dispatch R) p s)"
proof (intro conjI)
  show "handled (KvStoreApi_dispatch R (CreateReq \<lparr>kvp_key = p, kvp_val = v\<rparr>) s)
      (Client_create (KvStoreApi_dispatch R) p v s)"
    unfolding served.create_outcome
    by (cases "KvStoreApi_dispatch R (CreateReq \<lparr>kvp_key = p, kvp_val = v\<rparr>) s") auto
  show "handled (KvStoreApi_dispatch R (RemoveReq p) s) (Client_remove (KvStoreApi_dispatch R) p s)"
    unfolding served.remove_outcome by (cases "KvStoreApi_dispatch R (RemoveReq p) s") auto
  show "handled (KvStoreApi_dispatch R (SetReq \<lparr>kvp_key = p, kvp_val = v\<rparr>) s)
      (Client_set (KvStoreApi_dispatch R) p v s)"
    unfolding served.set_outcome
    by (cases "KvStoreApi_dispatch R (SetReq \<lparr>kvp_key = p, kvp_val = v\<rparr>) s") simp_all
  show "handled (KvStoreApi_dispatch R (GetReq p) s) (Client_get (KvStoreApi_dispatch R) p s)"
    unfolding served.get_outcome
    by (cases "KvStoreApi_dispatch R (GetReq p) s") (simp_all split: Result.split)
  show "handled (KvStoreApi_dispatch R (ListReq p) s) (Client_list (KvStoreApi_dispatch R) p s)"
    unfolding served.list_outcome
    by (cases "KvStoreApi_dispatch R (ListReq p) s") (simp_all split: Result.split)
qed

end
