(* ===== verification/Dispatch.thy ===== *)
theory Dispatch
  imports Xdr Config KvsClient
begin

text \<open>
  The calls between processes: the procedure tables and \<open>call_dispatch\<close> functions generated from
  the interface files, the client stubs (\<open>server/vsReplicationClient.cc\<close>, \<open>viewChangeClient.cc\<close>,
  \<open>recoveryClient.cc\<close>), the server objects that hand a call to the replicator
  (\<open>server/vsReplicationImpl.cc\<close>, \<open>viewChangeImpl.cc\<close>, \<open>recoveryImpl.cc\<close>) and \<open>main\<close> of the
  server.

  The service object of the XDR library, which decodes the arguments of a procedure and calls it,
  is an argument; the locale \<open>srpc_service\<close> states what it does with well-formed arguments.
\<close>

section \<open>Procedures\<close>

datatype KvProc = create_t | remove_t | set_t | get_t | list_t

fun KvProc_proc :: "KvProc \<Rightarrow> u32" where
  "KvProc_proc create_t = 1"
| "KvProc_proc remove_t = 2"
| "KvProc_proc set_t = 3"
| "KvProc_proc get_t = 4"
| "KvProc_proc list_t = 5"

datatype RepProc = prepare_t | prepareOk_t | commit_t

fun RepProc_proc :: "RepProc \<Rightarrow> u32" where
  "RepProc_proc prepare_t = 1"
| "RepProc_proc prepareOk_t = 2"
| "RepProc_proc commit_t = 3"

datatype VcProc = startViewChange_t | doViewChange_t | startView_t

fun VcProc_proc :: "VcProc \<Rightarrow> u32" where
  "VcProc_proc startViewChange_t = 1"
| "VcProc_proc doViewChange_t = 2"
| "VcProc_proc startView_t = 3"

datatype RecProc = recoveryRequest_t | recoveryResponse_t

fun RecProc_proc :: "RecProc \<Rightarrow> u32" where
  "RecProc_proc recoveryRequest_t = 1"
| "RecProc_proc recoveryResponse_t = 2"

definition KvStoreApi_program :: u32 where
  "KvStoreApi_program = 1074036870"

definition ReplicationApi_program :: u32 where
  "ReplicationApi_program = 1074036872"

definition ViewChangeApi_program :: u32 where
  "ViewChangeApi_program = 1074036992"

definition RecoveryApi_program :: u32 where
  "RecoveryApi_program = 1074036994"

section \<open>The client side\<close>

text \<open>A call on the wire: program, procedure and serialised arguments.\<close>

type_synonym 'w rpc_call = "u32 \<times> u32 \<times> 'w list"

definition KvStoreApi_invoke :: "KvProc \<Rightarrow> 'w list \<Rightarrow> 'w rpc_call" where
  "KvStoreApi_invoke P ws = (KvStoreApi_program, KvProc_proc P, ws)"

definition ReplicationApi_invoke :: "RepProc \<Rightarrow> 'w list \<Rightarrow> 'w rpc_call" where
  "ReplicationApi_invoke P ws = (ReplicationApi_program, RepProc_proc P, ws)"

definition ViewChangeApi_invoke :: "VcProc \<Rightarrow> 'w list \<Rightarrow> 'w rpc_call" where
  "ViewChangeApi_invoke P ws = (ViewChangeApi_program, VcProc_proc P, ws)"

definition RecoveryApi_invoke :: "RecProc \<Rightarrow> 'w list \<Rightarrow> 'w rpc_call" where
  "RecoveryApi_invoke P ws = (RecoveryApi_program, RecProc_proc P, ws)"

fun request_call :: "'w archive \<Rightarrow> request \<Rightarrow> 'w rpc_call" where
  "request_call ar (CreateReq a) = KvStoreApi_invoke create_t (save_KvPair ar a)"
| "request_call ar (RemoveReq a) = KvStoreApi_invoke remove_t (put_xstring ar a)"
| "request_call ar (SetReq a) = KvStoreApi_invoke set_t (save_KvPair ar a)"
| "request_call ar (GetReq a) = KvStoreApi_invoke get_t (put_xstring ar a)"
| "request_call ar (ListReq a) = KvStoreApi_invoke list_t (put_xstring ar a)"

definition VsReplicationClient_prepare :: "'w archive \<Rightarrow> PrepInfo \<Rightarrow> 'w rpc_call" where
  "VsReplicationClient_prepare ar prepInfo = ReplicationApi_invoke prepare_t (save_PrepInfo ar prepInfo)"

definition VsReplicationClient_prepareOk :: "'w archive \<Rightarrow> PrepResponse \<Rightarrow> 'w rpc_call" where
  "VsReplicationClient_prepareOk ar prepResponse =
     ReplicationApi_invoke prepareOk_t (save_PrepResponse ar prepResponse)"

definition VsReplicationClient_commit :: "'w archive \<Rightarrow> CommitInfo \<Rightarrow> 'w rpc_call" where
  "VsReplicationClient_commit ar commitInfo =
     ReplicationApi_invoke commit_t (save_CommitInfo ar commitInfo)"

definition ViewChangeClient_startViewChange :: "'w archive \<Rightarrow> ViewChangeRequest \<Rightarrow> 'w rpc_call" where
  "ViewChangeClient_startViewChange ar viewChangeReq =
     ViewChangeApi_invoke startViewChange_t (save_ViewChangeRequest ar viewChangeReq)"

definition ViewChangeClient_doViewChange :: "'w archive \<Rightarrow> ViewChangeInfo \<Rightarrow> 'w rpc_call" where
  "ViewChangeClient_doViewChange ar viewChangeInfo =
     ViewChangeApi_invoke doViewChange_t (save_ViewChangeInfo ar viewChangeInfo)"

definition ViewChangeClient_startView :: "'w archive \<Rightarrow> ViewStartInfo \<Rightarrow> 'w rpc_call" where
  "ViewChangeClient_startView ar viewStartInfo =
     ViewChangeApi_invoke startView_t (save_ViewStartInfo ar viewStartInfo)"

definition RecoveryClient_recoveryRequest :: "'w archive \<Rightarrow> RecoveryRequest \<Rightarrow> 'w rpc_call" where
  "RecoveryClient_recoveryRequest ar recoveryReq =
     RecoveryApi_invoke recoveryRequest_t (save_RecoveryRequest ar recoveryReq)"

definition RecoveryClient_recoveryResponse :: "'w archive \<Rightarrow> RecoveryResponse \<Rightarrow> 'w rpc_call" where
  "RecoveryClient_recoveryResponse ar recoveryResp =
     RecoveryApi_invoke recoveryResponse_t (save_RecoveryResponse ar recoveryResp)"

text \<open>The call that carries a message.\<close>

fun message_call :: "'w archive \<Rightarrow> message \<Rightarrow> 'w rpc_call" where
  "message_call ar (Prepare p) = VsReplicationClient_prepare ar p"
| "message_call ar (PrepareOk p) = VsReplicationClient_prepareOk ar p"
| "message_call ar (message.Commit c) = VsReplicationClient_commit ar c"
| "message_call ar (StartViewChange v) = ViewChangeClient_startViewChange ar v"
| "message_call ar (DoViewChange v) = ViewChangeClient_doViewChange ar v"
| "message_call ar (StartView v) = ViewChangeClient_startView ar v"
| "message_call ar (RecoveryReq q) = RecoveryClient_recoveryRequest ar q"
| "message_call ar (RecoveryResp q) = RecoveryClient_recoveryResponse ar q"

section \<open>The server side\<close>

text \<open>The arguments of a procedure, read at its \<open>arg_type\<close>.\<close>

fun KvProc_arg :: "'w archive \<Rightarrow> KvProc \<Rightarrow> ('w, request) loader" where
  "KvProc_arg ar create_t = load_bind (load_KvPair ar) (\<lambda>a. load_ret (CreateReq a))"
| "KvProc_arg ar remove_t = load_bind (get_xstring ar XDR_MAX_LEN) (\<lambda>a. load_ret (RemoveReq a))"
| "KvProc_arg ar set_t = load_bind (load_KvPair ar) (\<lambda>a. load_ret (SetReq a))"
| "KvProc_arg ar get_t = load_bind (get_xstring ar XDR_MAX_LEN) (\<lambda>a. load_ret (GetReq a))"
| "KvProc_arg ar list_t = load_bind (get_xstring ar XDR_MAX_LEN) (\<lambda>a. load_ret (ListReq a))"

fun RepProc_arg :: "'w archive \<Rightarrow> RepProc \<Rightarrow> ('w, message) loader" where
  "RepProc_arg ar prepare_t = load_bind (load_PrepInfo ar) (\<lambda>a. load_ret (Prepare a))"
| "RepProc_arg ar prepareOk_t = load_bind (load_PrepResponse ar) (\<lambda>a. load_ret (PrepareOk a))"
| "RepProc_arg ar commit_t = load_bind (load_CommitInfo ar) (\<lambda>a. load_ret (message.Commit a))"

fun VcProc_arg :: "'w archive \<Rightarrow> VcProc \<Rightarrow> ('w, message) loader" where
  "VcProc_arg ar startViewChange_t = load_bind (load_ViewChangeRequest ar) (\<lambda>a. load_ret (StartViewChange a))"
| "VcProc_arg ar doViewChange_t = load_bind (load_ViewChangeInfo ar) (\<lambda>a. load_ret (DoViewChange a))"
| "VcProc_arg ar startView_t = load_bind (load_ViewStartInfo ar) (\<lambda>a. load_ret (StartView a))"

fun RecProc_arg :: "'w archive \<Rightarrow> RecProc \<Rightarrow> ('w, message) loader" where
  "RecProc_arg ar recoveryRequest_t = load_bind (load_RecoveryRequest ar) (\<lambda>a. load_ret (RecoveryReq a))"
| "RecProc_arg ar recoveryResponse_t = load_bind (load_RecoveryResponse ar) (\<lambda>a. load_ret (RecoveryResp a))"

text \<open>
  \<open>call_dispatch\<close>: select the procedure by its number and hand it to the service object \<open>t\<close>, whose
  result is the serialised answer; \<^term>\<open>None\<close> is the return value \<open>false\<close>.
\<close>

definition KvStoreApi_call_dispatch ::
  "(KvProc \<Rightarrow> 'w list \<Rightarrow> 's \<Rightarrow> ('s, 'w list) res) \<Rightarrow> u32 \<Rightarrow> 'w list \<Rightarrow> 's \<Rightarrow> ('s, 'w list option) res" where
  "KvStoreApi_call_dispatch t proc ws s =
     (let run = (\<lambda>P. bind_res (t P ws s) (\<lambda>reply s. Return (Some reply) s))
      in if proc = 1 then run create_t
         else if proc = 2 then run remove_t
         else if proc = 3 then run set_t
         else if proc = 4 then run get_t
         else if proc = 5 then run list_t
         else Return None s)"

definition ReplicationApi_call_dispatch ::
  "(RepProc \<Rightarrow> 'w list \<Rightarrow> 's \<Rightarrow> ('s, 'w list) res) \<Rightarrow> u32 \<Rightarrow> 'w list \<Rightarrow> 's \<Rightarrow> ('s, 'w list option) res" where
  "ReplicationApi_call_dispatch t proc ws s =
     (let run = (\<lambda>P. bind_res (t P ws s) (\<lambda>reply s. Return (Some reply) s))
      in if proc = 1 then run prepare_t
         else if proc = 2 then run prepareOk_t
         else if proc = 3 then run commit_t
         else Return None s)"

definition ViewChangeApi_call_dispatch ::
  "(VcProc \<Rightarrow> 'w list \<Rightarrow> 's \<Rightarrow> ('s, 'w list) res) \<Rightarrow> u32 \<Rightarrow> 'w list \<Rightarrow> 's \<Rightarrow> ('s, 'w list option) res" where
  "ViewChangeApi_call_dispatch t proc ws s =
     (let run = (\<lambda>P. bind_res (t P ws s) (\<lambda>reply s. Return (Some reply) s))
      in if proc = 1 then run startViewChange_t
         else if proc = 2 then run doViewChange_t
         else if proc = 3 then run startView_t
         else Return None s)"

definition RecoveryApi_call_dispatch ::
  "(RecProc \<Rightarrow> 'w list \<Rightarrow> 's \<Rightarrow> ('s, 'w list) res) \<Rightarrow> u32 \<Rightarrow> 'w list \<Rightarrow> 's \<Rightarrow> ('s, 'w list option) res" where
  "RecoveryApi_call_dispatch t proc ws s =
     (let run = (\<lambda>P. bind_res (t P ws s) (\<lambda>reply s. Return (Some reply) s))
      in if proc = 1 then run recoveryRequest_t
         else if proc = 2 then run recoveryResponse_t
         else Return None s)"

text \<open>The server objects: each procedure asks the configurator for the replicator and calls it.\<close>

definition with_replicator ::
  "(replica \<Rightarrow> (replica, 'x) res) \<Rightarrow> Configurator \<Rightarrow> (Configurator, 'x) res" where
  "with_replicator f c =
     bind_res (getReplicator c) (\<lambda>s c.
       case f s of
         Abort \<Rightarrow> Abort
       | Raise e s' \<Rightarrow> Raise e (c\<lparr>cf_replicator := Some s'\<rparr>)
       | Return x s' \<Rightarrow> Return x (c\<lparr>cf_replicator := Some s'\<rparr>))"

definition ReplicationApi_prepare :: "PrepInfo \<Rightarrow> Configurator \<Rightarrow> (Configurator, unit) res" where
  "ReplicationApi_prepare arg = with_replicator (\<lambda>s. Return () (processPrepare arg s))"

definition ReplicationApi_prepareOk :: "PrepResponse \<Rightarrow> Configurator \<Rightarrow> (Configurator, unit) res" where
  "ReplicationApi_prepareOk arg = with_replicator (\<lambda>s. Return () (processPrepareOk arg s))"

definition ReplicationApi_commit :: "time_point \<Rightarrow> CommitInfo \<Rightarrow> Configurator \<Rightarrow> (Configurator, unit) res" where
  "ReplicationApi_commit now arg = with_replicator (processCommit now arg)"

definition ViewChangeApi_startViewChange :: "ViewChangeRequest \<Rightarrow> Configurator \<Rightarrow> (Configurator, unit) res" where
  "ViewChangeApi_startViewChange arg = with_replicator (\<lambda>s. Return () (VsReplicator_processStartViewChange arg s))"

definition ViewChangeApi_doViewChange :: "ViewChangeInfo \<Rightarrow> Configurator \<Rightarrow> (Configurator, unit) res" where
  "ViewChangeApi_doViewChange arg = with_replicator (\<lambda>s. Return () (VsReplicator_processDoViewChange arg s))"

definition ViewChangeApi_startView :: "ViewStartInfo \<Rightarrow> Configurator \<Rightarrow> (Configurator, unit) res" where
  "ViewChangeApi_startView arg = with_replicator (VsReplicator_processStartView arg)"

definition RecoveryApi_recoveryRequest :: "RecoveryRequest \<Rightarrow> Configurator \<Rightarrow> (Configurator, unit) res" where
  "RecoveryApi_recoveryRequest arg = with_replicator (\<lambda>s. Return () (VsReplicator_processRecoveryRequest arg s))"

definition RecoveryApi_recoveryResponse :: "RecoveryResponse \<Rightarrow> Configurator \<Rightarrow> (Configurator, unit) res" where
  "RecoveryApi_recoveryResponse arg = with_replicator (\<lambda>s. Return () (VsReplicator_processRecoveryResponse arg s))"

text \<open>What a message makes its receiver do.\<close>

fun receive :: "time_point \<Rightarrow> message \<Rightarrow> Configurator \<Rightarrow> (Configurator, unit) res" where
  "receive now (Prepare p) = ReplicationApi_prepare p"
| "receive now (PrepareOk p) = ReplicationApi_prepareOk p"
| "receive now (message.Commit c) = ReplicationApi_commit now c"
| "receive now (StartViewChange v) = ViewChangeApi_startViewChange v"
| "receive now (DoViewChange v) = ViewChangeApi_doViewChange v"
| "receive now (StartView v) = ViewChangeApi_startView v"
| "receive now (RecoveryReq q) = RecoveryApi_recoveryRequest q"
| "receive now (RecoveryResp q) = RecoveryApi_recoveryResponse q"

text \<open>
  The client calls run on the store of the same process; before \<open>bootStrap\<close> has registered the
  replicator \<open>kvStore->isPrimary()\<close> would follow a null pointer.
\<close>

definition KvStoreApi_serve ::
  "replica rep_env \<Rightarrow> request \<Rightarrow> Configurator \<Rightarrow> (Configurator, Result) res" where
  "KvStoreApi_serve env req = with_replicator (KvStoreApi_dispatch (vsReplicator env) req)"

section \<open>The server process\<close>

text \<open>The two listeners of \<open>main\<close> and the programs registered with each.\<close>

definition rl1_services ::
  "(KvProc \<Rightarrow> 'w list \<Rightarrow> 's \<Rightarrow> ('s, 'w list) res) \<Rightarrow>
   (u32, u32 \<Rightarrow> 'w list \<Rightarrow> 's \<Rightarrow> ('s, 'w list option) res) umap" where
  "rl1_services t = [(KvStoreApi_program, KvStoreApi_call_dispatch t)]"

definition rl2_services ::
  "(RepProc \<Rightarrow> 'w list \<Rightarrow> 's \<Rightarrow> ('s, 'w list) res) \<Rightarrow> (VcProc \<Rightarrow> 'w list \<Rightarrow> 's \<Rightarrow> ('s, 'w list) res) \<Rightarrow>
   (RecProc \<Rightarrow> 'w list \<Rightarrow> 's \<Rightarrow> ('s, 'w list) res) \<Rightarrow>
   (u32, u32 \<Rightarrow> 'w list \<Rightarrow> 's \<Rightarrow> ('s, 'w list option) res) umap" where
  "rl2_services t1 t2 t3 =
     [(ReplicationApi_program, ReplicationApi_call_dispatch t1),
      (ViewChangeApi_program, ViewChangeApi_call_dispatch t2),
      (RecoveryApi_program, RecoveryApi_call_dispatch t3)]"

text \<open>
  \<open>main\<close> up to the threads that serve the two ports: the exit code 1 without a configuration file,
  otherwise the ports it listens on. An exception here is not caught and ends the process;
  \<open>listen\<close> says for which ports \<open>tcp_listen\<close> succeeds.
\<close>

definition server_main ::
  "string list \<Rightarrow> (string \<Rightarrow> string option) \<Rightarrow> (string \<Rightarrow> bool) \<Rightarrow> time_point \<Rightarrow> bool \<Rightarrow> bool \<Rightarrow>
   (Configurator, nat + string \<times> string) res" where
  "server_main argv files listen now uninit1 uninit2 =
     (if length argv < 2 then Return (Inl 1) Configurator_new
      else bind_res (uncaught (bootStrap (files (argv ! 1)) now uninit1 uninit2 Configurator_new)) (\<lambda>_ c.
        let clientPort = getClientPort c; replicationPort = getReplicationPort c
        in if listen clientPort \<and> listen replicationPort
           then Return (Inr (clientPort, replicationPort)) c else Abort))"

section \<open>Client calls through a connection\<close>

text \<open>A client's call through its connection: the request is serialised, routed by the client listener, and
  the answer read back. \<^term>\<open>None\<close> from the dispatcher, and an answer that does not decode, are exceptions.\<close>

definition wire_invoke ::
  "'w archive \<Rightarrow> (KvProc \<Rightarrow> 'w list \<Rightarrow> 's \<Rightarrow> ('s, 'w list) res) \<Rightarrow> 's rpc_invoke" where
  "wire_invoke ar t req w =
     (case request_call ar req of (prog, proc, ws) \<Rightarrow>
        case map_of (rl1_services t) prog of
          None \<Rightarrow> Raise (RuntimeError ''no such program'') w
        | Some d \<Rightarrow> bind_res (d proc ws w) (\<lambda>reply w.
            case reply of
              None \<Rightarrow> Raise (RuntimeError ''no such procedure'') w
            | Some bs \<Rightarrow>
                (case load_Result ar (Result_new 0) bs of
                   Some (r, []) \<Rightarrow> Return r w
                 | _ \<Rightarrow> Raise (RuntimeError ''garbage result'') w)))"

section \<open>Services\<close>

text \<open>
  What the service object of the library does with arguments that decode completely: it runs the
  procedure and serialises its result.
\<close>

locale srpc_service =
  fixes arg :: "'p \<Rightarrow> ('w, 'a) loader"
    and run :: "'a \<Rightarrow> 's \<Rightarrow> ('s, 'r) res"
    and reply :: "'r \<Rightarrow> 'w list"
    and t :: "'p \<Rightarrow> 'w list \<Rightarrow> 's \<Rightarrow> ('s, 'w list) res"
  assumes serves: "arg P ws = Some (a, []) \<Longrightarrow> t P ws s = bind_res (run a s) (\<lambda>r s. Return (reply r) s)"
begin

lemma dispatch_known:
  "arg P ws = Some (a, []) \<Longrightarrow>
   bind_res (t P ws s) (\<lambda>rp s. Return (Some rp) s) = bind_res (run a s) (\<lambda>r s. Return (Some (reply r)) s)"
  by (simp add: serves bind_res_assoc)

end

text \<open>A service that answers undecodable arguments with an exception.\<close>

definition decode_and_run ::
  "('p \<Rightarrow> ('w, 'a) loader) \<Rightarrow> ('a \<Rightarrow> 's \<Rightarrow> ('s, 'r) res) \<Rightarrow> ('r \<Rightarrow> 'w list) \<Rightarrow>
   'p \<Rightarrow> 'w list \<Rightarrow> 's \<Rightarrow> ('s, 'w list) res" where
  "decode_and_run arg run reply P ws s =
     (case arg P ws of
        Some (a, []) \<Rightarrow> bind_res (run a s) (\<lambda>r s. Return (reply r) s)
      | _ \<Rightarrow> Raise (RuntimeError ''garbage arguments'') s)"

interpretation decoding: srpc_service arg run reply "decode_and_run arg run reply" for arg run reply
  by unfold_locales (simp add: decode_and_run_def)

fun request_fits :: "request \<Rightarrow> bool" where
  "request_fits (CreateReq a) \<longleftrightarrow> kv_fits a"
| "request_fits (RemoveReq a) \<longleftrightarrow> length a \<le> XDR_MAX_LEN"
| "request_fits (SetReq a) \<longleftrightarrow> kv_fits a"
| "request_fits (GetReq a) \<longleftrightarrow> length a \<le> XDR_MAX_LEN"
| "request_fits (ListReq a) \<longleftrightarrow> length a \<le> XDR_MAX_LEN"

fun message_fits :: "message \<Rightarrow> bool" where
  "message_fits (Prepare p) \<longleftrightarrow> kv_fits (pi_kvPair p)"
| "message_fits (DoViewChange v) \<longleftrightarrow> log_fits (vci_opLog v)"
| "message_fits (StartView v) \<longleftrightarrow> log_fits (vsi_opLog v)"
| "message_fits (RecoveryResp q) \<longleftrightarrow> log_fits (rrs_opLog q)"
| "message_fits _ \<longleftrightarrow> True"

context xdr_archive
begin

lemma at_end: "(\<And>r. d (e @ r) = Some (x, r)) \<Longrightarrow> load_bind d (\<lambda>a. load_ret (f a)) e = Some (f x, [])"
  using load_bind_last [of d e x "[]"] by (metis append_Nil2 load_ret_def)

lemma xstring_end: "length a \<le> XDR_MAX_LEN \<Longrightarrow>
    load_bind (get_xstring ar XDR_MAX_LEN) (\<lambda>a. load_ret (f a)) (put_xstring ar a) = Some (f a, [])"
  by (rule at_end) (simp add: xstring_back)

lemma KvPair_end: "kv_fits a \<Longrightarrow> load_bind (load_KvPair ar) (\<lambda>a. load_ret (f a)) (save_KvPair ar a) = Some (f a, [])"
  by (rule at_end) (rule KvPair_back)

lemma request_dispatch:
  assumes "srpc_service (KvProc_arg ar) run reply t" "request_fits req" "request_call ar req = (prog, proc, ws)"
  shows "KvStoreApi_call_dispatch t proc ws s = bind_res (run req s) (\<lambda>r s. Return (Some (reply r)) s)"
proof -
  note known = srpc_service.dispatch_known [OF assms(1)]
  show ?thesis
    using assms(2,3)
    by (cases req) (auto simp: KvStoreApi_invoke_def KvStoreApi_call_dispatch_def xstring_end KvPair_end
        intro!: known)
qed

lemma message_dispatch:
  assumes "srpc_service (RepProc_arg ar) run (\<lambda>_. []) t1" "srpc_service (VcProc_arg ar) run (\<lambda>_. []) t2"
    and "srpc_service (RecProc_arg ar) run (\<lambda>_. []) t3"
    and "message_fits m" "message_call ar m = (prog, proc, ws)"
  shows "\<exists>d. map_of (rl2_services t1 t2 t3) prog = Some d \<and>
    d proc ws s = bind_res (run m s) (\<lambda>_ s. Return (Some []) s)"
proof -
  note known = srpc_service.dispatch_known [OF assms(1)] srpc_service.dispatch_known [OF assms(2)]
    srpc_service.dispatch_known [OF assms(3)]
  note prog = ReplicationApi_program_def ViewChangeApi_program_def RecoveryApi_program_def
    ReplicationApi_invoke_def ViewChangeApi_invoke_def RecoveryApi_invoke_def
  show ?thesis
    using assms(4,5)
    by (cases m) (auto simp: prog rl2_services_def ReplicationApi_call_dispatch_def
        ViewChangeApi_call_dispatch_def RecoveryApi_call_dispatch_def
        VsReplicationClient_prepare_def VsReplicationClient_prepareOk_def VsReplicationClient_commit_def
        ViewChangeClient_startViewChange_def ViewChangeClient_doViewChange_def ViewChangeClient_startView_def
        RecoveryClient_recoveryRequest_def RecoveryClient_recoveryResponse_def
        intro!: known at_end PrepInfo_back PrepResponse_back CommitInfo_back ViewChangeRequest_back
        ViewChangeInfo_back ViewStartInfo_back RecoveryRequest_back RecoveryResponse_back)
qed

end

section \<open>Properties\<close>

lemma serve_answers:
  "KvStoreApi_serve env req c = Return r c' \<Longrightarrow> answers req r"
  by (auto simp: KvStoreApi_serve_def with_replicator_def outcome_simps getReplicator_def
      split: option.splits res.splits dest: dispatch_answers)

lemma answers_discriminant: "answers req r \<Longrightarrow> with_discriminant 0 r = r"
  by (cases req) auto

lemma request_program: "request_call ar req = (prog, proc, ws) \<Longrightarrow> prog = KvStoreApi_program"
  by (cases req) (auto simp: KvStoreApi_invoke_def)

lemma wire_invoke_serves:
  assumes ar: "xdr_archive ar" and t: "srpc_service (KvProc_arg ar) (KvStoreApi_serve env) (save_Result ar) t"
    and fits: "request_fits req" "\<And>r c'. KvStoreApi_serve env req c = Return r c' \<Longrightarrow> result_fits r"
  shows "wire_invoke ar t req c = KvStoreApi_serve env req c"
proof -
  obtain prog proc ws where q: "request_call ar req = (prog, proc, ws)"
    using prod_cases3 by blast
  have d: "KvStoreApi_call_dispatch t proc ws c =
      bind_res (KvStoreApi_serve env req c) (\<lambda>r c. Return (Some (save_Result ar r)) c)"
    using ar t fits(1) q by (rule xdr_archive.request_dispatch)
  have "load_Result ar (Result_new 0) (save_Result ar r) = Some (r, [])" if "KvStoreApi_serve env req c = Return r c'" for r c'
    using xdr_archive.Result_back [OF ar fits(2) [OF that], of "[]"] answers_discriminant [OF serve_answers [OF that]] by simp
  then show ?thesis
    by (cases "KvStoreApi_serve env req c") (simp_all add: wire_invoke_def q request_program [OF q] rl1_services_def d)
qed

lemma create_fits: "KvStoreApi_serve env (CreateReq a) c = Return r c' \<Longrightarrow> result_fits r"
  using serve_answers [of env "CreateReq a" c r c'] by auto

text \<open>The state of the replicator that a call leaves, in the process around it.\<close>

fun in_process :: "Configurator \<Rightarrow> (replica, 'x) res \<Rightarrow> (Configurator, 'x) res" where
  "in_process c Abort = Abort"
| "in_process c (Raise e s) = Raise e (c\<lparr>cf_replicator := Some s\<rparr>)"
| "in_process c (Return x s) = Return x (c\<lparr>cf_replicator := Some s\<rparr>)"

lemma serve_with_replicator:
  assumes "cf_replicator c = Some s"
  shows "KvStoreApi_serve env req c = in_process c (KvStoreApi_dispatch (vsReplicator env) req s)"
  using assms by (cases "KvStoreApi_dispatch (vsReplicator env) req s")
    (simp_all add: KvStoreApi_serve_def with_replicator_def getReplicator_def del: KvStoreApi_dispatch.simps)

lemma client_create_wire:
  assumes ar: "xdr_archive ar" and t: "srpc_service (KvProc_arg ar) (KvStoreApi_serve env) (save_Result ar) t"
    and "kv_fits \<lparr>kvp_key = p, kvp_val = v\<rparr>" "cf_replicator c = Some s"
  shows "Client_create (wire_invoke ar t) p v c =
    in_process c (Client_create (KvStoreApi_dispatch (vsReplicator env)) p v s)"
proof -
  let ?q = "CreateReq \<lparr>kvp_key = p, kvp_val = v\<rparr>"
  have "wire_invoke ar t ?q c = KvStoreApi_serve env ?q c"
    using assms(3) create_fits by (intro wire_invoke_serves [OF ar t]) auto
  then show ?thesis
    by (cases "KvStoreApi_dispatch (vsReplicator env) ?q s")
      (auto simp: Client_create_def serve_with_replicator [OF assms(4)] access_def throw_client_def
        simp del: KvStoreApi_dispatch.simps split: sum.splits option.splits)
qed

lemma client_get_wire:
  assumes ar: "xdr_archive ar" and t: "srpc_service (KvProc_arg ar) (KvStoreApi_serve env) (save_Result ar) t"
    and "length q \<le> XDR_MAX_LEN" "length v \<le> XDR_MAX_LEN" "cf_replicator c = Some s"
    and g: "KvStoreApi_dispatch (vsReplicator env) (GetReq q) s = Return (Res_val v) s"
  shows "Client_get (wire_invoke ar t) q c = Return v c"
proof -
  have s: "KvStoreApi_serve env (GetReq q) c = Return (Res_val v) c"
    using g assms(5) by (simp add: serve_with_replicator [OF assms(5)] del: KvStoreApi_dispatch.simps)
  have "wire_invoke ar t (GetReq q) c = Return (Res_val v) c"
    using assms(3,4) by (subst wire_invoke_serves [OF ar t]) (auto simp: s)
  then show ?thesis
    by (simp add: Client_get_def access_def)
qed

text \<open>C33. A client call over the wire: the serialised call of a request, routed by its program and
  procedure number, runs the request on the store and is answered with bytes that the client reads
  back as the server's result, with nothing left over.\<close>

theorem kv_call_over_wire:
  assumes "xdr_archive ar" "srpc_service (KvProc_arg ar) (KvStoreApi_serve env) (save_Result ar) t"
    and "request_fits req" "request_call ar req = (prog, proc, ws)"
    and "KvStoreApi_serve env req c = Return r c'" "result_fits r"
  shows "\<exists>d reply. map_of (rl1_services t) prog = Some d \<and> d proc ws c = Return (Some reply) c' \<and>
    load_Result ar (Result_new 0) reply = Some (r, [])"
proof -
  have "prog = KvStoreApi_program"
    using assms(4) by (rule request_program)
  moreover have "KvStoreApi_call_dispatch t proc ws c = Return (Some (save_Result ar r)) c'"
    using xdr_archive.request_dispatch [OF assms(1-4)] assms(5) by simp
  moreover have "load_Result ar (Result_new 0) (save_Result ar r) = Some (r, [])"
    using xdr_archive.Result_back [OF assms(1,6), of "[]"]
      answers_discriminant [OF serve_answers [OF assms(5)]] by simp
  ultimately show ?thesis
    by (simp add: rl1_services_def)
qed

definition ex_conf :: Configurator where
  "ex_conf = \<lparr>cf_replicaId = 0, cf_clientPort = ''9000'', cf_replicationPort = ''7000'', cf_replicas = [],
     cf_replicator = Some ((replica_new 0 [] 0 False)
       \<lparr>kvMap := [(''/a'', ''1'')], replicatorRegistered := True, threadsStarted := True\<rparr>)\<rparr>"

definition ex_rep_env :: "replica rep_env" where
  "ex_rep_env = \<lparr>rpe_net = (\<lambda>_ _ _. (True, CallOk)), rpe_lock = (\<lambda>s. s), rpe_wait = (\<lambda>s. (timeout, s))\<rparr>"

theorem kv_call_over_wire_witness:
  "\<exists>d reply. map_of (rl1_services (decode_and_run (KvProc_arg rfc4506) (KvStoreApi_serve ex_rep_env)
       (save_Result rfc4506))) KvStoreApi_program = Some d \<and>
     d 4 (put_xstring rfc4506 ''/a'') ex_conf = Return (Some reply) ex_conf \<and>
     load_Result rfc4506 (Result_new 0) reply = Some (Res_val ''1'', [])"
proof (rule kv_call_over_wire [OF rfc.xdr_archive_axioms decoding.srpc_service_axioms])
  show "request_call rfc4506 (GetReq ''/a'') = (KvStoreApi_program, 4, put_xstring rfc4506 ''/a'')"
    by (simp add: KvStoreApi_invoke_def)
  have k: "checkKeyFormat ''/a'' = NONE" "pruneKey ''/a'' = Return 0 ''/a''"
    by (code_simp, code_simp)
  show "KvStoreApi_serve ex_rep_env (GetReq ''/a'') ex_conf = Return (Res_val ''1'') ex_conf"
    by (simp add: KvStoreApi_serve_def with_replicator_def getReplicator_def ex_conf_def api_get_def
        vsReplicator_def VsReplicator_isPrimary_def replica_new_def ReplicaState_new_def k hasKey_def
        KvMemStore_get_def)
qed (simp_all add: XDR_MAX_LEN_def)

text \<open>C34. A call between replicas over the wire: the call a client stub makes for a message, routed by
  the replication listener, runs the handler of exactly this message on the replicator.\<close>

theorem replica_call_over_wire:
  assumes "xdr_archive ar"
    and "srpc_service (RepProc_arg ar) (receive now) (\<lambda>_. []) t1"
    and "srpc_service (VcProc_arg ar) (receive now) (\<lambda>_. []) t2"
    and "srpc_service (RecProc_arg ar) (receive now) (\<lambda>_. []) t3"
    and "message_fits m" "message_call ar m = (prog, proc, ws)"
  shows "\<exists>d. map_of (rl2_services t1 t2 t3) prog = Some d \<and>
    d proc ws c = bind_res (receive now m c) (\<lambda>_ c. Return (Some []) c)"
  using assms by (rule xdr_archive.message_dispatch)

theorem replica_call_over_wire_witness:
  "\<exists>d. map_of (rl2_services (decode_and_run (RepProc_arg rfc4506) (receive 5) (\<lambda>_. []))
       (decode_and_run (VcProc_arg rfc4506) (receive 5) (\<lambda>_. []))
       (decode_and_run (RecProc_arg rfc4506) (receive 5) (\<lambda>_. []))) RecoveryApi_program = Some d \<and>
     d 1 (save_RecoveryRequest rfc4506 \<lparr>rrq_replicaId = 1, rrq_nonce = 7, rrq_knownCommitNum = 0\<rparr>) ex_conf =
       bind_res (receive 5 (RecoveryReq \<lparr>rrq_replicaId = 1, rrq_nonce = 7, rrq_knownCommitNum = 0\<rparr>) ex_conf)
         (\<lambda>_ c. Return (Some []) c)"
  by (rule replica_call_over_wire [OF rfc.xdr_archive_axioms decoding.srpc_service_axioms
        decoding.srpc_service_axioms decoding.srpc_service_axioms])
    (simp_all add: RecoveryClient_recoveryRequest_def RecoveryApi_invoke_def)

text \<open>C35. The start of a server from a configuration file. The file is any sequence of comments, empty lines and the four
  settings, in any order, with blanks around a line; it sets the two ports and a list of end points in which
  exactly one is local with the replication port. Then the server listens on the two ports, its id is the position of its
  own end point, it knows exactly the other replicas, and its replicator is registered and started: in recovery
  when the file says \<open>true\<close>, and when it does not, if the uninitialised field \<open>recovering\<close> happens to be true.\<close>

theorem server_starts:
  assumes "\<forall>x \<in> set ls. line_ok x"
    and "cfg_settings ls uninit = \<lparr>ui_clientPort = cport, ui_replicationPort = rport, ui_endPoints = eps, ui_recovering = rec\<rparr>"
    and "cport \<noteq> []" "rport \<noteq> []"
    and "length eps < 2 ^ 32 - 1" "\<forall>j < length eps. is_local rport (eps ! j) \<longleftrightarrow> j = k" "k < length eps"
    and "2 \<le> length argv" "files (argv ! 1) = Some (cfg_text ls)" "listen cport" "listen rport"
  shows "\<exists>c s. server_main argv files listen now uninit u = Return (Inr (cport, rport)) c \<and>
    cf_replicator c = Some s \<and> selfId s = of_nat k \<and> replicas s = peers eps k \<and> cf_replicas c = peers eps k \<and>
    threadsStarted s \<and> replicatorRegistered s \<and> kvMap s = [] \<and> oplog s = InMemOpLog_new \<and>
    status s = (if (\<exists>a b. (a, RecoveringLine ''true'', b) \<in> set ls) \<or> uninit then RECOVERING else NORMAL)"
proof -
  have "ui_recovering (fold line_sets ls x) \<longleftrightarrow> (\<exists>a b. (a, RecoveringLine ''true'', b) \<in> set ls) \<or> ui_recovering x" for x
  proof (induction ls arbitrary: x)
    case (Cons y ls)
    have "ui_recovering (line_sets y x) \<longleftrightarrow> (\<exists>a b. y = (a, RecoveringLine ''true'', b)) \<or> ui_recovering x"
      by (cases "(y, x)" rule: line_sets.cases) auto
    then show ?case
      using Cons.IH [of "line_sets y x"] by auto
  qed simp
  then have "rec \<longleftrightarrow> (\<exists>a b. (a, RecoveringLine ''true'', b) \<in> set ls) \<or> uninit"
    using arg_cong [OF assms(2), of ui_recovering] by (simp add: cfg_settings_def)
  then show ?thesis
    using bootStrap_cfg_text [OF assms(1-7), of now u] assms(8-11)
    by (auto simp: server_main_def start_replica_Return replica_new_def getClientPort_def getReplicationPort_def)
qed

theorem server_starts_witness:
  "\<exists>c s. server_main [''server'', ''cfg''] [''cfg'' \<mapsto> cfg_text test_config] (\<lambda>_. True) 0 False False =
       Return (Inr (''4004'', ''5008'')) c \<and>
     cf_replicator c = Some s \<and> selfId s = 0 \<and> status s = NORMAL"
proof -
  let ?eps = "map (\<lambda>p. \<lparr>ep_ip = ''localhost'', ep_port = p\<rparr>) [''5008'', ''5010'', ''5012'', ''5014'', ''5016'']"
  have "\<forall>j < length ?eps. is_local ''5008'' (?eps ! j) \<longleftrightarrow> j = 0"
    by (auto simp: is_local_def less_Suc_eq numeral_eq_Suc)
  moreover have "\<forall>x \<in> set test_config. line_ok x"
    by (simp add: test_config_def cfg_word_def cfg_ep_def)
  moreover have "cfg_settings test_config False =
      \<lparr>ui_clientPort = ''4004'', ui_replicationPort = ''5008'', ui_endPoints = ?eps, ui_recovering = False\<rparr>"
    by (simp add: cfg_settings_def test_config_def)
  ultimately show ?thesis
    using server_starts [of test_config False "''4004''" "''5008''" ?eps False 0 "[''server'', ''cfg'']"
      "[''cfg'' \<mapsto> cfg_text test_config]" "\<lambda>_. True" 0 False]
    by (auto simp: test_config_def)
qed

end
