(* ===== verification/Node.thy ===== *)
theory Node
  imports Failover Dispatch
begin

text \<open>
  Runs of one replica with all its threads, view changes and recovery included, for any messages and
  any network. Every handler keeps the view number and the invariant below (\<open>calm\<close>); a round of the
  heartbeat thread ends in the old or the next view (\<open>entered\<close>); runs interleave them.
\<close>

section \<open>The invariant of one replica\<close>

text \<open>
  The log files every entry under its number and has an entry for every number it lists; the messages
  of a view change are filed under the view they name; a replica leaves view 0 only after it recovered.
\<close>

definition node_inv :: "'a vch_scheme \<Rightarrow> bool" where
  "node_inv s \<longleftrightarrow> log_inv (oplog s) \<and> um_wf (kvMap s) \<and>
     (\<forall>v x. x \<in> set (viewChangeInfos v s) \<longrightarrow> vci_viewNum x = v) \<and>
     (\<forall>v x. map_of (viewStartInfoMap s) v = Some x \<longrightarrow> vsi_viewNum x = v) \<and>
     (status s = RECOVERING \<longrightarrow> viewNum s = 0)"

text \<open>What the threads other than the heartbeat do to a replica.\<close>

definition calm :: "'a vch_scheme \<Rightarrow> 'a vch_scheme \<Rightarrow> bool" where
  "calm s t \<longleftrightarrow> selfId t = selfId s \<and> viewNum t = viewNum s \<and>
     (status t = RECOVERING \<longleftrightarrow> status s = RECOVERING) \<and> (node_inv s \<longrightarrow> node_inv t)"

lemma apply_entry_view_maps [simp]:
  "viewChangeInfoMap (apply_entry e s) = viewChangeInfoMap s"
  "viewStartInfoMap (apply_entry e s) = viewStartInfoMap s"
  by (simp_all add: apply_entry_def updateCb_def setInt_def deleteCb_def removeInt_def split: OpType.split)

lemma viewChangeInfos_cong: "viewChangeInfoMap t = viewChangeInfoMap s \<Longrightarrow> viewChangeInfos v t = viewChangeInfos v s"
  by (simp add: viewChangeInfos_def)

lemma viewChangeInfos_update [simp]:
  "viewChangeInfos v (s\<lparr>kvMap := kv\<rparr>) = viewChangeInfos v s" "viewChangeInfos v (s\<lparr>rstate := r\<rparr>) = viewChangeInfos v s"
  "viewChangeInfos v (s\<lparr>oplog := l\<rparr>) = viewChangeInfos v s"
  "viewChangeInfos v (s\<lparr>viewStartInfoMap := m\<rparr>) = viewChangeInfos v s"
  "viewChangeInfos v (s\<lparr>startViewMap := wm\<rparr>) = viewChangeInfos v s"
  "viewChangeInfos v (s\<lparr>doViewChangeMap := wm\<rparr>) = viewChangeInfos v s"
  "viewChangeInfos v (apply_entry e s) = viewChangeInfos v s"
  "viewChangeInfos v (s\<lparr>viewChangeInfoMap := um_put w xs m'\<rparr>) =
     (if v = w then xs else case map_of m' v of None \<Rightarrow> [] | Some xs \<Rightarrow> xs)"
  by (simp_all add: viewChangeInfos_def)

lemma calm_refl [simp]: "calm s s"
  by (simp add: calm_def)

lemma calm_trans [trans]: "calm s t \<Longrightarrow> calm t u \<Longrightarrow> calm s u"
  by (simp add: calm_def)

lemma calm_same:
  assumes "selfId t = selfId s" "rs_viewNum (rstate t) = viewNum s" "rs_status (rstate t) = status s"
    and "kvMap t = kvMap s" "oplog t = oplog s"
    and "viewChangeInfoMap t = viewChangeInfoMap s" "viewStartInfoMap t = viewStartInfoMap s"
  shows "calm s t"
  using assms viewChangeInfos_cong [OF assms(6)] by (simp add: calm_def node_inv_def)

lemma calm_broadcast:
  assumes "\<And>ep t. calm t (f ep t)"
  shows "calm s (invokeForAllReplicas i f s)"
  by (rule broadcast_rel [of calm]) (use assms in \<open>auto intro: calm_trans\<close>)

lemma calm_replicas_at: "calm s (snd (replicas_at i s))"
  by (rule calm_same) (simp_all add: replicas_at_def split: option.split)

lemma calm_sending [simp]:
  "calm t (invokePrepare nw p ep t)" "calm t (invokePrepareOk nw r ep t)" "calm t (invokeCommit nw c ep t)"
  "calm u (invokeStartViewChange nw q ep u)" "calm u (snd (invokeDoViewChange nw vi ep u))"
  "calm u (invokeStartView nw si ep u)"
  "calm w (invokeRecoveryRequest nw rq ep w)" "calm w (invokeRecoveryResponse nw rr ep w)"
  by (rule calm_same; simp add: invokePrepare_def invokePrepareOk_def invokeCommit_def invokeStartViewChange_def
      invokeDoViewChange_def invokeStartView_def invokeRecoveryRequest_def invokeRecoveryResponse_def split_beta)+

section \<open>Handlers\<close>

lemma calm_processPrepare: "calm s (processPrepare p s)"
  by (rule calm_same) (simp_all add: processPrepare_def)

lemma calm_processPrepareOk: "calm s (processPrepareOk r s)"
  by (rule calm_same) (simp_all add: processPrepareOk_def split_beta Let_def)

lemma calm_apply_entry [simp]: "calm s (apply_entry e s)"
  by (simp add: calm_def node_inv_def)

lemma calm_commit:
  assumes "commit n (oplog s) = Some l" "rs_viewNum r = viewNum s" "rs_status r = status s"
  shows "calm s (s\<lparr>rstate := r, oplog := l\<rparr>)"
  using assms log_inv_commit [OF _ assms(1)] by (simp add: calm_def node_inv_def)

lemma calm_log:
  assumes "log_inv (oplog s) \<Longrightarrow> log_inv l" "rs_viewNum r = viewNum s" "rs_status r = status s"
  shows "calm s (s\<lparr>rstate := r, oplog := l\<rparr>)"
  using assms by (simp add: calm_def node_inv_def)

lemma log_inv_log_append [simp]: "log_inv l \<Longrightarrow> log_inv (log_append p l)"
  by (simp add: log_append_def split: OpType.split)

lemma calm_processCommit:
  assumes "processCommit now c s = Return () t"
  shows "calm s t"
proof -
  let ?s = "set_lastCommitTime now s"
  have s: "calm s ?s"
    by (rule calm_same) simp_all
  show ?thesis
  proof (cases "t = ?s")
    case False
    then obtain l e where l: "commit (commitNum s + 1) (oplog s) = Some l"
      and t: "t = apply_entry e (set_oplog l (set_commitNum (commitNum s + 1) ?s))"
      using assms by (auto simp: processCommit_def outcome_simps Let_def split: if_splits option.splits)
    have "calm ?s (set_oplog l (set_commitNum (commitNum s + 1) ?s))"
      using calm_commit [of "commitNum s + 1" ?s l "rstate (set_commitNum (commitNum s + 1) ?s)"] l by simp
    then show ?thesis
      using s t by (auto intro: calm_trans)
  qed (use s in simp)
qed


lemma calm_logPrepInfo:
  assumes "logPrepInfo nw p s = Return () t"
  shows "calm s t"
proof -
  let ?u = "set_oplog (log_append p (oplog s)) (set_opNum (pi_opNum p) s)"
  obtain ep r where t: "t = invokePrepareOk nw r ep (snd (replicas_at (priId s) ?u))"
    using assms by (auto simp: logPrepInfo_def outcome_simps Let_def split_beta)
  have "calm s ?u"
    using calm_log [of s "log_append p (oplog s)" "rstate (set_opNum (pi_opNum p) s)"] by simp
  also have "calm ?u (snd (replicas_at (priId s) ?u))"
    by (rule calm_replicas_at)
  also have "calm \<dots> t"
    unfolding t by simp
  finally show ?thesis .
qed

lemma calm_op_begin: "calm s (snd (op_begin nw p s))"
proof -
  let ?u = "(set_oplog (log_append p (oplog s)) (set_opNum (opNum s + 1) s))
    \<lparr>repWaitMap := snd (WaitMap_get (pi_opNum p) (repWaitMap s))\<rparr>"
  have "calm s ((set_oplog (log_append p (oplog s)) (set_opNum (opNum s + 1) s)))"
    using calm_log [of s "log_append p (oplog s)" "rstate (set_opNum (opNum s + 1) s)"] by simp
  also have "calm \<dots> ?u"
    by (rule calm_same) simp_all
  also have "calm ?u (invokeForAllReplicas (selfId s) (invokePrepare nw p) ?u)"
    by (rule calm_broadcast) simp
  also have "calm \<dots> (snd (op_begin nw p s))"
    by (rule calm_same) (simp_all add: op_begin_def replicate_begin_def Let_def)
  finally show ?thesis .
qed

lemma calm_op_store [simp]: "calm s (op_store p s)"
  by (simp add: calm_def node_inv_def op_store_def setInt_def split: OpType.split)

lemma calm_op_finish:
  assumes "op_finish nw p s = Return () t"
  shows "calm s t"
proof -
  obtain l where l: "commit (pi_opNum p) (oplog s) = Some l"
    using assms by (cases "commit (pi_opNum p) (oplog s)") (auto simp: op_finish_def replicate_commit_def)
  let ?u = "set_commitNum (pi_opNum p) (set_oplog l s)"
  let ?c = "\<lparr>ci_viewNum = pi_viewNum p, ci_commitNum = pi_opNum p\<rparr>"
  let ?w = "invokeForAllReplicas (selfId s) (invokeCommit nw ?c) ?u"
  have t: "t = op_store p (?w\<lparr>repWaitMap := WaitMap_erase (pi_opNum p) (repWaitMap ?w)\<rparr>)"
    using assms l by (simp add: op_finish_def replicate_commit_def Let_def)
  have "calm s ?u"
    using log_inv_commit [OF _ l] by (simp add: calm_def node_inv_def)
  also have "calm ?u ?w"
    by (rule calm_broadcast) simp
  also have "calm ?w (?w\<lparr>repWaitMap := WaitMap_erase (pi_opNum p) (repWaitMap ?w)\<rparr>)"
    by (rule calm_same) simp_all
  also have "calm \<dots> t"
    unfolding t by simp
  finally show ?thesis .
qed

lemma calm_processRecoveryRequest: "calm s (processRecoveryRequest q s)"
  by (rule calm_same) (simp_all add: processRecoveryRequest_def)

lemma calm_processRecoveryResponse: "calm s (processRecoveryResponse q s)"
  by (rule calm_same)
    (simp_all add: processRecoveryResponse_def processRecoveryResponse_notify_def responseDone_def Let_def split_beta)

lemma calm_processRecoveryReqInt:
  assumes "processRecoveryReqInt nw s = Some t"
  shows "calm s t"
proof -
  obtain r q where q: "CQueue_pop (recoveryReqQ s) = Some (r, q)"
    using assms by (cases "CQueue_pop (recoveryReqQ s)") (auto simp: processRecoveryReqInt_def split: if_splits)
  let ?s = "s\<lparr>recoveryReqQ := q\<rparr>"
  have s: "calm s ?s"
    by (rule calm_same) simp_all
  show ?thesis
  proof (cases "status s = NORMAL")
    case False
    then have "t = ?s\<lparr>recThreadAlive := False\<rparr>"
      using assms q by (auto simp: processRecoveryReqInt_def split: if_splits)
    then have "calm ?s t"
      by (intro calm_same) simp_all
    then show ?thesis
      using s by (blast intro: calm_trans)
  next
    case True
    let ?l = "if priId s = selfId s then snd (getLog (oplog ?s)) else oplog ?s"
    obtain ep resp where t: "t = invokeRecoveryResponse nw resp ep (snd (replicas_at (rrq_replicaId r) (set_oplog ?l ?s)))"
      using assms q True by (cases "priId s = selfId s") (auto simp: processRecoveryReqInt_def Let_def split_beta split: if_splits)
    have "calm ?s (set_oplog ?l ?s)"
      using log_inv_getLog by (auto simp: calm_def node_inv_def)
    then have "calm s (set_oplog ?l ?s)"
      using s by (blast intro: calm_trans)
    also have "calm \<dots> (snd (replicas_at (rrq_replicaId r) (set_oplog ?l ?s)))"
      by (rule calm_replicas_at)
    also have "calm \<dots> t"
      unfolding t by simp
    finally show ?thesis .
  qed
qed

lemma calm_processStartViewChange: "calm s (processStartViewChange q s)"
  by (rule calm_same) (simp_all add: processStartViewChange_def Let_def split_beta)

lemma calm_processDoViewChange: "calm s (processDoViewChange info s)"
  by (auto simp: calm_def node_inv_def processDoViewChange_def viewChangeInfos_def [symmetric])

lemma calm_processStartView:
  assumes "processStartView info s = Return () t"
  shows "calm s t"
  using assms by (auto simp: calm_def node_inv_def processStartView_def outcome_simps Let_def split: if_splits)


section \<open>View changes\<close>

text \<open>A state in view \<open>v\<close>, reached from \<open>s\<close>.\<close>

definition entered :: "ViewInt \<Rightarrow> 'a vch_scheme \<Rightarrow> 'a vch_scheme \<Rightarrow> bool" where
  "entered v s t \<longleftrightarrow> node_inv t \<and> selfId t = selfId s \<and> viewNum t = v \<and> status t \<noteq> RECOVERING"

lemma calm_entered: "calm s t \<Longrightarrow> entered v r s \<Longrightarrow> entered v r t"
  by (simp add: calm_def entered_def)

lemma entered_trans: "entered v r s \<Longrightarrow> (node_inv s \<Longrightarrow> status s \<noteq> RECOVERING \<Longrightarrow> entered w s t) \<Longrightarrow> entered w r t"
  by (simp add: entered_def)

lemma calm_apply_committed_loop:
  fixes s :: "'a vch_scheme"
  assumes "apply_committed_loop i s = Return () t"
  shows "calm s t"
  using assms by (rule apply_committed_loop_rel) (blast intro: calm_refl calm_trans calm_apply_entry)+

lemma node_inv_rstate: "node_inv s \<Longrightarrow> rs_status r \<noteq> RECOVERING \<Longrightarrow> node_inv (s\<lparr>rstate := r\<rparr>)"
  by (simp add: node_inv_def)

lemma node_inv_install:
  "node_inv s \<Longrightarrow> log_inv l \<Longrightarrow> rs_status r \<noteq> RECOVERING \<Longrightarrow> node_inv (s\<lparr>oplog := l, rstate := r\<rparr>)"
  by (simp add: node_inv_def)

lemma finish_view_entered:
  assumes "finish_view now c s = Return () t" "node_inv s"
  shows "entered (viewNum s) s t"
proof -
  obtain u where u: "apply_committed_loop (c + 1) s = Return () u"
    and t: "t = set_status NORMAL (set_lastCommitTime now u)"
    using assms(1) by (auto simp: finish_view_def outcome_simps split: option.splits)
  show ?thesis
    using calm_apply_committed_loop [OF u] assms(2) by (simp add: t calm_def entered_def node_inv_rstate)
qed

lemma adopt_candidate_entered:
  assumes "adopt_candidate v s = Return info t" "node_inv s" "status s \<noteq> RECOVERING"
  shows "entered v s t \<and> vsi_viewNum info = v"
proof -
  let ?xs = "viewChangeInfos v s"
  let ?cand = "?xs ! candidateIdx ?xs"
  have "length ?xs \<ge> getMajorityCnt s"
    using assms(1) by (auto simp: adopt_candidate_def outcome_simps Let_def)
  then have "?xs \<noteq> []"
    by (auto simp: getMajorityCnt_def)
  then have "?cand \<in> set ?xs"
    using candidateIdx_view by (intro nth_mem) blast
  then have "vci_viewNum ?cand = v"
    using assms(2) by (auto simp: node_inv_def)
  then show ?thesis
    using assms log_inv_getLog [OF log_inv_setLog]
    by (auto simp: adopt_candidate_def outcome_simps Let_def split_beta entered_def node_inv_def)
qed

lemma adopt_view_entered:
  assumes "adopt_view v s = Return () t" "node_inv s" "status s \<noteq> RECOVERING"
  shows "entered v s t"
  using assms by (auto simp: adopt_view_def outcome_simps entered_def node_inv_def Let_def split: option.splits)

lemma calm_vc_cleanUp: "calm s (vc_cleanUp s)"
  by (simp add: calm_def node_inv_def vc_cleanUp_def) (simp add: viewChangeInfos_def)

lemma updateNewView_entered:
  assumes r: "updateNewView nw now v asPrimary s = Return () t" and s: "node_inv s" "status s \<noteq> RECOVERING"
  shows "entered v s t"
proof (cases asPrimary)
  case True
  then obtain info u w where u: "adopt_candidate v s = Return info u" "finish_view now (commitNum s) u = Return () w"
    and t: "t = vc_cleanUp (invokeForAllReplicas (selfId w) (invokeStartView nw info) w)"
    using r by (auto simp: updateNewView_def outcome_simps)
  have "entered v s u"
    using adopt_candidate_entered [OF u(1) s] by simp
  then have "entered v s w"
    using finish_view_entered [OF u(2)] by (auto simp: entered_def)
  moreover have "calm w (invokeForAllReplicas (selfId w) (invokeStartView nw info) w)"
    by (rule calm_broadcast) simp
  ultimately show ?thesis
    unfolding t using calm_vc_cleanUp by (blast intro: calm_entered)
next
  case False
  then obtain u w where u: "adopt_view v s = Return () u" "finish_view now (commitNum s) u = Return () w"
    and t: "t = vc_cleanUp w"
    using r by (auto simp: updateNewView_def outcome_simps)
  have "entered v s w"
    using adopt_view_entered [OF u(1) s] finish_view_entered [OF u(2)] by (auto simp: entered_def)
  then show ?thesis
    unfolding t using calm_vc_cleanUp by (blast intro: calm_entered)
qed

lemma calm_pick_primary:
  assumes "pick_primary nw info fuel cnt i s = Some (j, t)"
  shows "calm s t"
  using assms
proof (induction fuel arbitrary: cnt i s)
  case (Suc fuel)
  let ?u = "snd (replicas_at i s)"
  let ?w = "snd (invokeDoViewChange nw info (fst (replicas_at i s)) ?u)"
  have w: "calm s ?w"
    using calm_replicas_at calm_sending(5) by (rule calm_trans)
  show ?case
    using Suc.prems Suc.IH [of _ _ ?w] w
    by (auto simp: split_beta Let_def split: if_splits intro: calm_trans)
qed simp


lemma wait_as_primary_entered:
  assumes w: "\<And>s st t. vce_wait_done env s = (st, t) \<Longrightarrow> calm s t"
    and r: "wait_as_primary env v s = Return () t" and s: "node_inv s" "status s \<noteq> RECOVERING" "viewNum s = v"
  shows "entered v s t"
proof -
  obtain st u where u: "(if quorumReached (WaitMap_cnt v (doViewChangeMap s)) s then (no_timeout, s)
      else vce_wait_done env s) = (st, u)"
    by fastforce
  then have e: "entered v s u"
    using w [of s st u] s by (auto simp: calm_def entered_def split: if_splits)
  show ?thesis
  proof (cases "st = timeout")
    case False
    then have "updateNewView (vce_net env) (vce_now env) v True u = Return () t"
      using r u by (simp add: wait_as_primary_def outcome_simps)
    with e show ?thesis
      by (blast intro: entered_trans updateNewView_entered)
  qed (use e r u in \<open>simp add: wait_as_primary_def\<close>)
qed

lemma wait_as_backup_entered:
  assumes w: "\<And>s st t. vce_wait_done env s = (st, t) \<Longrightarrow> calm s t"
    and r: "wait_as_backup env v s = Return () t" and s: "node_inv s" "status s \<noteq> RECOVERING" "viewNum s = v"
  shows "entered v s t"
proof -
  let ?s = "s\<lparr>startViewMap := snd (WaitMap_get v (startViewMap s))\<rparr>"
  obtain st u where u: "(if WaitMap_cnt v (startViewMap ?s) = 1 then (no_timeout, ?s) else vce_wait_done env ?s) = (st, u)"
    by fastforce
  have "calm s ?s"
    by (rule calm_same) simp_all
  moreover have "calm ?s u"
    using u w [of ?s st u] by (auto split: if_splits)
  ultimately have e: "entered v s u"
    using s by (auto simp: calm_def entered_def)
  show ?thesis
  proof (cases "st = timeout")
    case False
    then have "updateNewView (vce_net env) (vce_now env) v False u = Return () t"
      using r u by (simp add: wait_as_backup_def outcome_simps)
    with e show ?thesis
      by (blast intro: entered_trans updateNewView_entered)
  qed (use e r u in \<open>simp add: wait_as_backup_def\<close>)
qed

lemma changeView_quorum_entered:
  assumes w: "\<And>s st t. vce_wait_done env s = (st, t) \<Longrightarrow> calm s t"
    and r: "changeView_quorum env o' v s = Return () t" and s: "node_inv s" "status s \<noteq> RECOVERING" "viewNum s = v"
  shows "entered v s t"
proof -
  let ?l = "snd (getLog (oplog s))"
  let ?info = "\<lparr>vci_viewNum = v, vci_opLog = fst (getLog (oplog s)), vci_oldViewNum = o',
    vci_opNum = commitNum s, vci_commitNum = commitNum s, vci_replicaId = selfId s\<rparr>"
  let ?u = "(set_oplog ?l s)\<lparr>viewChangeInfoMap := um_put v (viewChangeInfos v s @ [?info]) (viewChangeInfoMap s),
    doViewChangeMap := WaitMap_incr v (doViewChangeMap s)\<rparr>"
  define P where "P = pick_primary (vce_net env) ?info (length (replicas ?u) + 2) 0
    (getNextPrimaryCandidate (priId ?u) ?u) ?u"
  have "(case P of None \<Rightarrow> Abort | Some (j, x) \<Rightarrow> let x = set_priId j x
      in if j = selfId x then wait_as_primary env v x else wait_as_backup env v x) = Return () t"
    using r by (simp add: changeView_quorum_def Let_def split_beta P_def del: pick_primary.simps)
  then obtain j x where p: "P = Some (j, x)"
    and t: "(let x = set_priId j x in if j = selfId x then wait_as_primary env v x else wait_as_backup env v x) = Return () t"
    by (auto split: option.splits)
  have "calm s ?u"
    using log_inv_getLog by (auto simp: calm_def node_inv_def viewChangeInfos_def [symmetric])
  also have "calm ?u x"
    using p unfolding P_def by (rule calm_pick_primary)
  also have "calm x (set_priId j x)"
    by (rule calm_same) simp_all
  finally have e: "entered v s (set_priId j x)"
    using s by (auto simp: calm_def entered_def)
  then have y: "node_inv (set_priId j x)" "status (set_priId j x) \<noteq> RECOVERING" "viewNum (set_priId j x) = v"
    by (simp_all add: entered_def)
  have "entered v (set_priId j x) t"
    using t wait_as_primary_entered [OF w _ y] wait_as_backup_entered [OF w _ y] by (auto simp: Let_def split: if_splits)
  with e show ?thesis
    by (rule entered_trans)
qed

lemma changeView_entered:
  assumes w: "\<And>s st t. vce_wait_start env s = (st, t) \<Longrightarrow> calm s t" "\<And>s st t. vce_wait_done env s = (st, t) \<Longrightarrow> calm s t"
    and r: "changeView env s = Return () t" and s: "node_inv s" "status s \<noteq> RECOVERING"
  shows "entered (viewNum s + 1) s t"
proof -
  let ?v = "viewNum s + 1"
  let ?s = "s\<lparr>rstate := (rstate s)\<lparr>rs_status := VIEW_CHANGE, rs_viewNum := ?v\<rparr>\<rparr>"
  have es: "entered ?v s ?s"
    using s by (simp add: entered_def node_inv_rstate)
  show ?thesis
  proof (cases "map_of (viewStartInfoMap s) ?v = None")
    case False
    then have "updateNewView (vce_net env) (vce_now env) ?v False ?s = Return () t"
      using r by (simp add: changeView_def)
    with es show ?thesis
      by (blast intro: entered_trans updateNewView_entered)
  next
    case True
    let ?q = "\<lparr>vcr_viewNum = ?v, vcr_replicaId = selfId s\<rparr>"
    let ?u = "invokeForAllReplicas (selfId s) (invokeStartViewChange (vce_net env) ?q) ?s"
    let ?w = "?u\<lparr>viewStartReqMap := WaitMap_incr ?v (viewStartReqMap ?u)\<rparr>"
    obtain st x where x: "(if quorumReached (WaitMap_cnt ?v (viewStartReqMap ?w)) ?w then (no_timeout, ?w)
        else vce_wait_start env ?w) = (st, x)"
      by fastforce
    have "calm ?s ?u"
      by (rule calm_broadcast) simp
    also have "calm ?u ?w"
      by (rule calm_same) simp_all
    also have "calm ?w x"
      using x w(1) [of ?w st x] by (auto split: if_splits)
    finally have e: "entered ?v s x"
      using es by (rule calm_entered)
    show ?thesis
    proof (cases "st = timeout")
      case False
      then have "changeView_quorum env (viewNum s) ?v x = Return () t"
        using r True x by (simp add: changeView_def Let_def)
      moreover have "node_inv x" "status x \<noteq> RECOVERING" "viewNum x = ?v"
        using e by (simp_all add: entered_def)
      ultimately have "entered ?v x t"
        using changeView_quorum_entered [of env "viewNum s" ?v x t] w(2) by auto
      with e show ?thesis
        by (rule entered_trans)
    qed (use e r True x in \<open>simp add: changeView_def Let_def\<close>)
  qed
qed


section \<open>Recovery and the heartbeat\<close>

lemma calm_recoverStateFromLog:
  fixes s :: "'a vch_scheme"
  assumes "recoverStateFromLog es s = Return () t"
  shows "calm s t"
  using assms
proof (induction es s rule: recoverStateFromLog.induct)
  case (2 e es s)
  then show ?case
    using calm_trans [OF calm_apply_entry [of s e]] by (auto simp: outcome_simps split: if_splits)
qed simp

lemma recover_loop_inv:
  assumes "recover_loop now hv rs s = Return () t" "node_inv s" "status t = NORMAL"
  shows "node_inv t \<and> selfId t = selfId s"
  using assms
proof (induction rs)
  case (Cons r rs)
  show ?case
  proof (cases "rrs_viewNum r = hv \<and> rrs_isPrimary r")
    case True
    then obtain u where u: "recoverStateFromLog (rrs_opLog r) s = Return () u"
      and t: "t = u\<lparr>oplog := setLog (rrs_opLog r) (oplog u),
         rstate := \<lparr>rs_priId = rrs_replicaId r, rs_status = NORMAL, rs_viewNum = rrs_viewNum r, rs_opNum = rrs_opNum r,
           rs_commitNum = rrs_commitNum r, rs_lastCommitTime = now\<rparr>\<rparr>"
      using Cons.prems(1) by (auto simp: outcome_simps Let_def)
    have "node_inv u" "selfId u = selfId s"
      using calm_recoverStateFromLog [OF u] Cons.prems(2) by (simp_all add: calm_def)
    then show ?thesis
      by (simp add: t node_inv_install)
  qed (use Cons in \<open>auto simp: outcome_simps\<close>)
qed simp

lemma recover_inv:
  assumes w: "\<And>s st t. rce_wait env s = (st, t) \<Longrightarrow> calm s t"
    and r: "recover env s = Return () t" and s: "node_inv s" "status s = RECOVERING"
  shows "node_inv t \<and> selfId t = selfId s \<and> status t = NORMAL"
proof -
  let ?n = "of_int (rce_now env div ns_per_sec) :: Nonce"
  let ?q = "\<lparr>rrq_replicaId = selfId s, rrq_nonce = ?n, rrq_knownCommitNum = 0\<rparr>"
  let ?u = "invokeForAllReplicas (selfId s) (invokeRecoveryRequest (rce_net env) ?q) s"
  let ?w = "snd (responseDone ?n (?u\<lparr>recWaitMap := snd (WaitMap_get ?n (recWaitMap ?u))\<rparr>))"
  have ss: "s\<lparr>rstate := (rstate s)\<lparr>rs_status := RECOVERING\<rparr>\<rparr> = s"
    using s(2) by simp
  define d where "d = fst (responseDone ?n (?u\<lparr>recWaitMap := snd (WaitMap_get ?n (recWaitMap ?u))\<rparr>))"
  obtain st x where x: "(if d then (no_timeout, ?w) else rce_wait env ?w) = (st, x)"
    by fastforce
  have y: "bind_res (recover_loop (rce_now env) (highest_view (getMajorityCnt x) (respViewCnt x)) (recoveryResponses ?n x) x)
      (\<lambda>_ s. assert_res (status s = NORMAL) (Return () (rec_cleanup s))) = Return () t"
    using r x by (simp add: recover_def ss Let_def split_beta d_def split: if_splits)
  have "calm s ?u"
    by (rule calm_broadcast) simp
  also have "calm ?u ?w"
    by (rule calm_same) (simp_all add: responseDone_def split_beta Let_def)
  also have "calm ?w x"
    using x w [of ?w st x] by (auto split: if_splits)
  finally have c: "calm s x" .
  obtain z where z: "recover_loop (rce_now env) (highest_view (getMajorityCnt x) (respViewCnt x)) (recoveryResponses ?n x) x = Return () z"
    "status z = NORMAL" "t = rec_cleanup z"
    using y by (auto simp: outcome_simps)
  have "node_inv z \<and> selfId z = selfId s"
    using recover_loop_inv [OF z(1) _ z(2)] c s(1) by (simp add: calm_def)
  moreover have "calm z t"
    unfolding z(3) by (rule calm_same) (simp_all add: rec_cleanup_def)
  moreover have "status t = NORMAL"
    using z(2,3) by (simp add: rec_cleanup_def)
  ultimately show ?thesis
    by (auto simp: calm_def)
qed


text \<open>One round of the heartbeat thread.\<close>

lemma heartBeat_inv:
  assumes w: "\<And>s st t. rce_wait (hbe_recovery env) s = (st, t) \<Longrightarrow> calm s t"
      "\<And>s st t. vce_wait_start (hbe_view_change env) s = (st, t) \<Longrightarrow> calm s t"
      "\<And>s st t. vce_wait_done (hbe_view_change env) s = (st, t) \<Longrightarrow> calm s t"
    and r: "heartBeat env s = Return b t" and s: "node_inv s"
  shows "node_inv t \<and> selfId t = selfId s \<and> status t \<noteq> RECOVERING \<and>
    (status s = RECOVERING \<or> viewNum t = viewNum s \<or> viewNum t = viewNum s + 1)"
proof -
  obtain u where u: "(if status s = RECOVERING then uncaught (recover (hbe_recovery env) s) else Return () s) = Return () u"
    using r by (auto simp: heartBeat_def outcome_simps)
  have un: "uncaught x = Return () y \<longleftrightarrow> x = Return () y" for x :: "('b, unit) res" and y
    by (cases x) auto
  have inv: "node_inv u" "selfId u = selfId s" "status u \<noteq> RECOVERING" "status s = RECOVERING \<or> u = s"
    using u recover_inv [OF w(1) _ s] s by (auto simp: un split: if_splits)
  have "t = u \<or> (\<exists>c. t = invokeForAllReplicas (selfId u) (invokeCommit (hbe_net env) c) u) \<or>
      changeView (hbe_view_change env) u = Return () t"
    using r u by (auto simp: heartBeat_def outcome_simps un split: if_splits)
  moreover have "calm u (invokeForAllReplicas (selfId u) (invokeCommit (hbe_net env) c) u)" for c
    by (rule calm_broadcast) simp
  ultimately have "calm u t \<or> entered (viewNum u + 1) u t"
    using changeView_entered [OF w(2,3) _ inv(1,3)] by auto
  then show ?thesis
    using inv by (auto simp: calm_def entered_def)
qed


section \<open>Runs of one replica\<close>

text \<open>What a message makes the replicator do.\<close>

fun handle :: "time_point \<Rightarrow> message \<Rightarrow> replica \<Rightarrow> (replica, unit) res" where
  "handle now (Prepare p) = (\<lambda>s. Return () (processPrepare p s))"
| "handle now (PrepareOk r) = (\<lambda>s. Return () (processPrepareOk r s))"
| "handle now (message.Commit c) = processCommit now c"
| "handle now (StartViewChange q) = (\<lambda>s. Return () (processStartViewChange q s))"
| "handle now (DoViewChange i) = (\<lambda>s. Return () (processDoViewChange i s))"
| "handle now (StartView i) = processStartView i"
| "handle now (RecoveryReq q) = (\<lambda>s. Return () (processRecoveryRequest q s))"
| "handle now (RecoveryResp q) = (\<lambda>s. Return () (processRecoveryResponse q s))"

lemma receive_handle: "receive now m = with_replicator (handle now m)"
  by (cases m) (simp_all add: ReplicationApi_prepare_def ReplicationApi_prepareOk_def ReplicationApi_commit_def
      ViewChangeApi_startViewChange_def ViewChangeApi_doViewChange_def ViewChangeApi_startView_def
      RecoveryApi_recoveryRequest_def RecoveryApi_recoveryResponse_def)

text \<open>
  The threads other than the heartbeat: messages, the logging thread, the recovery thread, and client
  operations. A thread is cut where it waits: the logging thread between its tests and the mutex, a client operation
  before the mutex and at its quorum. What runs meanwhile comes in between.
\<close>

inductive service_run :: "replica \<Rightarrow> replica \<Rightarrow> bool" where
  service_refl: "service_run s s"
| service_message: "service_run s t \<Longrightarrow> handle now m t = Return () u \<Longrightarrow> service_run s u"
| service_take: "service_run s t \<Longrightarrow> CQueue_pop (prepReqQ t) = Some (p, q) \<Longrightarrow> service_run s (t\<lparr>prepReqQ := q\<rparr>)"
| service_log: "service_run s t \<Longrightarrow> logPrepInfo nw p t = Return () u \<Longrightarrow> service_run s u"
| service_recovery: "service_run s t \<Longrightarrow> processRecoveryReqInt nw t = Some u \<Longrightarrow> service_run s u"
| service_begin: "service_run s t \<Longrightarrow> op_begin nw (op_prep ty k v t) t = (q, u) \<Longrightarrow> service_run s u"
| service_refused: "service_run s t \<Longrightarrow> rpe_lock env t = t \<Longrightarrow>
    VsReplicator_replicateUpdate env k v t = Raise ReplicaStateNotNormal u \<or>
    VsReplicator_replicateDelete env k t = Raise ReplicaStateNotNormal u \<Longrightarrow> service_run s u"
| service_commit: "service_run s t \<Longrightarrow> op_finish nw p t = Return () u \<Longrightarrow> service_run s u"

text \<open>A round of the logging thread, whatever runs while it waits for the mutex, is such a run.\<close>

lemma service_trans: "service_run t u \<Longrightarrow> service_run s t \<Longrightarrow> service_run s u"
  by (induction rule: service_run.induct) (blast intro: service_run.intros)+

lemma service_prepInfo:
  assumes "\<And>t. service_run t (lock t)" "processPrepInfo_wait lock nw s = Some (Return () u)"
  shows "service_run s u"
proof -
  obtain p q where q: "CQueue_pop (prepReqQ s) = Some (p, q)"
    using assms(2) by (cases "CQueue_pop (prepReqQ s)") (auto simp: processPrepInfo_wait_def)
  have take: "service_run s (s\<lparr>prepReqQ := q\<rparr>)"
    by (rule service_take [OF service_refl q])
  then have "service_run s (lock (s\<lparr>prepReqQ := q\<rparr>))"
    using service_trans [OF assms(1)] by blast
  then show ?thesis
    using assms(2) q take service_log by (auto simp: processPrepInfo_wait_def Let_def split: if_splits)
qed

text \<open>While the heartbeat thread waits, the other threads run.\<close>

definition service_waits :: "replica hb_env \<Rightarrow> bool" where
  "service_waits env \<longleftrightarrow> (\<forall>s. service_run s (snd (rce_wait (hbe_recovery env) s)) \<and>
     service_run s (snd (vce_wait_start (hbe_view_change env) s)) \<and>
     service_run s (snd (vce_wait_done (hbe_view_change env) s)))"

inductive node_run :: "replica \<Rightarrow> replica \<Rightarrow> bool" where
  node_refl: "node_run s s"
| node_service: "node_run s t \<Longrightarrow> service_run t u \<Longrightarrow> node_run s u"
| node_heartBeat: "node_run s t \<Longrightarrow> service_waits env \<Longrightarrow> viewNum t \<noteq> - 1 \<Longrightarrow>
    heartBeat env t = Return b u \<Longrightarrow> node_run s u"

lemma replicate_refused:
  "VsReplicator_replicate env p s = Raise ReplicaStateNotNormal t \<Longrightarrow> t = s"
  by (auto simp: VsReplicator_replicate_def replicate_commit_def Let_def split_beta split: if_splits option.splits)

lemma calm_refused:
  assumes "rpe_lock env s = s" "VsReplicator_replicateUpdate env k v s = Raise ReplicaStateNotNormal t \<or>
    VsReplicator_replicateDelete env k s = Raise ReplicaStateNotNormal t"
  shows "calm s t"
proof -
  have "t = set_opNum (opNum s + 1) s"
    using assms by (auto simp: VsReplicator_replicateUpdate_def VsReplicator_replicateDelete_def outcome_simps
        dest!: replicate_refused)
  then show ?thesis
    by (intro calm_same) simp_all
qed

lemma calm_take: "calm s (s\<lparr>prepReqQ := q\<rparr>)"
  by (rule calm_same) simp_all

lemmas calm_handlers = calm_processPrepare calm_processPrepareOk calm_processCommit calm_processStartViewChange
  calm_processDoViewChange calm_processStartView calm_processRecoveryRequest calm_processRecoveryResponse

lemma calm_handle: "handle now m s = Return () t \<Longrightarrow> calm s t"
  by (cases m) (auto intro: calm_handlers)

lemma calm_service: "service_run s t \<Longrightarrow> calm s t"
proof (induction rule: service_run.induct)
  case (service_begin s t nw ty k v q u)
  then show ?case
    using calm_op_begin [of t nw "op_prep ty k v t"] by (auto intro: calm_trans)
qed (auto intro: calm_trans calm_handle calm_refused calm_take calm_logPrepInfo calm_processRecoveryReqInt calm_op_finish)

lemma node_inv_recovering: "node_inv s \<Longrightarrow> status s = RECOVERING \<Longrightarrow> viewNum s = 0"
  by (simp add: node_inv_def)

lemma node_run_inv:
  assumes "node_run s t" "node_inv s"
  shows "node_inv t \<and> selfId t = selfId s \<and> (status t = RECOVERING \<longrightarrow> status s = RECOVERING) \<and> viewNum s \<le> viewNum t"
  using assms
proof (induction rule: node_run.induct)
  case (node_service s t u)
  then show ?case
    using calm_service [OF node_service.hyps(2)] by (simp add: calm_def)
next
  case (node_heartBeat s t env b u)
  have w: "calm x y" if "rce_wait (hbe_recovery env) x = (st, y) \<or> vce_wait_start (hbe_view_change env) x = (st, y) \<or>
      vce_wait_done (hbe_view_change env) x = (st, y)" for x st y
    using that node_heartBeat.hyps(2) unfolding service_waits_def by (metis calm_service snd_conv)
  have t: "node_inv t" "selfId t = selfId s" "viewNum s \<le> viewNum t" "status t = RECOVERING \<longrightarrow> status s = RECOVERING"
    using node_heartBeat.IH node_heartBeat.prems by simp_all
  have z: "viewNum s = 0" if "status t = RECOVERING"
    using t(4) that node_heartBeat.prems node_inv_recovering by blast
  have u: "node_inv u \<and> selfId u = selfId t \<and> status u \<noteq> RECOVERING \<and>
      (status t = RECOVERING \<or> viewNum u = viewNum t \<or> viewNum u = viewNum t + 1)"
    using w node_heartBeat.hyps(4) t(1) by (intro heartBeat_inv [of env t b u]) blast+
  moreover have "viewNum t \<le> viewNum t + 1"
    using node_heartBeat.hyps(3) by (simp add: plus1_greater_iff less_imp_le)
  ultimately show ?case
    using t z by auto
qed simp


lemma node_inv_new: "VsReplicator_start rec ((replica_new i reps now u)\<lparr>replicatorRegistered := True\<rparr>) = Return () s \<Longrightarrow>
    node_inv s \<and> selfId s = i \<and> (status s = RECOVERING \<longrightarrow> rec)"
  by (auto simp: VsReplicator_start_def outcome_simps replica_new_def ReplicaState_new_def node_inv_def
      viewChangeInfos_def split: if_splits)

text \<open>C7. In every run of a started replica, with any messages, any network and any order of its threads, the
  view number never decreases, the log stays well formed (so \<open>getLog\<close> never inserts default entries), a
  replica is recovering only if it was started so and has not left view 0, and the messages of a view
  change are filed under the view they name, so the assertions that compare the two hold.\<close>

theorem views_advance:
  assumes "VsReplicator_start recovering ((replica_new i reps now u)\<lparr>replicatorRegistered := True\<rparr>) = Return () s0"
    and "node_run s0 s" "node_run s t"
  shows "log_inv (oplog t) \<and> snd (getLog (oplog t)) = oplog t \<and> um_wf (kvMap t) \<and> selfId t = i \<and>
    viewNum s \<le> viewNum t \<and>
    (status t = RECOVERING \<longrightarrow> recovering \<and> status s = RECOVERING \<and> viewNum t = 0) \<and>
    (\<forall>v x. map_of (viewStartInfoMap t) v = Some x \<longrightarrow> vsi_viewNum x = v) \<and>
    (\<forall>v x. x \<in> set (viewChangeInfos v t) \<longrightarrow> vci_viewNum x = v)"
proof -
  have s0: "node_inv s0" "selfId s0 = i" "status s0 = RECOVERING \<longrightarrow> recovering"
    using node_inv_new [OF assms(1)] by simp_all
  have s: "node_inv s" "selfId s = i" "status s = RECOVERING \<longrightarrow> recovering"
    using node_run_inv [OF assms(2) s0(1)] s0 by auto
  have t: "node_inv t" "selfId t = i" "viewNum s \<le> viewNum t" "status t = RECOVERING \<longrightarrow> recovering \<and> status s = RECOVERING"
    using node_run_inv [OF assms(3) s(1)] s by auto
  have z: "status t = RECOVERING \<longrightarrow> viewNum t = 0"
    using node_inv_recovering t(1) by blast
  show ?thesis
    using t(1) unfolding node_inv_def using t(2-4) z by (simp add: getLog_inv)
qed

text \<open>No call gets through and every wait times out.\<close>

definition silent :: "replica hb_env" where
  "silent = \<lparr>hbe_net = (\<lambda>_ _ _. (False, CallFailed)), hbe_now = 10 * ns_per_sec,
     hbe_recovery = \<lparr>rce_net = (\<lambda>_ _ _. (False, CallFailed)), rce_now = 10 * ns_per_sec, rce_wait = (\<lambda>s. (timeout, s))\<rparr>,
     hbe_view_change = \<lparr>vce_net = (\<lambda>_ _ _. (False, CallFailed)), vce_now = 10 * ns_per_sec,
       vce_wait_start = (\<lambda>s. (timeout, s)), vce_wait_done = (\<lambda>s. (timeout, s))\<rparr>\<rparr>"

definition ex_peers3 :: "(ReplicaId, EndPoint) umap" where
  "ex_peers3 = [(0, \<lparr>ep_ip = ''10.0.0.1'', ep_port = ''7000''\<rparr>), (2, \<lparr>ep_ip = ''10.0.0.3'', ep_port = ''7000''\<rparr>)]"

definition ex_started :: replica where
  "ex_started = (replica_new 1 ex_peers3 0 False)\<lparr>replicatorRegistered := True, threadsStarted := True\<rparr>"

theorem views_advance_witness:
  "\<exists>t. heartBeat silent ex_started = Return False t \<and> viewNum t = 1 \<and> log_inv (oplog t) \<and> selfId t = 1 \<and>
     viewNum ex_started \<le> viewNum t"
proof -
  have start: "VsReplicator_start False ((replica_new 1 ex_peers3 0 False)\<lparr>replicatorRegistered := True\<rparr>) = Return () ex_started"
    by (simp add: VsReplicator_start_def replica_new_def ex_started_def)
  have "case heartBeat silent ex_started of Return b t \<Rightarrow> \<not> b \<and> viewNum t = 1 | _ \<Rightarrow> False"
    by code_simp
  then obtain t where t: "heartBeat silent ex_started = Return False t" "viewNum t = 1"
    by (auto split: res.splits)
  have "viewNum ex_started = 0"
    by (simp add: ex_started_def replica_new_def ReplicaState_new_def)
  then have "node_run ex_started t"
    by (intro node_heartBeat [OF node_refl _ _ t(1)]) (simp_all add: service_waits_def silent_def service_refl)
  then show ?thesis
    using views_advance [OF start node_refl] t by blast
qed

end
