(* ===== verification/KvNamespace.thy ===== *)
theory KvNamespace
  imports KvStoreApi
begin

text \<open>
  The client operations of \<open>KvStoreApi\<close> against a namespace: a partial function from paths to
  values in which every path has its parent. Listing, creating, setting and removing keys are
  shown to implement it, for any replicator that satisfies \<open>replicator_contract\<close>.
\<close>

section \<open>The namespace\<close>

text \<open>
  The store as a partial function on paths, and its invariant: every key is the canonical spelling
  of a path whose parent is present too.
\<close>

definition abs_ns :: "'a kvmem_scheme \<Rightarrow> path \<Rightarrow> string option" where
  "abs_ns s cs = (if wf_path cs then map_of (kvMap s) (print_path cs) else None)"

definition ns_inv :: "'a kvmem_scheme \<Rightarrow> bool" where
  "ns_inv s \<longleftrightarrow> um_wf (kvMap s) \<and>
     (\<forall>k \<in> dom (map_of (kvMap s)). checkKeyFormat k = NONE \<and> print_path (path_of k) = k) \<and>
     (\<forall>cs \<in> dom (abs_ns s). butlast cs \<noteq> [] \<longrightarrow> butlast cs \<in> dom (abs_ns s))"

definition children :: "'a kvmem_scheme \<Rightarrow> path \<Rightarrow> string set" where
  "children s cs = {c. cs @ [c] \<in> dom (abs_ns s)}"

text \<open>The abstract operations on a namespace.\<close>

datatype ns_result = NsErr Error | NsOk

definition ns_create :: "path \<Rightarrow> string \<Rightarrow> (path \<Rightarrow> string option) \<Rightarrow> ns_result \<times> (path \<Rightarrow> string option)"
where
  "ns_create cs v m =
     (if butlast cs \<noteq> [] \<and> m (butlast cs) = None then (NsErr KEY_HAS_NO_PARENT, m)
      else if m cs \<noteq> None then (NsErr KEY_ALREADY_PRESENT, m)
      else (NsOk, m(cs \<mapsto> v)))"

definition ns_set :: "path \<Rightarrow> string \<Rightarrow> (path \<Rightarrow> string option) \<Rightarrow> ns_result \<times> (path \<Rightarrow> string option)"
where
  "ns_set cs v m = (if m cs = None then (NsErr KEY_NOT_PRESENT, m) else (NsOk, m(cs \<mapsto> v)))"

lemma wf_path_snoc: "wf_path (cs @ [c]) \<longleftrightarrow> list_all wf_comp cs \<and> wf_comp c"
  by (auto simp: wf_path_def)

lemma wf_path_butlast: "wf_path cs \<Longrightarrow> butlast cs \<noteq> [] \<Longrightarrow> wf_path (butlast cs)"
  by (auto simp: wf_path_def list_all_iff dest: in_set_butlastD)

lemma print_path_inj: "wf_path cs \<Longrightarrow> wf_path ds \<Longrightarrow> print_path cs = print_path ds \<longleftrightarrow> cs = ds"
  by (metis path_of_print_path)

lemma hasKey_abs_ns: "wf_path cs \<Longrightarrow> hasKey (print_path cs) s \<longleftrightarrow> abs_ns s cs \<noteq> None"
  by (simp add: hasKey_def abs_ns_def)

lemma abs_ns_put:
  assumes "wf_path cs" "kvMap s' = um_put (print_path cs) v (kvMap s)"
  shows "abs_ns s' = (abs_ns s)(cs \<mapsto> v)"
  using assms by (auto simp: abs_ns_def fun_eq_iff print_path_inj)

lemma abs_ns_erase:
  assumes "wf_path cs" "kvMap s' = um_erase (print_path cs) (kvMap s)"
  shows "abs_ns s' = (abs_ns s)(cs := None)"
  using assms by (auto simp: abs_ns_def fun_eq_iff print_path_inj)

lemma abs_ns_wf: "cs \<in> dom (abs_ns s) \<Longrightarrow> wf_path cs"
  by (auto simp: abs_ns_def split: if_splits)

lemma abs_ns_cong: "kvMap s' = kvMap s \<Longrightarrow> abs_ns s' = abs_ns s"
  by (simp add: abs_ns_def fun_eq_iff)

lemma ns_inv_cong:
  assumes "kvMap s' = kvMap s"
  shows "ns_inv s' \<longleftrightarrow> ns_inv s"
  using assms by (simp only: ns_inv_def abs_ns_cong [OF assms])

lemma ns_inv_key:
  assumes "ns_inv s" "k \<in> dom (map_of (kvMap s))"
  obtains cs where "wf_path cs" "k = print_path cs" "cs \<in> dom (abs_ns s)"
proof -
  have "checkKeyFormat k = NONE" "print_path (path_of k) = k"
    using assms by (auto simp: ns_inv_def)
  then have "wf_path (path_of k)"
    by (simp add: wf_path_of_key)
  then show ?thesis
    using that [of "path_of k"] assms(2) \<open>print_path (path_of k) = k\<close> by (simp add: dom_def abs_ns_def)
qed

lemma canonical_key: "wf_path cs \<Longrightarrow>
  checkKeyFormat (print_path cs) = NONE \<and> print_path (path_of (print_path cs)) = print_path cs"
  by (simp add: checkKeyFormat_print_path path_of_print_path)

lemma ns_inv_put:
  assumes "ns_inv s" "wf_path cs" "kvMap s' = um_put (print_path cs) v (kvMap s)"
    and "butlast cs \<noteq> [] \<Longrightarrow> butlast cs \<in> dom (abs_ns s)"
  shows "ns_inv s'"
proof -
  have "abs_ns s' = (abs_ns s)(cs \<mapsto> v)"
    using assms(2,3) by (rule abs_ns_put)
  then show ?thesis
    using assms canonical_key [OF assms(2)] by (auto simp: ns_inv_def)
qed

lemma ns_inv_erase:
  assumes "ns_inv s" "wf_path cs" "kvMap s' = um_erase (print_path cs) (kvMap s)"
    and "children s cs = {}"
  shows "ns_inv s'"
proof -
  have abs: "abs_ns s' = (abs_ns s)(cs := None)"
    using assms(2,3) by (rule abs_ns_erase)
  have "butlast ds \<noteq> cs" if "ds \<in> dom (abs_ns s)" for ds
  proof
    assume "butlast ds = cs"
    then have "ds = cs @ [last ds]"
      using abs_ns_wf [OF that] by (metis append_butlast_last_id wf_path_def)
    then show False
      using that assms(4) unfolding children_def by (metis (mono_tags) empty_Collect_eq)
  qed
  then show ?thesis
    using assms by (auto simp: ns_inv_def abs)
qed

section \<open>Listing\<close>

text \<open>A child's key is the prefix, a slash and the child's name, so \<open>list\<close> always finds it.\<close>

lemma list_match_child:
  assumes "wf_comp c"
  shows "list_match (print_path cs @ [slash]) slash (print_path (cs @ [c]))"
proof -
  obtain x xs where c: "c = x # xs" "slash \<notin> set xs"
    using assms by (cases c) (auto simp: wf_comp_def)
  have "str_find ((print_path cs @ [slash]) @ c) (print_path cs @ [slash]) 0 = Some 0"
    by (rule str_find_prefix)
  then show ?thesis
    using c by (simp add: list_match_def str_find_char_None)
qed

lemma children_listed:
  assumes "c \<in> children s cs"
  shows "print_path (cs @ [c]) \<in> set (KvMemStore_list (print_path cs @ [slash]) slash s)"
proof -
  have "cs @ [c] \<in> dom (abs_ns s)"
    using assms by (simp add: children_def)
  then have "wf_path (cs @ [c])" "print_path (cs @ [c]) \<in> dom (map_of (kvMap s))"
    by (auto simp: abs_ns_def split: if_splits)
  then show ?thesis
    using list_match_child [of c cs] by (simp add: KvMemStore_list_set wf_path_snoc)
qed

text \<open>
  The other direction: a listed key has the prefix's components somewhere in its path, followed by
  exactly one component, since the search is not anchored at the start of the key.
\<close>

lemma split_on_sep: "split_on d (x @ d # y) = split_on d x @ split_on d y"
  by (induction x) (auto split: list.splits)

lemma path_of_sep: "path_of (x @ slash # y) = path_of x @ path_of y"
  by (simp add: path_of_def split_on_sep)

lemma path_of_single:
  assumes "slash \<notin> set (drop 1 r)" "r \<noteq> []" "last r \<noteq> slash"
  shows "\<exists>c. path_of r = [c]"
proof (cases "hd r = slash")
  case True
  then obtain xs where r: "r = slash # xs"
    using assms(2) by (cases r) auto
  then have "xs \<noteq> []" "slash \<notin> set xs"
    using assms by auto
  then show ?thesis
    by (simp add: r path_of_last)
next
  case False
  then have "slash \<notin> set r"
    using assms by (cases r) auto
  then show ?thesis
    using assms(2) by (simp add: path_of_last)
qed

lemma list_match_occurrence:
  assumes "list_match (pre @ [slash]) slash k"
  obtains p r where "k = p @ pre @ slash # r" "slash \<notin> set (drop 1 r)"
    "str_find k (pre @ [slash]) 0 = Some (length p)"
proof -
  from assms obtain pos where pos: "str_find k (pre @ [slash]) 0 = Some pos"
      and free: "str_find_char k slash (pos + length (pre @ [slash]) + 1) = None"
    by (auto simp: list_match_def split: if_splits option.splits)
  let ?n = "length (pre @ [slash])"
  have occ: "take ?n (drop pos k) = pre @ [slash]" and le: "pos + ?n \<le> length k"
    using str_find_Some_occurs [OF pos] by auto
  have "k = take pos k @ take ?n (drop pos k) @ drop ?n (drop pos k)"
    by (metis append_take_drop_id)
  then have k: "k = take pos k @ pre @ slash # drop (pos + ?n) k"
    using occ by (simp add: add.commute)
  show ?thesis
    using that [OF k] free le pos by (simp add: str_find_char_None add.commute)
qed

lemma last_print_path: "wf_path ds \<Longrightarrow> last (print_path ds) \<noteq> slash"
  using checkKeyFormat_print_path [of ds] by (auto simp: checkKeyFormat_NONE)

lemma listed_path:
  assumes "list_match (print_path cs @ [slash]) slash (print_path ds)" "wf_path ds"
    and "list_all wf_comp cs"
  shows "\<exists>es c. ds = es @ cs @ [c] \<and> (cs = [] \<longrightarrow> es = [])"
proof -
  obtain p r where k: "print_path ds = p @ print_path cs @ slash # r" "slash \<notin> set (drop 1 r)"
      and pos: "str_find (print_path ds) (print_path cs @ [slash]) 0 = Some (length p)"
    using list_match_occurrence [OF assms(1)] .
  have "last (p @ print_path cs @ slash # r) \<noteq> slash"
    using last_print_path [OF assms(2)] k(1) by metis
  then have "r \<noteq> []" "last r \<noteq> slash"
    by (auto split: if_splits)
  then obtain c where c: "path_of r = [c]"
    using path_of_single k(2) by blast
  have ds: "ds = path_of (p @ print_path cs) @ [c]"
    using path_of_print_path [OF assms(2)] k(1) path_of_sep [of "p @ print_path cs" r] c by simp
  show ?thesis
  proof (cases cs)
    case Nil
    obtain q where "print_path ds = slash # q"
      using assms(2) by (cases ds) (auto simp: wf_path_def)
    then have "length p = 0"
      using pos Nil str_find_prefix [of "[slash]" q] by simp
    then show ?thesis
      using ds Nil by (simp add: path_of_def)
  next
    case (Cons d cs')
    then have "wf_path cs"
      using assms(3) by (simp add: wf_path_def)
    then have "path_of (p @ print_path cs) = path_of p @ cs"
      using Cons path_of_sep [of p "d @ print_path cs'"] path_of_print_path [of cs] by simp
    then show ?thesis
      using ds Cons by auto
  qed
qed

text \<open>
  And conversely: when the path occurs in some stored path, followed by a component, then some stored key is listed. With
  the shortest part before it, the first occurrence in the key is this one, since every beginning of a stored path is
  stored too.
\<close>

lemma last_sep_split: "u @ d # c = w @ d # r \<Longrightarrow> d \<notin> set c \<Longrightarrow> u = w \<or> (\<exists>x. u = w @ d # x)"
  by (auto simp: append_eq_append_conv2 Cons_eq_append_conv append_eq_Cons_conv)

lemma path_of_Nil: "path_of x = [] \<Longrightarrow> set x \<subseteq> {slash}"
proof (induction x)
  case (Cons a x)
  then show ?case
    by (auto simp: path_of_def split: if_splits list.splits)
qed simp

lemma ns_prefix:
  assumes "ns_inv s" "ds @ xs \<in> dom (abs_ns s)" "ds \<noteq> []"
  shows "ds \<in> dom (abs_ns s)"
  using assms(2)
proof (induction xs rule: rev_induct)
  case (snoc x xs)
  have "butlast (ds @ xs @ [x]) = ds @ xs"
    by (simp add: butlast_append)
  then have "ds @ xs \<in> dom (abs_ns s)"
    using assms(1,3) snoc.prems unfolding ns_inv_def by (metis append_assoc append_is_Nil_conv)
  then show ?case
    by (rule snoc.IH)
qed simp

lemma nested_match:
  assumes wf: "wf_path (es @ cs @ [c])" "wf_path cs"
    and first: "\<And>fs d xs. fs @ cs @ [d] @ xs = es @ cs @ [c] \<Longrightarrow> length es \<le> length fs"
  shows "list_match (print_path cs @ [slash]) slash (print_path (es @ cs @ [c]))"
proof -
  let ?pat = "print_path cs @ [slash]" and ?k = "print_path (es @ cs @ [c])"
  have k: "?k = print_path es @ ?pat @ c"
    by simp
  have c: "wf_comp c" "wf_path (es @ cs)"
    using wf by (auto simp: wf_path_def)
  obtain i where i: "str_find ?k ?pat 0 = Some i" "i \<le> length (print_path es)"
    using str_find_Some_least [OF k] .
  obtain p r where pr: "?k = p @ ?pat @ r" "i = length p"
    using str_find_Some_split [OF i(1)] by metis
  have e: "print_path (es @ cs) @ slash # c = (p @ print_path cs) @ slash # r"
    using pr(1) by simp
  have "slash \<notin> set c"
    using c(1) by (simp add: wf_comp_def)
  have ne: "?k \<noteq> ?pat"
  proof
    assume "?k = ?pat"
    from arg_cong [OF this, of length] show False
      using c(1) by (simp add: wf_comp_def)
  qed
  from \<open>slash \<notin> set c\<close> consider "print_path (es @ cs) = p @ print_path cs"
    | x where "print_path (es @ cs) = p @ print_path cs @ slash # x"
    using last_sep_split [OF e] by auto
  then have "i = length (print_path es)"
  proof cases
    case (2 x)
    have last: "last (p @ print_path cs @ slash # x) \<noteq> slash"
      using last_print_path [OF c(2)] 2 by simp
    have "path_of x \<noteq> []"
    proof
      assume "path_of x = []"
      then have "set x \<subseteq> {slash}"
        by (rule path_of_Nil)
      moreover have "x \<noteq> []" "last x \<noteq> slash"
        using last by (cases x, simp_all split: if_splits)
      ultimately show False
        using last_in_set by blast
    qed
    then obtain d xs where x: "path_of x = d # xs"
      by (meson neq_Nil_conv)
    obtain e cs' where cs: "cs = e # cs'"
      using wf(2) by (cases cs) (simp_all add: wf_path_def)
    have "es @ cs = path_of (p @ print_path cs @ slash # x)"
      using path_of_print_path [OF c(2)] 2 by simp
    also have "\<dots> = path_of p @ cs @ d # xs"
      using path_of_sep [of "p @ print_path cs" x] path_of_sep [of p "e @ print_path cs'"] path_of_print_path [OF wf(2)] x
      by (simp add: cs path_of_sep)
    finally have e: "es @ cs = path_of p @ cs @ d # xs" .
    then have "length es \<le> length (path_of p)"
      by (intro first [of _ d "xs @ [c]"]) simp
    then show ?thesis
      using arg_cong [OF e, of length] by simp
  qed (use pr(2) in simp)
  then show ?thesis
    using i(1) \<open>slash \<notin> set c\<close> ne by (auto simp: list_match_def str_find_char_None dest: in_set_dropD)
qed

lemma nested_listed:
  assumes "ns_inv s" "wf_path cs" "es @ cs @ [c] \<in> dom (abs_ns s)"
  shows "KvMemStore_list (print_path cs @ [slash]) slash s \<noteq> []"
  using assms(3)
proof (induction es arbitrary: c rule: length_induct)
  case (1 es)
  show ?case
  proof (cases "\<exists>fs d. length fs < length es \<and> fs @ cs @ [d] \<in> dom (abs_ns s)")
    case False
    have wf: "wf_path (es @ cs @ [c])"
      using 1(2) by (rule abs_ns_wf)
    have "list_match (print_path cs @ [slash]) slash (print_path (es @ cs @ [c]))"
    proof (rule nested_match [OF wf assms(2)])
      fix fs d xs
      assume "fs @ cs @ [d] @ xs = es @ cs @ [c]"
      then have "fs @ cs @ [d] \<in> dom (abs_ns s)"
        using ns_prefix [OF assms(1), of "fs @ cs @ [d]" xs] 1(2) by simp
      then show "length es \<le> length fs"
        using False not_less by blast
    qed
    moreover have "print_path (es @ cs @ [c]) \<in> dom (map_of (kvMap s))"
      using 1(2) wf by (simp add: abs_ns_def domIff)
    ultimately show ?thesis
      using KvMemStore_list_set [of "print_path cs @ [slash]" slash s] by force
  qed (use 1(1) in blast)
qed

lemma listed_nested:
  assumes "ns_inv s" "wf_path cs" "KvMemStore_list (print_path cs @ [slash]) slash s \<noteq> []"
  obtains es c where "es @ cs @ [c] \<in> dom (abs_ns s)"
proof -
  obtain k where "k \<in> dom (map_of (kvMap s))" and m: "list_match (print_path cs @ [slash]) slash k"
    using assms(3) KvMemStore_list_set [of "print_path cs @ [slash]" slash s] by (metis (no_types, lifting) last_in_set mem_Collect_eq)
  then obtain ds where ds: "wf_path ds" "k = print_path ds" "ds \<in> dom (abs_ns s)"
    using ns_inv_key [OF assms(1)] by metis
  then show ?thesis
    using listed_path [of cs ds] m assms(2) that by (auto simp: wf_path_def)
qed

text \<open>No stored path contains \<open>cs\<close> anywhere but at its start.\<close>

definition anchored :: "'a kvmem_scheme \<Rightarrow> path \<Rightarrow> bool" where
  "anchored s cs \<longleftrightarrow> (\<forall>ds \<in> dom (abs_ns s). \<forall>es c. ds = es @ cs @ [c] \<longrightarrow> es = [])"

lemma list_keys_exact:
  assumes "ns_inv s" "list_all wf_comp cs" "cs = [] \<or> anchored s cs"
  shows "set (KvMemStore_list (print_path cs @ [slash]) slash s) =
    (\<lambda>c. print_path (cs @ [c])) ` children s cs"
proof
  show "set (KvMemStore_list (print_path cs @ [slash]) slash s) \<subseteq>
      (\<lambda>c. print_path (cs @ [c])) ` children s cs"
  proof
    fix k
    assume "k \<in> set (KvMemStore_list (print_path cs @ [slash]) slash s)"
    then have dom: "k \<in> dom (map_of (kvMap s))"
        and match: "list_match (print_path cs @ [slash]) slash k"
      by (auto simp: KvMemStore_list_set)
    obtain ds where ds: "wf_path ds" "k = print_path ds" "ds \<in> dom (abs_ns s)"
      using ns_inv_key [OF assms(1) dom] .
    obtain es c where "ds = es @ cs @ [c]" "cs = [] \<longrightarrow> es = []"
      using listed_path match ds assms(2) by blast
    then have "ds = cs @ [c]"
      using assms(3) ds(3) by (auto simp: anchored_def)
    then show "k \<in> (\<lambda>c. print_path (cs @ [c])) ` children s cs"
      using ds unfolding children_def by blast
  qed
qed (use children_listed in blast)

subsection \<open>Leaves\<close>

lemma last_slash_find: "last_slash k i \<Longrightarrow> str_find_last_of k slash = Some i"
  unfolding str_find_last_of_Some last_slash_def in_set_conv_nth
  by (auto simp: nth_append)

lemma leaf_of_key:
  assumes "wf_path cs"
  shows "str_find_last_of (print_path cs) slash = Some (length (print_path (butlast cs)))"
    and "str_substr (print_path cs) (length (print_path (butlast cs)) + 1)
      (length (print_path cs) - length (print_path (butlast cs))) = last cs"
    and "length (print_path (butlast cs)) < length (print_path cs) - 1"
proof -
  obtain bs b where cs: "cs = bs @ [b]"
    using assms by (metis append_butlast_last_id wf_path_def)
  then have b: "wf_comp b"
    using assms by (simp add: wf_path_snoc)
  then show "str_find_last_of (print_path cs) slash = Some (length (print_path (butlast cs)))"
    using last_slash_find [OF last_slash_print_path [of b bs]] cs by (simp add: wf_comp_def)
  show "str_substr (print_path cs) (length (print_path (butlast cs)) + 1)
      (length (print_path cs) - length (print_path (butlast cs))) = last cs"
    using cs by (simp add: str_substr_def)
  show "length (print_path (butlast cs)) < length (print_path cs) - 1"
    using cs b by (simp add: wf_comp_def)
qed

lemma leaf_loop_map:
  "\<forall>k \<in> set ks. \<exists>cs. wf_path cs \<and> k = print_path cs \<Longrightarrow>
   leaf_loop ks acc = Some (acc @ map (\<lambda>k. last (path_of k)) ks)"
proof (induction ks arbitrary: acc)
  case (Cons k ks)
  then obtain cs where "wf_path cs" "k = print_path cs"
    by auto
  then show ?case
    using Cons leaf_of_key [of cs] by (simp add: path_of_print_path)
qed simp

lemma list_keys_Return:
  assumes "ns_inv s"
  shows "list_keys key s =
    Return (Res_keys (map (\<lambda>k. last (path_of k)) (KvMemStore_list (key @ [slash]) slash s))) s"
proof -
  have "\<exists>cs. wf_path cs \<and> k = print_path cs"
    if "k \<in> set (KvMemStore_list (key @ [slash]) slash s)" for k
    using that ns_inv_key [OF assms] by (metis (no_types, lifting) KvMemStore_list_set mem_Collect_eq)
  then show ?thesis
    by (simp add: list_keys_def leaf_loop_map)
qed

text \<open>What a client sees: the names of the children, each once.\<close>

lemma list_keys_children:
  assumes "ns_inv s" "list_all wf_comp cs" "cs = [] \<or> anchored s cs"
  shows "\<exists>ks. list_keys (print_path cs) s = Return (Res_keys ks) s \<and> distinct ks \<and> set ks = children s cs"
proof -
  let ?l = "KvMemStore_list (print_path cs @ [slash]) slash s"
  have leaf: "last (path_of (print_path (cs @ [c]))) = c" if "c \<in> children s cs" for c
  proof -
    have "wf_path (cs @ [c])"
      using that abs_ns_wf unfolding children_def by blast
    then show ?thesis
      by (simp only: path_of_print_path last_snoc)
  qed
  have set: "set ?l = (\<lambda>c. print_path (cs @ [c])) ` children s cs"
    using assms by (rule list_keys_exact)
  have "inj_on (\<lambda>k. last (path_of k)) (set ?l)"
    unfolding set by (rule inj_onI) (use leaf in auto)
  then have "distinct (map (\<lambda>k. last (path_of k)) ?l)"
    using KvMemStore_list_sorted [of "print_path cs @ [slash]" slash s] by (simp add: distinct_map)
  moreover have "set (map (\<lambda>k. last (path_of k)) ?l) = children s cs"
    unfolding set_map set image_image using leaf by simp
  ultimately show ?thesis
    using list_keys_Return [OF assms(1)] by blast
qed

text \<open>The invariant on a store given by its keys.\<close>

lemma ns_inv_keys:
  assumes "um_wf (kvMap s)" "list_all (\<lambda>k. checkKeyFormat k = NONE \<and> print_path (path_of k) = k \<and>
      (butlast (path_of k) \<noteq> [] \<longrightarrow> print_path (butlast (path_of k)) \<in> set (map fst (kvMap s))))
      (map fst (kvMap s))"
  shows "ns_inv s"
proof -
  have dom: "dom (map_of (kvMap s)) = set (map fst (kvMap s))"
    by (simp add: dom_map_of_conv_image_fst)
  have keys: "checkKeyFormat k = NONE \<and> print_path (path_of k) = k \<and> (butlast (path_of k) \<noteq> [] \<longrightarrow>
      print_path (butlast (path_of k)) \<in> dom (map_of (kvMap s)))" if "k \<in> dom (map_of (kvMap s))" for k
    using assms(2) that unfolding list_all_iff dom by blast
  have "butlast cs \<in> dom (abs_ns s)" if cs: "cs \<in> dom (abs_ns s)" "butlast cs \<noteq> []" for cs
  proof -
    have wf: "wf_path cs" "print_path cs \<in> dom (map_of (kvMap s))"
      using cs(1) by (auto simp: abs_ns_def split: if_splits)
    then have "print_path (butlast cs) \<in> dom (map_of (kvMap s))"
      using keys [OF wf(2)] cs(2) by (simp add: path_of_print_path)
    then show ?thesis
      using wf_path_butlast [OF wf(1) cs(2)] by (simp add: abs_ns_def domIff)
  qed
  then show ?thesis
    using assms(1) keys unfolding ns_inv_def by blast
qed

section \<open>The operations implement the namespace\<close>

lemma with_pruned_wf:
  "checkKeyFormat key = NONE \<Longrightarrow>
   with_pruned (pruneKey key) s f =
     f (length (print_path (butlast (path_of key)))) (print_path (path_of key))"
  by (simp add: pruneKey_wf)

lemma parent_substr:
  "wf_path cs \<Longrightarrow>
   str_substr (print_path cs) 0 (length (print_path (butlast cs))) = print_path (butlast cs)"
  by (cases cs rule: rev_cases) (simp_all add: str_substr_def)

text \<open>
  The results of a replicated operation the code may answer with: the code's own success, or one
  of the two replication errors with the store unchanged.
\<close>

definition replicated_outcome ::
  "('a kvmem_scheme, Result) res \<Rightarrow> (path \<Rightarrow> string option) \<Rightarrow> (path \<Rightarrow> string option) \<Rightarrow> bool"
where
  "replicated_outcome r m m' \<longleftrightarrow>
     (\<exists>s'. r = Return (res_error NONE) s' \<and> abs_ns s' = m') \<or>
     (\<exists>s'. r = Return (res_error QUORUM_NOT_REACHED) s' \<and> abs_ns s' = m) \<or>
     (\<exists>s'. r = Return (res_error STATUS_NOT_NORMAL) s' \<and> abs_ns s' = m)"

context replicator_contract
begin

lemma catch_set:
  assumes "wf_path cs" "KvMemStore_set R (print_path cs) v s \<noteq> Abort"
  shows "replicated_outcome (catch_replication (KvMemStore_set R (print_path cs) v s))
    (abs_ns s) ((abs_ns s)(cs \<mapsto> v))"
proof (cases "KvMemStore_set R (print_path cs) v s")
  case (Raise e s')
  then show ?thesis
    using set_Raise [OF Raise] abs_ns_cong [of s' s] by (auto simp: replicated_outcome_def)
next
  case (Return u s')
  then show ?thesis
    using set_Return [OF Return] abs_ns_put [OF assms(1), of s' v s] by (simp add: replicated_outcome_def)
qed (use assms(2) in simp)

lemma catch_remove:
  assumes "wf_path cs" "abs_ns s cs \<noteq> None" "KvMemStore_remove R (print_path cs) s \<noteq> Abort"
  shows "replicated_outcome (catch_replication (KvMemStore_remove R (print_path cs) s))
    (abs_ns s) ((abs_ns s)(cs := None))"
proof (cases "KvMemStore_remove R (print_path cs) s")
  case (Raise e s')
  then show ?thesis
    using remove_Raise [OF Raise] abs_ns_cong [of s' s] assms
    by (auto simp: replicated_outcome_def hasKey_abs_ns)
next
  case (Return u s')
  then show ?thesis
    using remove_Return [OF Return] abs_ns_erase [OF assms(1), of s' s] by (simp add: replicated_outcome_def)
qed (use assms(3) in simp)

lemma create_refines:
  assumes "isPrimary R s" "checkKeyFormat (kvp_key arg) = NONE" "\<And>k v. KvMemStore_set R k v s \<noteq> Abort"
  shows "case ns_create (path_of (kvp_key arg)) (kvp_val arg) (abs_ns s) of
      (NsErr e, m') \<Rightarrow> api_create R arg s = Return (res_error e) s
    | (NsOk, m') \<Rightarrow> replicated_outcome (api_create R arg s) (abs_ns s) m'"
proof -
  let ?cs = "path_of (kvp_key arg)"
  have wf: "wf_path ?cs"
    using assms(2) by (rule wf_path_of_key)
  show ?thesis
    using assms wf catch_set [OF wf assms(3)] wf_path_butlast [OF wf]
    by (simp add: api_create_def with_pruned_wf parent_substr hasKey_abs_ns ns_create_def)
qed

lemma set_refines:
  assumes "isPrimary R s" "checkKeyFormat (kvp_key arg) = NONE" "\<And>k v. KvMemStore_set R k v s \<noteq> Abort"
  shows "case ns_set (path_of (kvp_key arg)) (kvp_val arg) (abs_ns s) of
      (NsErr e, m') \<Rightarrow> api_set R arg s = Return (res_error e) s
    | (NsOk, m') \<Rightarrow> replicated_outcome (api_set R arg s) (abs_ns s) m'"
  using assms wf_path_of_key [OF assms(2)] catch_set [OF wf_path_of_key [OF assms(2)] assms(3)]
  by (simp add: api_set_def with_pruned_wf hasKey_abs_ns ns_set_def)

lemma remove_refines:
  assumes "isPrimary R s" "checkKeyFormat arg = NONE" "ns_inv s"
    and "\<And>k. hasKey k s \<Longrightarrow> KvMemStore_remove R k s \<noteq> Abort"
  shows "if abs_ns s (path_of arg) = None then api_remove R arg s = Return (res_error KEY_NOT_PRESENT) s
    else if \<exists>es c. es @ path_of arg @ [c] \<in> dom (abs_ns s)
    then api_remove R arg s = Return (res_error KEY_HAS_CHILDREN) s
    else replicated_outcome (api_remove R arg s) (abs_ns s) ((abs_ns s)(path_of arg := None))"
proof -
  let ?cs = "path_of arg"
  have wf: "wf_path ?cs"
    using assms(2) by (rule wf_path_of_key)
  have "KvMemStore_list (print_path ?cs @ [slash]) slash s \<noteq> [] \<longleftrightarrow> (\<exists>es c. es @ ?cs @ [c] \<in> dom (abs_ns s))"
    using nested_listed [OF assms(3) wf] listed_nested [OF assms(3) wf] by metis
  then show ?thesis
    using assms wf catch_remove [OF wf, of s] assms(4) [of "print_path ?cs"]
    by (auto simp: api_remove_def with_pruned_wf hasKey_abs_ns)
qed

text \<open>No call leaks an exception, and every call keeps the namespace invariant.\<close>

lemma catch_set_never_raises: "catch_replication (KvMemStore_set R k v s) \<noteq> Raise e s'"
proof (cases "KvMemStore_set R k v s")
  case (Raise e1 s1)
  then show ?thesis
    using set_Raise [OF Raise] by auto
qed simp_all

lemma catch_remove_never_raises:
  assumes "hasKey k s"
  shows "catch_replication (KvMemStore_remove R k s) \<noteq> Raise e s'"
proof (cases "KvMemStore_remove R k s")
  case (Raise e1 s1)
  then show ?thesis
    using remove_Raise [OF Raise assms] by auto
qed simp_all

lemmas catch_never_raises = catch_set_never_raises catch_remove_never_raises

lemma dispatch_never_raises:
  assumes "ns_inv s"
  shows "KvStoreApi_dispatch R req s \<noteq> Raise e s'"
proof (cases req)
  case (CreateReq a)
  then show ?thesis
    using catch_never_raises by (simp add: api_create_def with_pruned_wf Let_def)
next
  case (RemoveReq a)
  then show ?thesis
    using catch_never_raises by (simp add: api_remove_def with_pruned_wf)
next
  case (SetReq a)
  then show ?thesis
    using catch_never_raises by (simp add: api_set_def with_pruned_wf)
next
  case (GetReq a)
  then show ?thesis
    by (auto simp: api_get_def with_pruned_wf KvMemStore_get_def hasKey_def split: option.splits)
next
  case (ListReq a)
  then show ?thesis
    using assms by (simp add: api_list_def with_pruned_wf list_keys_Return)
qed

lemma dispatch_not_Abort:
  assumes "ns_inv s" "\<And>k v. isPrimary R s \<Longrightarrow> KvMemStore_set R k v s \<noteq> Abort"
    and "\<And>k. isPrimary R s \<Longrightarrow> hasKey k s \<Longrightarrow> KvMemStore_remove R k s \<noteq> Abort"
  shows "KvStoreApi_dispatch R req s \<noteq> Abort"
proof -
  have c: "catch_replication r \<noteq> Abort" if "r \<noteq> Abort" for r :: "('a kvmem_scheme, 'x) res"
    using that by (cases r) (auto split: exn.split)
  show ?thesis
    using assms
    by (cases req) (auto simp: api_create_def api_remove_def api_set_def api_get_def api_list_def
        with_pruned_wf list_keys_Return KvMemStore_get_def hasKey_def Let_def outcome_simps c
        split: option.splits)
qed

lemma catch_set_inv:
  assumes "catch_replication (KvMemStore_set R (print_path cs) v s) = Return r s'"
    and "ns_inv s" "wf_path cs" "butlast cs \<noteq> [] \<Longrightarrow> butlast cs \<in> dom (abs_ns s)"
  shows "ns_inv s'"
proof (cases "KvMemStore_set R (print_path cs) v s")
  case (Raise e s1)
  then have "kvMap s' = kvMap s"
    using assms(1) set_Raise [OF Raise] by auto
  then show ?thesis
    using assms(2) ns_inv_cong by blast
next
  case (Return u s1)
  then have "kvMap s' = um_put (print_path cs) v (kvMap s)"
    using assms(1) set_Return [OF Return] by auto
  then show ?thesis
    using assms(2-4) ns_inv_put by blast
qed (use assms(1) in simp)

lemma catch_remove_inv:
  assumes "catch_replication (KvMemStore_remove R (print_path cs) s) = Return r s'"
    and "ns_inv s" "wf_path cs" "hasKey (print_path cs) s" "children s cs = {}"
  shows "ns_inv s'"
proof (cases "KvMemStore_remove R (print_path cs) s")
  case (Raise e s1)
  then have "kvMap s' = kvMap s"
    using assms(1,4) remove_Raise [OF Raise] by auto
  then show ?thesis
    using assms(2) ns_inv_cong by blast
next
  case (Return u s1)
  then have "kvMap s' = um_erase (print_path cs) (kvMap s)"
    using assms(1) remove_Return [OF Return] by auto
  then show ?thesis
    using assms(2,3,5) ns_inv_erase by blast
qed (use assms(1) in simp)

lemma create_inv:
  assumes "ns_inv s" "api_create R a s = Return r s'"
  shows "ns_inv s'"
proof (cases "isPrimary R s \<and> checkKeyFormat (kvp_key a) = NONE")
  case True
  let ?cs = "path_of (kvp_key a)"
  have wf: "wf_path ?cs"
    using True by (simp add: wf_path_of_key)
  have "s' = s \<or> (butlast ?cs \<noteq> [] \<longrightarrow> butlast ?cs \<in> dom (abs_ns s)) \<and>
      catch_replication (KvMemStore_set R (print_path ?cs) (kvp_val a) s) = Return r s'"
    using assms(2) True wf_path_butlast [OF wf]
    by (auto simp: api_create_def with_pruned_wf parent_substr [OF wf] hasKey_abs_ns
          split: if_splits)
  then show ?thesis
    using assms(1) catch_set_inv wf by blast
qed (use assms in \<open>auto simp: api_create_def split: if_splits\<close>)

lemma set_inv:
  assumes "ns_inv s" "api_set R a s = Return r s'"
  shows "ns_inv s'"
proof (cases "isPrimary R s \<and> checkKeyFormat (kvp_key a) = NONE")
  case True
  let ?cs = "path_of (kvp_key a)"
  have wf: "wf_path ?cs"
    using True by (simp add: wf_path_of_key)
  have "s' = s \<or> ?cs \<in> dom (abs_ns s) \<and>
      catch_replication (KvMemStore_set R (print_path ?cs) (kvp_val a) s) = Return r s'"
    using assms(2) True wf by (auto simp: api_set_def with_pruned_wf hasKey_abs_ns split: if_splits)
  then show ?thesis
    using assms(1) catch_set_inv wf unfolding ns_inv_def by blast
qed (use assms in \<open>auto simp: api_set_def split: if_splits\<close>)

lemma remove_inv:
  assumes "ns_inv s" "api_remove R a s = Return r s'"
  shows "ns_inv s'"
proof (cases "isPrimary R s \<and> checkKeyFormat a = NONE")
  case True
  let ?cs = "path_of a"
  have wf: "wf_path ?cs"
    using True by (simp add: wf_path_of_key)
  have "s' = s \<or> hasKey (print_path ?cs) s \<and>
      KvMemStore_list (print_path ?cs @ [slash]) slash s = [] \<and>
      catch_replication (KvMemStore_remove R (print_path ?cs) s) = Return r s'"
    using assms(2) True by (auto simp: api_remove_def with_pruned_wf split: if_splits)
  moreover have "KvMemStore_list (print_path ?cs @ [slash]) slash s = [] \<Longrightarrow> children s ?cs = {}"
    using children_listed [of _ s ?cs] by fastforce
  ultimately show ?thesis
    using assms(1) catch_remove_inv wf by blast
qed (use assms in \<open>auto simp: api_remove_def split: if_splits\<close>)

lemma dispatch_inv:
  assumes "ns_inv s" "KvStoreApi_dispatch R req s = Return r s'"
  shows "ns_inv s'"
proof (cases req)
  case (GetReq a)
  then have "s' = s"
    using assms(2)
    by (cases "checkKeyFormat a = NONE")
      (auto simp: api_get_def with_pruned_wf KvMemStore_get_def outcome_simps split: if_splits option.splits)
  then show ?thesis
    using assms(1) by simp
next
  case (ListReq a)
  then have "s' = s"
    using assms
    by (cases "checkKeyFormat a = NONE")
      (auto simp: api_list_def with_pruned_wf list_keys_Return split: if_splits)
  then show ?thesis
    using assms(1) by simp
next
  case (CreateReq a)
  then show ?thesis
    using assms create_inv by simp
next
  case (SetReq a)
  then show ?thesis
    using assms set_inv by simp
next
  case (RemoveReq a)
  then show ?thesis
    using assms remove_inv by simp
qed

end

end
