(* ===== verification/Service.thy ===== *)
theory Service
  imports KvNamespace Replication
begin

text \<open>
  The client interface on a replica: the operations of \<open>KvStoreApi\<close> over the replicator of
  \<open>Replicator\<close>. While a call waits for the mutex and for its quorum other threads run; the interface
  below says what they leave alone as long as no view change or recovery comes in between, and the
  client-side theorems of \<open>KvNamespace\<close> hold for every such environment. What happens otherwise is
  shown at the end of \<open>Faults\<close>.
\<close>

section \<open>Quiet environments\<close>

locale quiet_env =
  fixes env :: "'a replica_scheme rep_env"
  assumes wait_quiet: "rpe_wait env s = (st, t) \<Longrightarrow>
    kvMap t = kvMap s \<and> oplog t = oplog s \<and> opNum t = opNum s \<and> commitNum t = commitNum s"
    and lock_quiet: "kvMap (rpe_lock env s) = kvMap s \<and> oplog (rpe_lock env s) = oplog s \<and> selfId (rpe_lock env s) = selfId s \<and>
      priId (rpe_lock env s) = priId s \<and> viewNum (rpe_lock env s) = viewNum s \<and> status (rpe_lock env s) = status s \<and>
      opNum (rpe_lock env s) = opNum s \<and> commitNum (rpe_lock env s) = commitNum s"
begin

lemma set_run:
  assumes "threadsStarted s" "selfId s = priId s" "status s = NORMAL"
  shows "bind_res (KvMemStore_set (vsReplicator env) k v s) (\<lambda>_. Return ()) = op_run env (op_prep UPDATE k v s) (rpe_lock env s)"
  using KvMemStore_set_run [OF assms(1,2) refl, of env k v] assms(2,3) by (simp add: lock_quiet op_prep_def)

lemma lock_regular: "regular s \<Longrightarrow> regular (rpe_lock env s)"
  using regular_cong [of "rpe_lock env s" s] by (simp add: lock_quiet)

lemma replicate_frame:
  assumes "res_state (VsReplicator_replicate env p s) = Some t"
  shows "kvMap t = kvMap s"
proof (cases "status s = NORMAL")
  case True
  obtain q u where b: "replicate_begin (rpe_net env) p s = (q, u)"
    by fastforce
  obtain st w where w: "(if q then (no_timeout, u) else rpe_wait env u) = (st, w)"
    by fastforce
  have kv: "kvMap w = kvMap s"
    using w wait_quiet [of u] replicate_begin_effect(1) [OF b] by (cases q) auto
  show ?thesis
  proof (cases "st = timeout")
    case True
    then show ?thesis
      using assms \<open>status s = NORMAL\<close> b w kv by (simp add: VsReplicator_replicate_def)
  next
    case False
    then have r: "res_state (replicate_commit (rpe_net env) p w) = Some t"
      using assms \<open>status s = NORMAL\<close> b w by (simp add: VsReplicator_replicate_def)
    then obtain l where l: "commit (pi_opNum p) (oplog w) = Some l"
      by (cases "commit (pi_opNum p) (oplog w)") (auto simp: replicate_commit_def)
    show ?thesis
      by (rule replicate_commit_effect [OF l, of "rpe_net env"]) (use r kv in simp)
  qed
qed (use assms in \<open>simp add: VsReplicator_replicate_def\<close>)

lemma replicate_not_Abort: "VsReplicator_replicate env p s \<noteq> Abort"
proof -
  obtain q u where b: "replicate_begin (rpe_net env) p s = (q, u)"
    by fastforce
  obtain st w where w: "(if q then (no_timeout, u) else rpe_wait env u) = (st, w)"
    by fastforce
  have "oplog w = log_append p (oplog s)"
    using w wait_quiet [of u st w] replicate_begin_effect(3) [OF b] by (simp split: if_splits)
  then have "commit (pi_opNum p) (oplog w) \<noteq> None"
    by (simp add: mem.mark_None log_append_entry)
  then show ?thesis
    using b w by (auto simp: VsReplicator_replicate_def replicate_commit_def Let_def)
qed

lemma set_not_Abort:
  "threadsStarted s \<Longrightarrow> selfId s = priId s \<Longrightarrow> KvMemStore_set (vsReplicator env) k v s \<noteq> Abort"
  using replicate_not_Abort
  by (simp add: KvMemStore_set_def vsReplicator_def VsReplicator_isPrimary_def setInt_def
      VsReplicator_replicateUpdate_def bind_res_eq_Abort lock_quiet Let_def)

lemma remove_not_Abort:
  "threadsStarted s \<Longrightarrow> selfId s = priId s \<Longrightarrow> KvMemStore_remove (vsReplicator env) k s \<noteq> Abort"
  using replicate_not_Abort
  by (simp add: KvMemStore_remove_def vsReplicator_def VsReplicator_isPrimary_def
      VsReplicator_replicateDelete_def bind_res_eq_Abort lock_quiet Let_def)

lemma replicate_exn:
  assumes "VsReplicator_replicate env p s = Raise e t"
  shows "e = QuorumNotReached \<or> e = ReplicaStateNotNormal"
  using assms
  by (auto simp: VsReplicator_replicate_def replicate_commit_def Let_def
      split: if_splits prod.splits option.splits)

text \<open>One client operation on a primary that has committed everything it logged.\<close>

lemma op_run_quiet:
  assumes reg: "regular s" and eq: "commitNum s = opNum s" and ne: "opNum s \<noteq> - 1"
    and p: "pi_opNum p = opNum s + 1"
  shows "case op_run env p s of
      Abort \<Rightarrow> False
    | Raise e t \<Rightarrow> e = QuorumNotReached \<and> regular t \<and> commitNum t = commitNum s \<and>
        log_ops (oplog t) = log_ops (oplog s) @ [prep_op p] \<and> map_of (kvMap t) = map_of (kvMap s)
    | Return _ t \<Rightarrow> regular t \<and> commitNum t = opNum t \<and> opNum t = opNum s + 1 \<and>
        log_ops (oplog t) = log_ops (oplog s) @ [prep_op p] \<and>
        map_of (kvMap t) = op_effect (prep_op p) (map_of (kvMap s))"
proof -
  obtain q u where b: "op_begin (rpe_net env) p s = (q, u)"
    by fastforce
  note r = op_begin_regular [OF b reg p ne]
  have bkv: "kvMap u = kvMap s"
    using replicate_begin_effect(1) [OF b [unfolded op_begin_def]] by simp
  obtain st w where w: "(if q then (no_timeout, u) else rpe_wait env u) = (st, w)"
    by fastforce
  have w': "kvMap w = kvMap s" "oplog w = oplog u" "opNum w = opNum s + 1" "commitNum w = commitNum s"
  proof -
    have "kvMap w = kvMap u \<and> oplog w = oplog u \<and> opNum w = opNum u \<and> commitNum w = commitNum u"
      using w wait_quiet [of u st w] by (simp split: if_splits)
    then show "kvMap w = kvMap s" "oplog w = oplog u" "opNum w = opNum s + 1" "commitNum w = commitNum s"
      by (simp_all add: bkv r(3))
  qed
  have rw: "regular w"
    using r(1) regular_cong [of w u] by (simp add: w' bkv r(3))
  show ?thesis
  proof (cases "st = timeout")
    case True
    then show ?thesis
      using b w rw w' r(2) by (simp add: op_run_def)
  next
    case False
    have len: "length (log_ops (oplog s)) = unat (opNum s)"
      using reg by (rule regular_length)
    have last: "log_ops (oplog w) ! unat (commitNum w) = prep_op p"
      by (simp add: w' r(2) eq len nth_append)
    have run: "op_run env p s = op_finish (rpe_net env) p w"
      using False b w by (simp add: op_run_def)
    obtain t where t: "op_finish (rpe_net env) p w = Return () t" "regular t"
      "log_ops (oplog t) = log_ops (oplog w)" "rstate t = rs_commitNum_update (\<lambda>_. opNum w) (rstate w)"
      by (rule op_finish_regular [OF rw _ _ _ last, of "rpe_net env"]) (use p ne eq w' in simp_all)
    have "map_of (kvMap t) = op_effect (prep_op p) (map_of (kvMap s))"
      using regular_all [OF t(2)] regular_all [OF reg eq] t(3,4) by (simp add: w' r(2))
    then show ?thesis
      using t by (simp add: run w' r(2))
  qed
qed

text \<open>An operation that returns, on a primary that may have uncommitted operations before it.\<close>

lemma op_run_returned:
  assumes reg: "regular s" and ne: "opNum s \<noteq> - 1" and p: "pi_opNum p = opNum s + 1"
    and run: "op_run env p s = Return () t"
  shows "commitNum t = opNum s + 1" "log_ops (oplog t) = log_ops (oplog s) @ [prep_op p]"
    "map_of (kvMap t) = op_effect (prep_op p) (map_of (kvMap s))"
proof -
  obtain q u where b: "op_begin (rpe_net env) p s = (q, u)"
    by fastforce
  note r = op_begin_regular [OF b reg p ne]
  have bkv: "kvMap u = kvMap s"
    using replicate_begin_effect(1) [OF b [unfolded op_begin_def]] by simp
  obtain st w where w: "(if q then (no_timeout, u) else rpe_wait env u) = (st, w)"
    by fastforce
  have w': "kvMap w = kvMap s" "oplog w = oplog u"
    using w wait_quiet [of u st w] bkv by (simp_all split: if_splits)
  have fin: "op_finish (rpe_net env) p w = Return () t"
    using run b w by (simp add: op_run_def split: if_splits)
  then obtain l where l: "commit (pi_opNum p) (oplog w) = Some l"
    by (cases "commit (pi_opNum p) (oplog w)") (simp_all add: op_finish_def replicate_commit_def)
  obtain x where x: "replicate_commit (rpe_net env) p w = Return () x" "kvMap x = kvMap w"
    "rstate x = rs_commitNum_update (\<lambda>_. pi_opNum p) (rstate w)" "oplog x = l"
    by (rule replicate_commit_effect [OF l]) blast
  have t: "t = op_store p x"
    using fin x(1) by (simp add: op_finish_def)
  have "log_ops l = log_ops (oplog w)"
    using regular_log_inv [OF r(1)] l by (intro commit_log_ops) (simp_all add: w')
  then show "commitNum t = opNum s + 1" "log_ops (oplog t) = log_ops (oplog s) @ [prep_op p]"
    "map_of (kvMap t) = op_effect (prep_op p) (map_of (kvMap s))"
    by (simp_all add: t x w' r(2) op_store_kvMap p)
qed

text \<open>The same of an operation that has first waited for the mutex.\<close>

lemma locked_run:
  assumes "regular s" "commitNum s = opNum s" "opNum s \<noteq> - 1" "pi_opNum p = opNum s + 1"
  shows "case op_run env p (rpe_lock env s) of
      Abort \<Rightarrow> False
    | Raise e t \<Rightarrow> e = QuorumNotReached \<and> regular t \<and> commitNum t = commitNum s \<and>
        log_ops (oplog t) = log_ops (oplog s) @ [prep_op p] \<and> map_of (kvMap t) = map_of (kvMap s)
    | Return _ t \<Rightarrow> regular t \<and> commitNum t = opNum t \<and> opNum t = opNum s + 1 \<and>
        log_ops (oplog t) = log_ops (oplog s) @ [prep_op p] \<and>
        map_of (kvMap t) = op_effect (prep_op p) (map_of (kvMap s))"
  using op_run_quiet [OF lock_regular [OF assms(1)], of p] assms(2-4)
  by (cases "op_run env p (rpe_lock env s)") (simp_all add: lock_quiet)

lemma locked_returned:
  assumes "regular s" "opNum s \<noteq> - 1" "pi_opNum p = opNum s + 1" "op_run env p (rpe_lock env s) = Return () t"
  shows "commitNum t = opNum s + 1" "log_ops (oplog t) = log_ops (oplog s) @ [prep_op p]"
    "map_of (kvMap t) = op_effect (prep_op p) (map_of (kvMap s))"
  using op_run_returned [OF lock_regular [OF assms(1)] _ _ assms(4)] assms(2,3) by (simp_all add: lock_quiet)

text \<open>The operation is in the log however the call ends, and committed when it returns.\<close>

lemma op_run_logged:
  assumes "res_state (op_run env p s) = Some t"
  shows "op_run env p s \<noteq> Return () t \<and> oplog t = log_append p (oplog s) \<or>
    commit (pi_opNum p) (log_append p (oplog s)) = Some (oplog t)"
proof -
  obtain q u where b: "op_begin (rpe_net env) p s = (q, u)"
    by fastforce
  have u: "oplog u = log_append p (oplog s)"
    using replicate_begin_effect(3) [OF b [unfolded op_begin_def]] by simp
  obtain st w where w: "(if q then (no_timeout, u) else rpe_wait env u) = (st, w)"
    by fastforce
  then have o: "oplog w = log_append p (oplog s)"
    using wait_quiet [of u st w] u by (simp split: if_splits)
  show ?thesis
  proof (cases "st = timeout")
    case False
    then have f: "res_state (op_finish (rpe_net env) p w) = Some t"
      using assms b w by (simp add: op_run_def)
    then obtain l where l: "commit (pi_opNum p) (oplog w) = Some l"
      by (cases "commit (pi_opNum p) (oplog w)") (auto simp: op_finish_def replicate_commit_def)
    obtain x where x: "replicate_commit (rpe_net env) p w = Return () x" "oplog x = l"
      by (rule replicate_commit_effect [OF l]) blast
    then show ?thesis
      using f l o by (auto simp: op_finish_def)
  qed (use assms b w o in \<open>simp add: op_run_def\<close>)
qed

end

sublocale quiet_env \<subseteq> contract: replicator_contract "vsReplicator env"
proof
  show "kvMap t = kvMap s" if "res_state (replicateUpdate (vsReplicator env) k v s) = Some t" for k v s t
    using that replicate_frame
    by (fastforce simp: vsReplicator_def VsReplicator_replicateUpdate_def assert_res_def lock_quiet Let_def split: if_splits)
  show "kvMap t = kvMap s" if "res_state (replicateDelete (vsReplicator env) k s) = Some t" for k s t
    using that replicate_frame
    by (fastforce simp: vsReplicator_def VsReplicator_replicateDelete_def assert_res_def lock_quiet Let_def split: if_splits)
  show "e = QuorumNotReached \<or> e = ReplicaStateNotNormal"
    if "replicateUpdate (vsReplicator env) k v s = Raise e t" for k v s e t
    using that replicate_exn
    by (auto simp: vsReplicator_def VsReplicator_replicateUpdate_def outcome_simps Let_def)
  show "e = QuorumNotReached \<or> e = ReplicaStateNotNormal"
    if "replicateDelete (vsReplicator env) k s = Raise e t" for k s e t
    using that replicate_exn
    by (auto simp: vsReplicator_def VsReplicator_replicateDelete_def outcome_simps Let_def)
qed

context quiet_env
begin

lemma is_contract: "replicator_contract (vsReplicator env)"
  by (rule contract.replicator_contract_axioms)

lemma isPrimary_vs: "isPrimary (vsReplicator env) s \<longleftrightarrow> selfId s = priId s"
  by (simp add: vsReplicator_def VsReplicator_isPrimary_def)

lemma dispatch_total:
  assumes "threadsStarted s" "ns_inv s"
  shows "\<exists>r t. KvStoreApi_dispatch (vsReplicator env) req s = Return r t \<and> ns_inv t"
proof -
  have "KvStoreApi_dispatch (vsReplicator env) req s \<noteq> Abort"
    using assms set_not_Abort remove_not_Abort
    by (intro contract.dispatch_not_Abort) (simp_all add: isPrimary_vs)
  then show ?thesis
    using contract.dispatch_never_raises [OF assms(2)] contract.dispatch_inv [OF assms(2)]
    by (cases "KvStoreApi_dispatch (vsReplicator env) req s") auto
qed

end

text \<open>
  An environment of the model itself: while the call waits, a list of acknowledgements arrives and
  the handler runs for each; the wait succeeds when they complete the quorum.
\<close>

definition ack_env :: "network \<Rightarrow> PrepResponse list \<Rightarrow> 'a replica_scheme rep_env" where
  "ack_env nw rs = \<lparr>rpe_net = nw, rpe_lock = (\<lambda>s. s), rpe_wait = (\<lambda>s.
     let t = fold processPrepareOk rs s
     in (if quorumReached (WaitMap_cnt (opNum t) (repWaitMap t)) t then no_timeout else timeout, t))\<rparr>"

lemma fold_processPrepareOk_frame:
  "kvMap (fold processPrepareOk rs s) = kvMap s \<and> rstate (fold processPrepareOk rs s) = rstate s \<and>
   oplog (fold processPrepareOk rs s) = oplog s"
  by (induction rs arbitrary: s) (simp_all add: processPrepareOk_frame(1-3))

interpretation ack: quiet_env "ack_env nw rs" for nw rs
  by unfold_locales (auto simp: ack_env_def Let_def fold_processPrepareOk_frame)

section \<open>Writes\<close>

text \<open>C8. A client write on a primary whose log is committed: when \<open>KvMemStore::set\<close> returns, the
  operation is the next one of the log, it is committed, the store maps the key to the new value and
  is otherwise unchanged, and the result says whether the key was there before.\<close>

theorem write_commits:
  assumes "quiet_env env" "regular s" "commitNum s = opNum s" "opNum s \<noteq> - 1"
    and "threadsStarted s" "selfId s = priId s" "status s = NORMAL"
    and "KvMemStore_set (vsReplicator env) k v s = Return upd t"
  shows "regular t \<and> commitNum t = opNum t \<and> opNum t = opNum s + 1 \<and>
    log_ops (oplog t) = log_ops (oplog s) @ [(\<lparr>kvp_key = k, kvp_val = v\<rparr>, UPDATE)] \<and>
    map_of (kvMap t) = (map_of (kvMap s))(k \<mapsto> v) \<and> upd = hasKey k s"
proof -
  let ?p = "op_prep UPDATE k v s"
  have p: "pi_opNum ?p = opNum s + 1" "prep_op ?p = (\<lparr>kvp_key = k, kvp_val = v\<rparr>, UPDATE)"
    by (simp_all add: op_prep_def prep_op_def)
  have r: "op_run env ?p (rpe_lock env s) = Return () t"
    using quiet_env.set_run [OF assms(1,5-7), of k v] assms(8) by simp
  have "upd = hasKey k s"
    using replicator_contract.set_Return [OF quiet_env.is_contract [OF assms(1)] assms(8)] by simp
  then show ?thesis
    using quiet_env.locked_run [OF assms(1-4) p(1)] by (simp add: r p)
qed

definition ex_peers :: "(ReplicaId, EndPoint) umap" where
  "ex_peers = [(1, \<lparr>ep_ip = ''10.0.0.2'', ep_port = ''7000''\<rparr>), (2, \<lparr>ep_ip = ''10.0.0.3'', ep_port = ''7000''\<rparr>)]"

definition ex_primary :: replica where
  "ex_primary = (replica_new 0 ex_peers 0 False)\<lparr>replicatorRegistered := True, threadsStarted := True\<rparr>"

definition ex_env :: "replica rep_env" where
  "ex_env = ack_env (\<lambda>_ _ _. (True, CallOk)) [\<lparr>pr_viewNum = 0, pr_opNum = 1, pr_replicaId = 1\<rparr>]"

definition mute_env :: "replica rep_env" where
  "mute_env = ack_env (\<lambda>_ _ _. (True, CallFailed)) []"

lemma ex_env_quiet: "quiet_env ex_env" "quiet_env mute_env"
  unfolding ex_env_def mute_env_def by (rule ack.quiet_env_axioms)+

lemma ex_primary_ok:
  "regular ex_primary" "commitNum ex_primary = opNum ex_primary" "opNum ex_primary \<noteq> - 1"
  "threadsStarted ex_primary" "selfId ex_primary = priId ex_primary" "status ex_primary = NORMAL"
  by (simp_all add: ex_primary_def replica_new_def ReplicaState_new_def regular_def log_ops_def
      getLog_inv getLogEntry_def) (simp_all add: InMemOpLog_new_def)

theorem write_commits_witness:
  "\<exists>t. KvMemStore_set (vsReplicator ex_env) ''/a'' ''1'' ex_primary = Return False t \<and> commitNum t = 1 \<and>
     map_of (kvMap t) ''/a'' = Some ''1''"
proof -
  have "(case KvMemStore_set (vsReplicator ex_env) ''/a'' ''1'' ex_primary of
      Return u t \<Rightarrow> u = False | _ \<Rightarrow> False)"
    by code_simp
  then obtain t where t: "KvMemStore_set (vsReplicator ex_env) ''/a'' ''1'' ex_primary = Return False t"
    by (auto split: res.splits)
  have "opNum ex_primary = 0"
    by code_simp
  then show ?thesis
    using write_commits [OF ex_env_quiet(1) ex_primary_ok t] t by auto
qed



section \<open>The client interface\<close>

text \<open>C10. \<open>create\<close> on a primary implements the creation of a node in a tree of names: the parent must
  exist, the node must not, and then the store gets exactly the new node, or stays as it is with one
  of the two replication errors. No assertion fails and no exception escapes.\<close>

theorem create_refines_namespace:
  assumes "quiet_env env" "threadsStarted s" "selfId s = priId s" "checkKeyFormat (kvp_key arg) = NONE"
  shows "case ns_create (path_of (kvp_key arg)) (kvp_val arg) (abs_ns s) of
      (NsErr e, m) \<Rightarrow> api_create (vsReplicator env) arg s = Return (res_error e) s
    | (NsOk, m) \<Rightarrow> replicated_outcome (api_create (vsReplicator env) arg s) (abs_ns s) m"
  using assms
  by (intro replicator_contract.create_refines quiet_env.is_contract)
    (simp_all add: quiet_env.isPrimary_vs quiet_env.set_not_Abort)

theorem create_refines_namespace_witness:
  "\<exists>t. api_create (vsReplicator ex_env) \<lparr>kvp_key = ''//a'', kvp_val = ''1''\<rparr> ex_primary =
       Return (res_error NONE) t \<and> abs_ns t [''a''] = Some ''1''"
proof -
  let ?arg = "\<lparr>kvp_key = ''//a'', kvp_val = ''1''\<rparr>"
  have c: "checkKeyFormat (kvp_key ?arg) = NONE" "path_of (kvp_key ?arg) = [''a'']"
    "ns_create [''a''] ''1'' (abs_ns ex_primary) = (NsOk, (abs_ns ex_primary)([''a''] \<mapsto> ''1''))"
    "(case api_create (vsReplicator ex_env) ?arg ex_primary of Return r t \<Rightarrow> r = res_error NONE | _ \<Rightarrow> False)"
    by (code_simp, code_simp, simp add: ns_create_def abs_ns_def ex_primary_def replica_new_def, code_simp)
  have "replicated_outcome (api_create (vsReplicator ex_env) ?arg ex_primary) (abs_ns ex_primary)
      ((abs_ns ex_primary)([''a''] \<mapsto> ''1''))"
    using create_refines_namespace [OF ex_env_quiet(1) ex_primary_ok(4,5) c(1)] c(2,3) by simp
  then show ?thesis
    using c(4) by (auto simp: replicated_outcome_def split: res.splits)
qed
text \<open>C11. \<open>set\<close> on a primary implements the overwriting of an existing node.\<close>

theorem set_refines_namespace:
  assumes "quiet_env env" "threadsStarted s" "selfId s = priId s" "checkKeyFormat (kvp_key arg) = NONE"
  shows "case ns_set (path_of (kvp_key arg)) (kvp_val arg) (abs_ns s) of
      (NsErr e, m) \<Rightarrow> api_set (vsReplicator env) arg s = Return (res_error e) s
    | (NsOk, m) \<Rightarrow> replicated_outcome (api_set (vsReplicator env) arg s) (abs_ns s) m"
  using assms
  by (intro replicator_contract.set_refines quiet_env.is_contract)
    (simp_all add: quiet_env.isPrimary_vs quiet_env.set_not_Abort)

theorem set_refines_namespace_witness:
  "api_set (vsReplicator ex_env) \<lparr>kvp_key = ''/a'', kvp_val = ''1''\<rparr> ex_primary =
     Return (res_error KEY_NOT_PRESENT) ex_primary"
proof -
  let ?arg = "\<lparr>kvp_key = ''/a'', kvp_val = ''1''\<rparr>"
  have c: "checkKeyFormat (kvp_key ?arg) = NONE" "abs_ns ex_primary (path_of (kvp_key ?arg)) = None"
    by (code_simp, simp add: abs_ns_def ex_primary_def replica_new_def)
  show ?thesis
    using set_refines_namespace [OF ex_env_quiet(1) ex_primary_ok(4,5) c(1)] c(2) by (simp add: ns_set_def)
qed

text \<open>C12. \<open>remove\<close> on a primary, exactly: a missing node is refused; a node whose path occurs, followed by one more
  component, anywhere in a stored path is refused as having children, which is the case when it has a child, but
  also when its path stands in the middle of another one, since \<open>list\<close> does not anchor its search; every other node is
  removed, or one of the two replication errors is returned.\<close>

theorem remove_refines_namespace:
  assumes "quiet_env env" "threadsStarted s" "selfId s = priId s" "checkKeyFormat arg = NONE" "ns_inv s"
  shows "if abs_ns s (path_of arg) = None
    then api_remove (vsReplicator env) arg s = Return (res_error KEY_NOT_PRESENT) s
    else if \<exists>es c. es @ path_of arg @ [c] \<in> dom (abs_ns s)
    then api_remove (vsReplicator env) arg s = Return (res_error KEY_HAS_CHILDREN) s
    else replicated_outcome (api_remove (vsReplicator env) arg s) (abs_ns s) ((abs_ns s)(path_of arg := None))"
  using assms
  by (intro replicator_contract.remove_refines quiet_env.is_contract)
    (simp_all add: quiet_env.isPrimary_vs quiet_env.remove_not_Abort)

definition ex_store :: replica where
  "ex_store = ex_primary\<lparr>kvMap := [(''/a'', ''1''), (''/a/b'', ''2''), (''/a/b/c'', ''3''), (''/b'', ''4'')]\<rparr>"

lemma ex_store_ok: "ns_inv ex_store" "threadsStarted ex_store" "selfId ex_store = priId ex_store"
proof -
  have "kvMap ex_store = [(''/a'', ''1''), (''/a/b'', ''2''), (''/a/b/c'', ''3''), (''/b'', ''4'')]"
    by (simp add: ex_store_def)
  then show "ns_inv ex_store"
    by (intro ns_inv_keys) (simp, simp only:, code_simp)
qed (use ex_primary_ok in \<open>simp_all add: ex_store_def\<close>)

text \<open>\<open>/b\<close> has no children but cannot be removed, because of \<open>/a/b/c\<close>.\<close>

theorem remove_refines_namespace_witness:
  "children ex_store [''b''] = {} \<and> api_remove (vsReplicator ex_env) ''/b'' ex_store = Return (res_error KEY_HAS_CHILDREN) ex_store"
proof -
  have c: "checkKeyFormat ''/b'' = NONE" "path_of ''/b'' = [''b'']"
    by (code_simp, code_simp)
  have "abs_ns ex_store [''b''] \<noteq> None" "abs_ns ex_store [''a'', ''b'', ''c''] \<noteq> None"
    by (code_simp, code_simp)
  then have n: "abs_ns ex_store [''b''] \<noteq> None" "\<exists>es d. es @ [''b''] @ [d] \<in> dom (abs_ns ex_store)"
    by (simp, intro exI [of _ "[''a'']"] exI [of _ "''c''"]) (simp add: domIff)
  have "children ex_store [''b''] = {}"
  proof -
    have "print_path [''b'', d] \<noteq> k" if "k \<in> {''/a'', ''/a/b'', ''/a/b/c'', ''/b''}" for d k
      using that by auto
    then have "map_of (kvMap ex_store) (print_path [''b'', d]) = None" for d
      by (auto simp: ex_store_def)
    then show ?thesis
      by (auto simp: children_def abs_ns_def split: if_splits)
  qed
  moreover have "api_remove (vsReplicator ex_env) ''/b'' ex_store = Return (res_error KEY_HAS_CHILDREN) ex_store"
    using remove_refines_namespace [OF ex_env_quiet(1) ex_store_ok(2,3) c(1) ex_store_ok(1)] n
    unfolding c(2) by (simp only: if_True if_False simp_thms)
  ultimately show ?thesis
    by blast
qed



text \<open>C14. \<open>list\<close> returns the names of the children of a node, each once, for the root and for every
  key whose path does not occur in the middle of another key.\<close>

theorem list_returns_children:
  assumes "selfId s = priId s" "ns_inv s"
    and "arg = [slash] \<and> cs = [] \<or>
      checkKeyFormat arg = NONE \<and> cs = path_of arg \<and> abs_ns s cs \<noteq> None \<and> anchored s cs"
  shows "\<exists>ks. api_list (vsReplicator env) arg s = Return (Res_keys ks) s \<and> distinct ks \<and>
    set ks = children s cs"
proof -
  have pr: "isPrimary (vsReplicator env) s"
    using assms(1) by (simp add: vsReplicator_def VsReplicator_isPrimary_def)
  show ?thesis
  proof (cases "arg = [slash]")
    case True
    then have "cs = []"
      using assms(3) by (auto simp: checkKeyFormat_def)
    then show ?thesis
      using list_keys_children [OF assms(2), of "[]"] True pr by (simp add: api_list_def)
  next
    case False
    then have k: "checkKeyFormat arg = NONE" "cs = path_of arg" "abs_ns s cs \<noteq> None" "anchored s cs"
      using assms(3) by auto
    then have wf: "wf_path cs"
      by (simp add: wf_path_of_key)
    have "\<not> (length arg = 1 \<and> arg ! 0 = slash)"
      using False by (cases arg) auto
    then have "api_list (vsReplicator env) arg s = list_keys (print_path cs) s"
      using k pr hasKey_abs_ns [OF wf, of s] unfolding api_list_def by (auto simp: with_pruned_wf)
    then show ?thesis
      using list_keys_children [OF assms(2), of cs] k wf by (simp add: wf_path_def)
  qed
qed

theorem list_returns_children_witness:
  "\<exists>ks. api_list (vsReplicator ex_env) ''/'' ex_store = Return (Res_keys ks) ex_store \<and> distinct ks \<and>
     set ks = children ex_store []"
  using list_returns_children [OF ex_store_ok(3,1), of "''/''" "[]" ex_env] by simp
end
