(* ===== verification/Faults.thy ===== *)
theory Faults
  imports Service Failover
begin

text \<open>
  Progress, and what the protocol does when a message is repeated, an operation times out or a
  thread meets an unexpected status: behaviours outside the runs of \<open>Cluster\<close>, proved of the same
  definitions.
\<close>

section \<open>Acknowledgements\<close>

lemma processPrepareOk_cnt:
  assumes "status s = NORMAL" "pr_viewNum r = viewNum s" "pr_opNum r = n"
  shows "WaitMap_cnt n (repWaitMap (processPrepareOk r s)) =
    (if quorumReached (WaitMap_cnt n (repWaitMap s)) s then WaitMap_cnt n (repWaitMap s)
     else Suc (WaitMap_cnt n (repWaitMap s)))"
  using assms
  by (simp add: processPrepareOk_def split_beta WaitMap_cnt_def [symmetric] quorumReached_def getMajorityCnt_def)

lemma fold_acks_cnt:
  assumes "status s = NORMAL" "\<forall>r \<in> set rs. pr_viewNum r = viewNum s \<and> pr_opNum r = n"
  shows "WaitMap_cnt n (repWaitMap (fold processPrepareOk rs s)) =
    max (WaitMap_cnt n (repWaitMap s)) (min (getMajorityCnt s) (WaitMap_cnt n (repWaitMap s) + length rs))"
  using assms
proof (induction rs arbitrary: s)
  case (Cons r rs)
  let ?s = "processPrepareOk r s"
  have maj: "getMajorityCnt ?s = getMajorityCnt s"
    by (simp add: getMajorityCnt_def processPrepareOk_frame)
  have cnt: "WaitMap_cnt n (repWaitMap ?s) = (if getMajorityCnt s \<le> WaitMap_cnt n (repWaitMap s)
      then WaitMap_cnt n (repWaitMap s) else Suc (WaitMap_cnt n (repWaitMap s)))"
    using processPrepareOk_cnt [of s r n] Cons.prems unfolding quorumReached_def by force
  have "status ?s = NORMAL" "\<forall>r \<in> set rs. pr_viewNum r = viewNum ?s \<and> pr_opNum r = n"
    using Cons.prems by (simp_all add: processPrepareOk_frame)
  then have "WaitMap_cnt n (repWaitMap (fold processPrepareOk rs ?s)) =
      max (WaitMap_cnt n (repWaitMap ?s)) (min (getMajorityCnt s) (WaitMap_cnt n (repWaitMap ?s) + length rs))"
    using Cons.IH [of ?s] unfolding maj by blast
  then show ?case
    unfolding fold_Cons o_apply cnt by (simp split: if_splits)
qed simp

lemma fold_acks_replicas: "replicas (fold processPrepareOk rs s) = replicas s"
  by (induction rs arbitrary: s) (simp_all add: processPrepareOk_frame)

text \<open>C23. Progress. When enough acknowledgements of the new operation arrive while the primary waits for
  them, a client write returns and the operation is committed and applied, whatever happens to the calls
  the primary makes.\<close>

theorem write_succeeds:
  assumes "regular s" "commitNum s = opNum s" "opNum s \<noteq> - 1"
    and "threadsStarted s" "selfId s = priId s" "status s = NORMAL"
    and "\<forall>r \<in> set rs. pr_viewNum r = viewNum s \<and> pr_opNum r = opNum s + 1"
    and "getMajorityCnt s \<le> length rs + 1"
  shows "\<exists>u t. KvMemStore_set (vsReplicator (ack_env nw rs)) k v s = Return u t \<and>
    commitNum t = opNum s + 1 \<and> map_of (kvMap t) = (map_of (kvMap s))(k \<mapsto> v)"
proof -
  let ?env = "ack_env nw rs" and ?p = "op_prep UPDATE k v s"
  have p: "pi_opNum ?p = opNum s + 1" "prep_op ?p = (\<lparr>kvp_key = k, kvp_val = v\<rparr>, UPDATE)"
    by (simp_all add: op_prep_def prep_op_def)
  obtain q t where b: "op_begin nw ?p s = (q, t)"
    by fastforce
  note e = replicate_begin_effect [OF b [unfolded op_begin_def]]
  have "getMajorityCnt s \<le> WaitMap_cnt (opNum s + 1) (repWaitMap (fold processPrepareOk rs t))"
    using assms(6-8) e(2,5,10) p(1) by (subst fold_acks_cnt) (simp_all add: getMajorityCnt_def)
  then have "fst (rpe_wait ?env t) = no_timeout"
    using e(2,5) by (simp add: ack_env_def Let_def fold_processPrepareOk_frame fold_acks_replicas
        quorumReached_def getMajorityCnt_def)
  then have "op_run ?env ?p s = op_finish nw ?p (if q then t else snd (rpe_wait ?env t))"
    using b by (simp add: op_run_def split_beta) (simp add: ack_env_def)
  then have "\<not> (\<exists>e u. op_run ?env ?p s = Raise e u)"
    by (auto simp: op_finish_def outcome_simps replicate_commit_def Let_def split: option.splits if_splits)
  then obtain t' where t': "op_run ?env ?p s = Return () t'" "commitNum t' = opNum s + 1"
    "map_of (kvMap t') = (map_of (kvMap s))(k \<mapsto> v)"
    using ack.op_run_quiet [OF assms(1-3) p(1), of nw rs] by (cases "op_run ?env ?p s") (auto simp: p(2))
  then show ?thesis
    using ack.set_run [OF assms(4-6), of nw rs k v] by (auto simp: outcome_simps ack_env_def)
qed

theorem write_succeeds_witness:
  "\<exists>u t. KvMemStore_set (vsReplicator (ack_env (\<lambda>_ _ _. (False, CallFailed)) [\<lparr>pr_viewNum = 0, pr_opNum = 1, pr_replicaId = 2\<rparr>]))
     ''/a'' ''1'' ex_primary = Return u t \<and> commitNum t = 1"
proof -
  have "opNum ex_primary = 0" "viewNum ex_primary = 0" "getMajorityCnt ex_primary \<le> 2"
    by code_simp+
  then show ?thesis
    using write_succeeds [OF ex_primary_ok, of "[\<lparr>pr_viewNum = 0, pr_opNum = 1, pr_replicaId = 2\<rparr>]"
        "\<lambda>_ _ _. (False, CallFailed)" "''/a''" "''1''"] by auto
qed

text \<open>C26. Acknowledgements are counted without their sender: as many copies of one acknowledgement as the
  quorum has members complete it, although only one backup has logged the operation.\<close>

theorem repeated_ack_reaches_quorum:
  assumes "status s = NORMAL" "pr_viewNum r = viewNum s" "getMajorityCnt s \<le> n"
  shows "quorumReached (WaitMap_cnt (pr_opNum r) (repWaitMap (fold processPrepareOk (replicate n r) s))) s \<and>
    (pr_viewNum r' = pr_viewNum r \<and> pr_opNum r' = pr_opNum r \<longrightarrow> processPrepareOk r' s = processPrepareOk r s)"
proof -
  have "\<forall>x \<in> set (replicate n r). pr_viewNum x = viewNum s \<and> pr_opNum x = pr_opNum r"
    using assms(2) by simp
  then have "quorumReached (WaitMap_cnt (pr_opNum r) (repWaitMap (fold processPrepareOk (replicate n r) s))) s"
    using fold_acks_cnt [OF assms(1), of "replicate n r" "pr_opNum r"] assms(3)
    unfolding quorumReached_def by simp
  moreover have "pr_viewNum r' = pr_viewNum r \<and> pr_opNum r' = pr_opNum r \<longrightarrow> processPrepareOk r' s = processPrepareOk r s"
    unfolding processPrepareOk_def by presburger
  ultimately show ?thesis
    by blast
qed

theorem repeated_ack_reaches_quorum_witness:
  "quorumReached (WaitMap_cnt 1 (repWaitMap (fold processPrepareOk
     (replicate 2 \<lparr>pr_viewNum = 0, pr_opNum = 1, pr_replicaId = 1\<rparr>) ex_primary))) ex_primary"
proof -
  have "status ex_primary = NORMAL" "viewNum ex_primary = 0" "getMajorityCnt ex_primary \<le> 2"
    by code_simp+
  then show ?thesis
    using repeated_ack_reaches_quorum [of ex_primary "\<lparr>pr_viewNum = 0, pr_opNum = 1, pr_replicaId = 1\<rparr>" 2] by simp
qed

section \<open>Timeouts\<close>

lemma set_needs_primary:
  assumes "KvMemStore_set (vsReplicator env) k v s \<noteq> Abort"
  shows "threadsStarted s" "selfId s = priId s"
  using assms by (auto simp: KvMemStore_set_def vsReplicator_def VsReplicator_replicateUpdate_def
      VsReplicator_isPrimary_def assert_res_def split: if_splits)

lemma set_needs_normal:
  assumes "quiet_env env" "KvMemStore_set (vsReplicator env) k v s = Return b t"
  shows "status s = NORMAL"
proof (rule ccontr)
  assume "status s \<noteq> NORMAL"
  then have "status (rpe_lock env s) \<noteq> NORMAL"
    using quiet_env.lock_quiet [OF assms(1)] by metis
  then have "VsReplicator_replicate env q ((rpe_lock env s)\<lparr>rstate := r\<rparr>) \<noteq> Return () u"
    if "rs_status r = status (rpe_lock env s)" for q r u
    using that by (simp add: VsReplicator_replicate_def)
  then show False
    using assms(2) by (auto simp: KvMemStore_set_def vsReplicator_def VsReplicator_replicateUpdate_def
        outcome_simps split_beta Let_def)
qed

text \<open>C25. A write that times out is not undone. When the next write commits, the primary has applied only
  that one, while every regular replica with the same log and the same commit number has applied both.\<close>

theorem timed_out_write_diverges:
  assumes "quiet_env env" "quiet_env env'" "regular s" "commitNum s = opNum s" "unat (opNum s) + 2 < 2 ^ 64"
    and "KvMemStore_set (vsReplicator env) k v s = Raise QuorumNotReached t" "status s = NORMAL"
    and "KvMemStore_set (vsReplicator env') k' v' t = Return x p"
    and "regular b" "log_ops (oplog b) = log_ops (oplog p)" "commitNum b = commitNum p"
  shows "map_of (kvMap p) = (map_of (kvMap s))(k' \<mapsto> v') \<and>
    map_of (kvMap b) = (map_of (kvMap s))(k \<mapsto> v, k' \<mapsto> v') \<and> unat (commitNum p) = unat (commitNum s) + 2"
proof -
  let ?p = "op_prep UPDATE k v s" and ?q = "op_prep UPDATE k' v' t"
  have prim: "threadsStarted s" "selfId s = priId s"
    by (rule set_needs_primary [of env k v]; simp add: assms(6))+
  have prim': "threadsStarted t" "selfId t = priId t" "status t = NORMAL"
    using set_needs_primary [of env' k' v' t] set_needs_normal [OF assms(2,8)] assms(8) by simp_all
  have op: "prep_op ?p = (\<lparr>kvp_key = k, kvp_val = v\<rparr>, UPDATE)" "pi_opNum ?p = opNum s + 1"
    "prep_op ?q = (\<lparr>kvp_key = k', kvp_val = v'\<rparr>, UPDATE)" "pi_opNum ?q = opNum t + 1"
    by (simp_all add: op_prep_def prep_op_def)
  have ne: "opNum s \<noteq> - 1"
    using assms(5) by (auto simp: unsigned_minus_1_eq_mask mask_eq_exp_minus_1)
  have "op_run env ?p (rpe_lock env s) = Raise QuorumNotReached t"
    using quiet_env.set_run [OF assms(1) prim assms(7), of k v] assms(6) by simp
  then have t: "regular t" "log_ops (oplog t) = log_ops (oplog s) @ [prep_op ?p]" "map_of (kvMap t) = map_of (kvMap s)"
    using quiet_env.locked_run [OF assms(1,3,4) ne op(2)] by simp_all
  have len: "unat (opNum t) = unat (opNum s) + 1"
    using regular_length [OF t(1)] regular_length [OF assms(3)] by (simp add: t(2))
  then have nt: "opNum t \<noteq> - 1"
    using assms(5) by (auto simp: unsigned_minus_1_eq_mask mask_eq_exp_minus_1)
  have "op_run env' ?q (rpe_lock env' t) = Return () p"
    using quiet_env.set_run [OF assms(2) prim', of k' v'] assms(8) by simp
  note q = quiet_env.locked_returned [OF assms(2) t(1) nt op(4) this]
  have cn: "unat (commitNum p) = unat (opNum s) + 2"
    using nt by (simp add: q(1) unat_plus1 len)
  have "map_of (kvMap b) = replay_ops (take (unat (commitNum b)) (log_ops (oplog b)))"
    using assms(9) by (simp add: regular_def)
  also have "\<dots> = replay_ops (log_ops (oplog p))"
    using regular_length [OF assms(3)] by (simp add: assms(10,11) cn q(2) t(2))
  also have "\<dots> = (map_of (kvMap s))(k \<mapsto> v, k' \<mapsto> v')"
    unfolding q(2) t(2) replay_ops_snoc using regular_all [OF assms(3,4)] by (simp add: op)
  finally show ?thesis
    using cn by (simp add: q(3) op t(3) assms(4))
qed


text \<open>The second write is acknowledged, the first is not.\<close>

definition no_ack :: "replica rep_env" where
  "no_ack = ack_env (\<lambda>_ _ _. (True, CallOk)) []"

definition second_ack :: "replica rep_env" where
  "second_ack = ack_env (\<lambda>_ _ _. (True, CallOk)) [\<lparr>pr_viewNum = 0, pr_opNum = 2, pr_replicaId = 1\<rparr>]"

text \<open>A backup that gets the two prepare messages and then commit messages for operation 2.\<close>

fun prepare_and_log :: "PrepInfo list \<Rightarrow> replica \<Rightarrow> replica" where
  "prepare_and_log [] s = s"
| "prepare_and_log (p # ps) s =
     (case processPrepInfo (\<lambda>_ _ _. (True, CallOk)) (processPrepare p s) of
        Some (Return _ t) \<Rightarrow> prepare_and_log ps t
      | _ \<Rightarrow> s)"

definition ex_preps :: "PrepInfo list" where
  "ex_preps =
    [\<lparr>pi_viewNum = 0, pi_kvPair = \<lparr>kvp_key = ''/a'', kvp_val = ''1''\<rparr>, pi_opNum = 1, pi_opType = UPDATE, pi_commitNum = 0\<rparr>,
     \<lparr>pi_viewNum = 0, pi_kvPair = \<lparr>kvp_key = ''/b'', kvp_val = ''2''\<rparr>, pi_opNum = 2, pi_opType = UPDATE, pi_commitNum = 0\<rparr>]"

definition ex_second :: replica where
  "ex_second = (replica_new 1 [(0, \<lparr>ep_ip = ''10.0.0.1'', ep_port = ''7000''\<rparr>),
     (2, \<lparr>ep_ip = ''10.0.0.3'', ep_port = ''7000''\<rparr>)] 0 False)\<lparr>replicatorRegistered := True, threadsStarted := True\<rparr>"

definition second_commits :: "(replica, unit) res" where
  "second_commits =
     (let c = \<lparr>ci_viewNum = 0, ci_commitNum = 2\<rparr>
      in bind_res (processCommit 1 c (prepare_and_log ex_preps ex_second)) (\<lambda>_ s. processCommit 2 c s))"

definition ex_log :: InMemOpLog where
  "ex_log = \<lparr>opLogMap =
     [(1, \<lparr>le_kvPair = \<lparr>kvp_key = ''/a'', kvp_val = ''1''\<rparr>, le_opType = UPDATE, le_opNum = 1, le_committed = True\<rparr>),
      (2, \<lparr>le_kvPair = \<lparr>kvp_key = ''/b'', kvp_val = ''2''\<rparr>, le_opType = UPDATE, le_opNum = 2, le_committed = True\<rparr>)],
     opNums = [1, 2]\<rparr>"

lemma ex_log_regular:
  assumes "oplog s = ex_log" "kvMap s = [(''/a'', ''1''), (''/b'', ''2'')]" "opNum s = 2" "commitNum s = 2"
  shows "regular s"
proof -
  have "log_ops ex_log = [(\<lparr>kvp_key = ''/a'', kvp_val = ''1''\<rparr>, UPDATE), (\<lparr>kvp_key = ''/b'', kvp_val = ''2''\<rparr>, UPDATE)]"
    by code_simp
  then show ?thesis
    unfolding regular_def assms
    by (simp add: log_inv_def) (auto simp: ex_log_def getLogEntry_def replay_ops_def fun_eq_iff upt_rec split: if_splits)
qed

theorem timed_out_write_diverges_witness:
  "\<exists>t x p b. KvMemStore_set (vsReplicator no_ack) ''/a'' ''1'' ex_primary = Raise QuorumNotReached t \<and>
     KvMemStore_set (vsReplicator second_ack) ''/b'' ''2'' t = Return x p \<and> second_commits = Return () b \<and>
     commitNum p = 2 \<and> commitNum b = 2 \<and> map_of (kvMap p) ''/a'' = None \<and> map_of (kvMap b) ''/a'' = Some ''1''"
proof -
  have "case KvMemStore_set (vsReplicator no_ack) ''/a'' ''1'' ex_primary of
      Raise e t \<Rightarrow> e = QuorumNotReached \<and> (case (KvMemStore_set (vsReplicator second_ack) ''/b'' ''2'' t, second_commits) of
        (Return x p, Return _ b) \<Rightarrow> oplog b = ex_log \<and> kvMap b = [(''/a'', ''1''), (''/b'', ''2'')] \<and>
          opNum b = 2 \<and> commitNum b = 2 \<and> log_ops (oplog b) = log_ops (oplog p) \<and> commitNum b = commitNum p
      | _ \<Rightarrow> False)
    | _ \<Rightarrow> False"
    by code_simp
  then obtain t x p b where r: "KvMemStore_set (vsReplicator no_ack) ''/a'' ''1'' ex_primary = Raise QuorumNotReached t"
    "KvMemStore_set (vsReplicator second_ack) ''/b'' ''2'' t = Return x p" "second_commits = Return () b"
    and b: "oplog b = ex_log" "kvMap b = [(''/a'', ''1''), (''/b'', ''2'')]" "opNum b = 2" "commitNum b = 2"
      "log_ops (oplog b) = log_ops (oplog p)" "commitNum b = commitNum p"
    by (auto split: res.splits)
  have "kvMap ex_primary = []" "opNum ex_primary = 0"
    by code_simp+
  then have "map_of (kvMap p) = [''/b'' \<mapsto> ''2'']" "map_of (kvMap b) = [''/a'' \<mapsto> ''1'', ''/b'' \<mapsto> ''2'']"
    using timed_out_write_diverges [OF _ _ ex_primary_ok(1,2) _ r(1) ex_primary_ok(6) r(2) ex_log_regular [OF b(1-4)] b(5,6)]
    by (simp_all add: no_ack_def second_ack_def ack.quiet_env_axioms)
  then show ?thesis
    using r b(4,6) by auto
qed

text \<open>A view change carries on from the commit number but keeps the entries after it: when the collected
  messages give the commit number as the operation number, as \<open>changeView\<close> does, and the new log has an
  entry with the next number, the first write in the new view replaces this entry and puts its number
  into the vector a second time, whether the write reaches its quorum or not.\<close>

theorem new_view_reuses_numbers:
  assumes "quiet_env env" "adopt_candidate v s = Return info t" "\<forall>x \<in> set (viewChangeInfos v s). vci_opNum x = vci_commitNum x"
    and "finish_view now c t = Return () u" "threadsStarted u" "getLogEntry (commitNum u + 1) (oplog u) = Some e"
    and "res_state (KvMemStore_set (vsReplicator env) k w u) = Some y"
  shows "(\<exists>e'. getLogEntry (commitNum u + 1) (oplog y) = Some e' \<and> entry_op e' = (\<lparr>kvp_key = k, kvp_val = w\<rparr>, UPDATE)) \<and>
    2 \<le> count_list (opNums (oplog y)) (commitNum u + 1)"
proof -
  let ?xs = "viewChangeInfos v s" and ?p = "op_prep UPDATE k w u"
  have "?xs \<noteq> []"
    using assms(2) by (auto simp: adopt_candidate_def outcome_simps Let_def getMajorityCnt_def)
  then have "?xs ! candidateIdx ?xs \<in> set ?xs"
    using candidateIdx_view by (intro nth_mem) blast
  then have t: "opNum t = commitNum t" "priId t = selfId t" "log_inv (oplog t)"
    using assms(2,3) log_inv_getLog [OF log_inv_setLog] by (auto simp: adopt_candidate_def outcome_simps Let_def split_beta)
  note f = finish_view_frame [OF assms(4)]
  have "selfId u = priId u" "status u = NORMAL" and on: "opNum u = commitNum u" and inv: "log_inv (oplog u)"
    using f t by simp_all
  then have "op_run env ?p (rpe_lock env u) = bind_res (KvMemStore_set (vsReplicator env) k w u) (\<lambda>_. Return ())"
    using quiet_env.set_run [OF assms(1,5), of k w] by simp
  then have "res_state (op_run env ?p (rpe_lock env u)) = Some y"
    using assms(7) by (cases "KvMemStore_set (vsReplicator env) k w u") simp_all
  then have y: "oplog y = log_append ?p (oplog u) \<or> commit (pi_opNum ?p) (log_append ?p (oplog u)) = Some (oplog y)"
    using quiet_env.op_run_logged [OF assms(1)] quiet_env.lock_quiet [OF assms(1)] by metis
  have n: "pi_opNum ?p = commitNum u + 1"
    by (simp add: op_prep_def on)
  have "commitNum u + 1 \<in> set (opNums (oplog u))"
    using log_inv_nums [OF inv] assms(6) by blast
  then have "count_list (opNums (oplog u)) (commitNum u + 1) \<noteq> 0"
    by (simp add: count_list_0_iff)
  then have c: "2 \<le> count_list (opNums (log_append ?p (oplog u))) (commitNum u + 1)"
    by (simp add: log_append_def op_prep_def appendUpdate_def on)
  show ?thesis
    using y c n by (auto simp: log_append_entry mem.mark_Some commit_opNums entry_op_def prep_op_def op_prep_def)
qed

definition ex_change :: ViewChangeInfo where
  "ex_change = \<lparr>vci_viewNum = 1, vci_opLog =
     [\<lparr>le_kvPair = \<lparr>kvp_key = ''/a'', kvp_val = ''1''\<rparr>, le_opType = UPDATE, le_opNum = 1, le_committed = True\<rparr>,
      \<lparr>le_kvPair = \<lparr>kvp_key = ''/b'', kvp_val = ''2''\<rparr>, le_opType = UPDATE, le_opNum = 2, le_committed = False\<rparr>],
     vci_oldViewNum = 0, vci_opNum = 1, vci_commitNum = 1, vci_replicaId = 0\<rparr>"

definition ex_changing :: replica where
  "ex_changing = ex_primary\<lparr>viewChangeInfoMap := [(1, [ex_change, ex_change])]\<rparr>"

theorem new_view_reuses_numbers_witness:
  "\<exists>info t u y. adopt_candidate 1 ex_changing = Return info t \<and> finish_view 5 1 t = Return () u \<and>
     map_option (kvp_key \<circ> le_kvPair) (getLogEntry 2 (oplog u)) = Some ''/b'' \<and>
     res_state (KvMemStore_set (vsReplicator second_ack) ''/c'' ''3'' u) = Some y \<and>
     map_option (kvp_key \<circ> le_kvPair) (getLogEntry 2 (oplog y)) = Some ''/c''"
proof -
  have "case adopt_candidate 1 ex_changing of Return info t \<Rightarrow>
      (case finish_view 5 1 t of Return _ u \<Rightarrow> threadsStarted u \<and> commitNum u + 1 = 2 \<and>
        map_option (kvp_key \<circ> le_kvPair) (getLogEntry 2 (oplog u)) = Some ''/b'' \<and>
        res_state (KvMemStore_set (vsReplicator second_ack) ''/c'' ''3'' u) \<noteq> None | _ \<Rightarrow> False) | _ \<Rightarrow> False"
    by code_simp
  then obtain info t u y e where r: "adopt_candidate 1 ex_changing = Return info t" "finish_view 5 1 t = Return () u"
    "threadsStarted u" "getLogEntry (commitNum u + 1) (oplog u) = Some e"
    "res_state (KvMemStore_set (vsReplicator second_ack) ''/c'' ''3'' u) = Some y"
    and c: "commitNum u + 1 = 2" "kvp_key (le_kvPair e) = ''/b''"
    by (auto split: res.splits)
  have "list_all (\<lambda>x. vci_opNum x = vci_commitNum x) (viewChangeInfos 1 ex_changing)"
    by code_simp
  then have "\<forall>x \<in> set (viewChangeInfos 1 ex_changing). vci_opNum x = vci_commitNum x"
    by (simp add: list_all_iff)
  from new_view_reuses_numbers [OF _ r(1) this r(2-5)] show ?thesis
    using r c by (auto simp: second_ack_def ack.quiet_env_axioms entry_op_def)
qed

section \<open>Repeated and unexpected messages\<close>

text \<open>C27. A \<open>startView\<close> message that is delivered twice ends the receiver: the second delivery finds the
  entry of the first and fails the assertion, as long as the view has not been installed.\<close>

theorem duplicate_startView_aborts:
  assumes "processStartView info s = Return () t" "viewNum s \<le> vsi_viewNum info" "status s \<noteq> RECOVERING"
  shows "processStartView info t = Abort"
  using assms by (auto simp: processStartView_def Let_def outcome_simps not_less split: if_splits)

theorem duplicate_startView_aborts_witness:
  "\<exists>t. processStartView \<lparr>vsi_viewNum = 1, vsi_opLog = [], vsi_opNum = 0, vsi_commitNum = 0, vsi_replicaId = 1\<rparr> ex_second =
       Return () t \<and>
     processStartView \<lparr>vsi_viewNum = 1, vsi_opLog = [], vsi_opNum = 0, vsi_commitNum = 0, vsi_replicaId = 1\<rparr> t = Abort"
proof -
  let ?i = "\<lparr>vsi_viewNum = 1, vsi_opLog = [], vsi_opNum = 0, vsi_commitNum = 0, vsi_replicaId = 1\<rparr>"
  have "(case processStartView ?i ex_second of Return _ t \<Rightarrow> True | _ \<Rightarrow> False)"
    "viewNum ex_second \<le> 1" "status ex_second \<noteq> RECOVERING"
    by code_simp+
  then show ?thesis
    using duplicate_startView_aborts [of ?i ex_second] by (auto split: res.splits)
qed

text \<open>C28. The thread that answers recovery requests ends when it takes a request in a status other than
  normal: from then on no request is answered, whatever its status.\<close>

theorem recovery_thread_ends:
  assumes "status s \<noteq> NORMAL" "processRecoveryReqInt nw s = Some t"
  shows "processRecoveryReqInt nw' (fold processRecoveryRequest reqs (set_status st t)) = None"
proof -
  have frame: "recThreadAlive (fold processRecoveryRequest reqs u) = recThreadAlive u" for reqs and u :: "'a rch_scheme"
    by (induction reqs arbitrary: u) (simp_all add: processRecoveryRequest_def)
  have "\<not> recThreadAlive t"
    using assms by (auto simp: processRecoveryReqInt_def Let_def split: option.splits if_splits)
  then show ?thesis
    by (simp add: processRecoveryReqInt_def frame)
qed

theorem recovery_thread_ends_witness:
  "\<exists>t. processRecoveryReqInt (\<lambda>_ _ _. (True, CallOk)) (set_status VIEW_CHANGE (ex_second
       \<lparr>recoveryReqQ := [\<lparr>rrq_replicaId = 2, rrq_nonce = 7, rrq_knownCommitNum = 0\<rparr>]\<rparr>)) = Some t \<and>
     processRecoveryReqInt (\<lambda>_ _ _. (True, CallOk)) (fold processRecoveryRequest
       [\<lparr>rrq_replicaId = 2, rrq_nonce = 8, rrq_knownCommitNum = 0\<rparr>] (set_status NORMAL t)) = None"
proof -
  let ?s = "set_status VIEW_CHANGE (ex_second\<lparr>recoveryReqQ := [\<lparr>rrq_replicaId = 2, rrq_nonce = 7, rrq_knownCommitNum = 0\<rparr>]\<rparr>)"
  have "status ?s \<noteq> NORMAL" "processRecoveryReqInt (\<lambda>_ _ _. (True, CallOk)) ?s \<noteq> None"
    by code_simp+
  then show ?thesis
    using recovery_thread_ends [of ?s "\<lambda>_ _ _. (True, CallOk)"] by blast
qed

end
