(* ===== verification/Takeover.thy ===== *)
theory Takeover
  imports Cluster Node Faults
begin

text \<open>
  A change from the first view to the second, from beginning to end: \<open>changeView\<close> on the next primary and on the
  other backups of a cluster in its first view, with the messages they exchange. The environments say which messages
  arrive while a replica waits; the handlers of \<open>ViewChange\<close> process them.
\<close>

section \<open>What a view change hands out\<close>

text \<open>The message with which a replica takes part in the change to view \<open>v\<close>.\<close>

definition change_info :: "ViewInt \<Rightarrow> 'a base_scheme \<Rightarrow> ViewChangeInfo" where
  "change_info v s = \<lparr>vci_viewNum = v, vci_opLog = fst (getLog (oplog s)), vci_oldViewNum = viewNum s,
     vci_opNum = commitNum s, vci_commitNum = commitNum s, vci_replicaId = selfId s\<rparr>"

text \<open>While a replica waits in \<open>changeView\<close>, requests and messages of the other replicas arrive.\<close>

definition change_env ::
  "network \<Rightarrow> time_point \<Rightarrow> ViewChangeRequest list \<Rightarrow> (replica \<Rightarrow> cv_status \<times> replica) \<Rightarrow> replica vc_env" where
  "change_env nw now reqs w = \<lparr>vce_net = nw, vce_now = now,
     vce_wait_start = (\<lambda>s. let t = fold processStartViewChange reqs s
        in (if quorumReached (WaitMap_cnt (viewNum t) (viewStartReqMap t)) t then no_timeout else timeout, t)),
     vce_wait_done = w\<rparr>"

definition collect_infos :: "ViewChangeInfo list \<Rightarrow> replica \<Rightarrow> cv_status \<times> replica" where
  "collect_infos infos s = (let t = fold processDoViewChange infos s
     in (if quorumReached (WaitMap_cnt (viewNum t) (doViewChangeMap t)) t then no_timeout else timeout, t))"

definition await_startView :: "ViewStartInfo \<Rightarrow> replica \<Rightarrow> cv_status \<times> replica" where
  "await_startView info s = (case processStartView info s of Return _ t \<Rightarrow> (no_timeout, t) | _ \<Rightarrow> (timeout, s))"

section \<open>Sending and collecting\<close>

definition vc_sends :: "message \<Rightarrow> 'a vch_scheme \<Rightarrow> 'a vch_scheme \<Rightarrow> bool" where
  "vc_sends msg s t \<longleftrightarrow> (\<exists>cl out. t = s\<lparr>vcClWrappers := cl, netOut := netOut s @ out\<rparr> \<and> snd ` set out \<subseteq> {msg})"

lemma vc_sends_refl: "vc_sends msg s s"
  unfolding vc_sends_def by (intro exI [of _ "vcClWrappers s"] exI [of _ "[]"]) simp

lemma vc_sends_trans:
  assumes "vc_sends msg s t" "vc_sends msg t u"
  shows "vc_sends msg s u"
proof -
  obtain c1 o1 c2 o2 where "t = s\<lparr>vcClWrappers := c1, netOut := netOut s @ o1\<rparr>" "snd ` set o1 \<subseteq> {msg}"
    "u = t\<lparr>vcClWrappers := c2, netOut := netOut t @ o2\<rparr>" "snd ` set o2 \<subseteq> {msg}"
    using assms by (auto simp: vc_sends_def)
  then show ?thesis
    unfolding vc_sends_def by (intro exI [of _ c2] exI [of _ "o1 @ o2"]) auto
qed

lemma vc_sends_broadcast:
  assumes "\<And>ep t. vc_sends msg t (f ep t)"
  shows "vc_sends msg s (invokeForAllReplicas i f s)"
  by (rule broadcast_rel [of "vc_sends msg"]) (use assms in \<open>auto intro: vc_sends_refl vc_sends_trans\<close>)

lemma vc_sends_rpc:
  "vc_sends msg t (t\<lparr>vcClWrappers := fst (snd (invoke_rpc nw msg ep (vcClWrappers t) (netOut t))),
     netOut := snd (snd (invoke_rpc nw msg ep (vcClWrappers t) (netOut t)))\<rparr>)"
proof -
  obtain ok cl out where "invoke_rpc nw msg ep (vcClWrappers t) (netOut t) = (ok, cl, netOut t @ out)"
    "set out \<subseteq> {(ep, msg)}"
    by (rule invoke_rpc_sends)
  then show ?thesis
    unfolding vc_sends_def by (intro exI [of _ cl] exI [of _ out]) auto
qed

lemma vc_sends_calls:
  "vc_sends (StartViewChange q) t (invokeStartViewChange nw q ep t)"
  "vc_sends (DoViewChange vi) t (snd (invokeDoViewChange nw vi ep t))"
  "vc_sends (StartView si) t (invokeStartView nw si ep t)"
  by (simp_all add: invokeStartViewChange_def invokeDoViewChange_def invokeStartView_def split_beta vc_sends_rpc)

lemma fold_startViewChange:
  assumes "status s \<noteq> RECOVERING" "\<forall>q \<in> set reqs. vcr_viewNum q = viewNum s"
  shows "\<exists>m. fold processStartViewChange reqs s = s\<lparr>viewStartReqMap := m\<rparr> \<and>
    min (getMajorityCnt s) (WaitMap_cnt (viewNum s) (viewStartReqMap s) + length reqs) \<le> WaitMap_cnt (viewNum s) m"
  using assms
proof (induction reqs arbitrary: s)
  case Nil
  show ?case
    by (intro exI [of _ "viewStartReqMap s"]) simp
next
  case (Cons q reqs)
  let ?v = "viewNum s"
  define m0 where "m0 = snd (WaitMap_get ?v (viewStartReqMap s))"
  define m1 where "m1 = (if quorumReached (WaitMap_cnt ?v (viewStartReqMap s)) s then m0 else WaitMap_incr ?v m0)"
  have c1: "WaitMap_cnt ?v m1 = (if quorumReached (WaitMap_cnt ?v (viewStartReqMap s)) s
      then WaitMap_cnt ?v (viewStartReqMap s) else Suc (WaitMap_cnt ?v (viewStartReqMap s)))"
    by (simp add: m1_def m0_def)
  have s1: "processStartViewChange q s = s\<lparr>viewStartReqMap := m1\<rparr>"
    using Cons.prems by (simp add: processStartViewChange_def Let_def split_beta WaitMap_cnt_def [symmetric]
        m1_def m0_def quorumReached_def getMajorityCnt_def)
  obtain m where m: "fold processStartViewChange reqs (s\<lparr>viewStartReqMap := m1\<rparr>) = s\<lparr>viewStartReqMap := m\<rparr>"
    "min (getMajorityCnt s) (WaitMap_cnt ?v m1 + length reqs) \<le> WaitMap_cnt ?v m"
    using Cons.IH [of "s\<lparr>viewStartReqMap := m1\<rparr>"] Cons.prems by (auto simp: getMajorityCnt_def)
  then show ?case
    using c1 by (intro exI [of _ m]) (auto simp: s1 quorumReached_def split: if_splits)
qed

lemma fold_doViewChange:
  assumes "status s \<noteq> RECOVERING" "\<forall>x \<in> set infos. vci_viewNum x = viewNum s"
  shows "\<exists>a b. fold processDoViewChange infos s = s\<lparr>viewChangeInfoMap := a, doViewChangeMap := b\<rparr> \<and>
    viewChangeInfos (viewNum s) (s\<lparr>viewChangeInfoMap := a, doViewChangeMap := b\<rparr>) = viewChangeInfos (viewNum s) s @ infos \<and>
    WaitMap_cnt (viewNum s) b = WaitMap_cnt (viewNum s) (doViewChangeMap s) + length infos"
  using assms
proof (induction infos arbitrary: s)
  case Nil
  show ?case
    by (intro exI [of _ "viewChangeInfoMap s"] exI [of _ "doViewChangeMap s"]) simp
next
  case (Cons x infos)
  let ?v = "viewNum s"
  let ?a = "um_put ?v (viewChangeInfos ?v s @ [x]) (viewChangeInfoMap s)" and ?b = "WaitMap_incr ?v (doViewChangeMap s)"
  let ?s = "s\<lparr>viewChangeInfoMap := ?a, doViewChangeMap := ?b\<rparr>"
  have s1: "processDoViewChange x s = ?s"
    using Cons.prems by (simp add: processDoViewChange_def)
  obtain a b where "fold processDoViewChange infos ?s = ?s\<lparr>viewChangeInfoMap := a, doViewChangeMap := b\<rparr>"
    "viewChangeInfos ?v (?s\<lparr>viewChangeInfoMap := a, doViewChangeMap := b\<rparr>) = viewChangeInfos ?v ?s @ infos"
    "WaitMap_cnt ?v b = WaitMap_cnt ?v ?b + length infos"
    using Cons.IH [of ?s] Cons.prems by auto
  then show ?case
    by (intro exI [of _ a] exI [of _ b]) (simp add: s1)
qed


section \<open>The start of a view change\<close>

lemma change_env_simps [simp]:
  "vce_net (change_env nw now reqs w) = nw" "vce_now (change_env nw now reqs w) = now"
  "vce_wait_done (change_env nw now reqs w) = w"
  by (simp_all add: change_env_def)

text \<open>A quorum of requests brings the replica to the second part.\<close>

lemma changeView_reaches_quorum:
  fixes s :: replica
  assumes idle: "map_of (viewStartInfoMap s) (viewNum s + 1) = None"
    and reqs: "\<forall>q \<in> set reqs. vcr_viewNum q = viewNum s + 1" "quorumReached (1 + length reqs) s"
  obtains m cl out where "changeView (change_env nw now reqs w) s =
    changeView_quorum (change_env nw now reqs w) (viewNum s) (viewNum s + 1)
      (s\<lparr>rstate := (rstate s)\<lparr>rs_status := VIEW_CHANGE, rs_viewNum := viewNum s + 1\<rparr>,
         vcClWrappers := cl, netOut := netOut s @ out, viewStartReqMap := m\<rparr>)"
    "snd ` set out \<subseteq> {StartViewChange \<lparr>vcr_viewNum = viewNum s + 1, vcr_replicaId = selfId s\<rparr>}"
proof -
  define v where "v = viewNum s + 1"
  let ?env = "change_env nw now reqs w" and ?q = "\<lparr>vcr_viewNum = v, vcr_replicaId = selfId s\<rparr>"
  define s1 where "s1 = s\<lparr>rstate := (rstate s)\<lparr>rs_status := VIEW_CHANGE, rs_viewNum := v\<rparr>\<rparr>"
  obtain cl out where u: "invokeForAllReplicas (selfId s) (invokeStartViewChange nw ?q) s1 =
      s1\<lparr>vcClWrappers := cl, netOut := netOut s1 @ out\<rparr>" "snd ` set out \<subseteq> {StartViewChange ?q}"
    using vc_sends_broadcast [of "StartViewChange ?q" "invokeStartViewChange nw ?q" s1 "selfId s", OF vc_sends_calls(1)]
    unfolding vc_sends_def by blast
  define x where "x = s1\<lparr>vcClWrappers := cl, netOut := netOut s @ out, viewStartReqMap := WaitMap_incr v (viewStartReqMap s)\<rparr>"
  obtain m where m: "(if quorumReached (WaitMap_cnt v (viewStartReqMap x)) x then (no_timeout, x)
      else vce_wait_start ?env x) = (no_timeout, x\<lparr>viewStartReqMap := m\<rparr>)"
  proof (cases "quorumReached (WaitMap_cnt v (viewStartReqMap x)) x")
    case True
    then show ?thesis
      using that [of "viewStartReqMap x"] by simp
  next
    case False
    have "viewNum x = v" "status x \<noteq> RECOVERING" "getMajorityCnt x = getMajorityCnt s"
      by (simp_all add: x_def s1_def getMajorityCnt_def)
    moreover obtain m where "fold processStartViewChange reqs x = x\<lparr>viewStartReqMap := m\<rparr>"
      "min (getMajorityCnt x) (WaitMap_cnt v (viewStartReqMap x) + length reqs) \<le> WaitMap_cnt v m"
      using fold_startViewChange [of x reqs] reqs(1) calculation by (auto simp: v_def)
    moreover have "WaitMap_cnt v (viewStartReqMap x) \<ge> 1"
      by (simp add: x_def)
    ultimately show ?thesis
      using that [of m] False reqs(2)
      by (simp add: change_env_def quorumReached_def) (simp add: getMajorityCnt_def)
  qed
  have "changeView ?env s = changeView_quorum ?env (viewNum s) v (x\<lparr>viewStartReqMap := m\<rparr>)"
    using idle u(1) m by (cases "quorumReached (WaitMap_cnt v (viewStartReqMap x)) x")
      (simp_all add: changeView_def Let_def x_def s1_def v_def)
  then show ?thesis
    using that [where m = m and cl = cl and out = out] u(2) by (simp add: x_def s1_def v_def)
qed


text \<open>The second part up to the choice of the primary.\<close>

lemma changeView_quorum_picks:
  fixes s :: replica
  assumes inv: "log_inv (oplog s)" and idle: "viewChangeInfos v s = []" "doViewChangeMap s = []"
    and x: "x = s\<lparr>viewChangeInfoMap := um_put v [(change_info v s)\<lparr>vci_oldViewNum := o'\<rparr>] (viewChangeInfoMap s),
      doViewChangeMap := WaitMap_incr v []\<rparr>"
    and pick: "pick_primary (vce_net env) ((change_info v s)\<lparr>vci_oldViewNum := o'\<rparr>) (length (replicas s) + 2) 0
      (getNextPrimaryCandidate (priId s) s) x = Some (j, y)"
  shows "changeView_quorum env o' v s =
    (if j = selfId y then wait_as_primary env v (set_priId j y) else wait_as_backup env v (set_priId j y))"
proof -
  have gl: "getLog (oplog s) = (fst (getLog (oplog s)), oplog s)"
    using inv by (simp add: getLog_inv)
  have "getNextPrimaryCandidate (priId x) x = getNextPrimaryCandidate (priId s) s"
    by (simp add: x getNextPrimaryCandidate_def)
  moreover have "replicas x = replicas s"
    by (simp add: x)
  moreover have "changeView_quorum env o' v s = (case pick_primary (vce_net env) ((change_info v s)\<lparr>vci_oldViewNum := o'\<rparr>)
      (length (replicas x) + 2) 0 (getNextPrimaryCandidate (priId x) x) x of
        None \<Rightarrow> Abort | Some (newPriId, s) \<Rightarrow> let s = set_priId newPriId s in
          if newPriId = selfId s then wait_as_primary env v s else wait_as_backup env v s)"
    unfolding changeView_quorum_def by (subst gl) (simp add: Let_def change_info_def x idle del: pick_primary.simps)
  ultimately show ?thesis
    using pick by (simp add: Let_def del: pick_primary.simps)
qed

section \<open>The new primary\<close>

text \<open>A quorum of logs brings the next primary to the installation of the view.\<close>

lemma changeView_as_primary:
  fixes s :: replica
  assumes inv: "log_inv (oplog s)" and v: "v = viewNum s + 1"
    and idle: "map_of (viewStartInfoMap s) v = None" "viewChangeInfos v s = []" "doViewChangeMap s = []"
    and reps: "replicas s \<noteq> []" and me: "getNextPrimaryCandidate (priId s) s = selfId s"
    and reqs: "\<forall>q \<in> set reqs. vcr_viewNum q = v" "quorumReached (1 + length reqs) s"
    and infos: "\<forall>x \<in> set infos. vci_viewNum x = v" "quorumReached (1 + length infos) s"
  obtains t where "changeView (change_env nw now reqs (collect_infos infos)) s = updateNewView nw now v True t"
    "rstate t = (rstate s)\<lparr>rs_status := VIEW_CHANGE, rs_viewNum := v, rs_priId := selfId s\<rparr>"
    "oplog t = oplog s" "selfId t = selfId s" "replicas t = replicas s" "kvMap t = kvMap s"
    "replicatorRegistered t = replicatorRegistered s" "viewChangeInfos v t = change_info v s # infos"
    "\<And>ep i. (ep, StartView i) \<in> set (netOut t) \<Longrightarrow> (ep, StartView i) \<in> set (netOut s)"
proof -
  let ?env = "change_env nw now reqs (collect_infos infos)" and ?i = "change_info v s"
  obtain m cl out where cv: "changeView ?env s = changeView_quorum ?env (viewNum s) v
      (s\<lparr>rstate := (rstate s)\<lparr>rs_status := VIEW_CHANGE, rs_viewNum := v\<rparr>, vcClWrappers := cl, netOut := netOut s @ out,
         viewStartReqMap := m\<rparr>)"
    and out: "snd ` set out \<subseteq> {StartViewChange \<lparr>vcr_viewNum = v, vcr_replicaId = selfId s\<rparr>}"
    using idle(1) reqs unfolding v by (rule changeView_reaches_quorum)
  define x where "x = s\<lparr>rstate := (rstate s)\<lparr>rs_status := VIEW_CHANGE, rs_viewNum := v\<rparr>, vcClWrappers := cl,
    netOut := netOut s @ out, viewStartReqMap := m, viewChangeInfoMap := um_put v [?i] (viewChangeInfoMap s),
    doViewChangeMap := WaitMap_incr v []\<rparr>"
  define y where "y = x\<lparr>rstate := (rstate x)\<lparr>rs_priId := selfId s\<rparr>\<rparr>"
  have nq: "\<not> quorumReached (WaitMap_cnt v (doViewChangeMap y)) y"
    using reps by (cases "replicas s") (simp_all add: y_def x_def quorumReached_def getMajorityCnt_def)
  let ?s = "s\<lparr>rstate := (rstate s)\<lparr>rs_status := VIEW_CHANGE, rs_viewNum := v\<rparr>, vcClWrappers := cl, netOut := netOut s @ out,
    viewStartReqMap := m\<rparr>"
  have i: "(change_info v ?s)\<lparr>vci_oldViewNum := viewNum s\<rparr> = ?i"
    by (simp add: change_info_def)
  have n: "getNextPrimaryCandidate (priId ?s) ?s = selfId s"
    using me by (simp add: getNextPrimaryCandidate_def)
  have "changeView_quorum ?env (viewNum s) v ?s =
      (if selfId s = selfId x then wait_as_primary ?env v (set_priId (selfId s) x)
       else wait_as_backup ?env v (set_priId (selfId s) x))"
    by (rule changeView_quorum_picks [where x = x])
      (use inv idle n in \<open>simp_all add: i x_def\<close>, simp_all add: viewChangeInfos_def)
  then have "changeView ?env s = wait_as_primary ?env v y"
    by (simp add: cv y_def) (simp add: x_def)
  moreover obtain a b where ab: "fold processDoViewChange infos y = y\<lparr>viewChangeInfoMap := a, doViewChangeMap := b\<rparr>"
    "viewChangeInfos v (y\<lparr>viewChangeInfoMap := a, doViewChangeMap := b\<rparr>) = viewChangeInfos v y @ infos"
    "WaitMap_cnt v b = WaitMap_cnt v (doViewChangeMap y) + length infos"
    using fold_doViewChange [of y infos] infos(1) by (auto simp: y_def x_def)
  moreover have "quorumReached (WaitMap_cnt v b) (y\<lparr>viewChangeInfoMap := a, doViewChangeMap := b\<rparr>)"
    using infos(2) ab(3) by (simp add: y_def x_def quorumReached_def getMajorityCnt_def)
  ultimately have "changeView ?env s = updateNewView nw now v True (y\<lparr>viewChangeInfoMap := a, doViewChangeMap := b\<rparr>)"
    using nq by (simp add: wait_as_primary_def collect_infos_def) (simp add: y_def x_def)
  then show ?thesis
    using that ab(2) out by (fastforce simp: y_def x_def)
qed


text \<open>The message of a primary that has installed its view.\<close>

definition start_info :: "'a base_scheme \<Rightarrow> ViewStartInfo" where
  "start_info s = \<lparr>vsi_viewNum = viewNum s, vsi_opLog = fst (getLog (oplog s)), vsi_opNum = opNum s,
     vsi_commitNum = commitNum s, vsi_replicaId = selfId s\<rparr>"

lemma vc_cleanUp_frame [simp]:
  "rstate (vc_cleanUp s) = rstate s" "oplog (vc_cleanUp s) = oplog s" "kvMap (vc_cleanUp s) = kvMap s"
  "selfId (vc_cleanUp s) = selfId s" "netOut (vc_cleanUp s) = netOut s"
  by (simp_all add: vc_cleanUp_def)

lemma install_as_primary:
  fixes s :: "'a vch_scheme"
  assumes cand: "cand = viewChangeInfos v s ! candidateIdx (viewChangeInfos v s)"
    and q: "quorumReached (length (viewChangeInfos v s)) s" and cv: "vci_viewNum cand = v"
    and l: "l = setLog (vci_opLog cand) (oplog s)" "prefix_log n c l"
    and reg: "replicatorRegistered s" "um_wf (kvMap s)" and o: "commitNum s = of_nat o'" "0 < o'" "o' \<le> c" "c \<le> n" "Suc n < 2 ^ 64"
    and kv: "map_of (kvMap s) = replay_ops (take o' (log_ops l))"
  obtains t where "updateNewView nw now v True s = Return () t" "status t = NORMAL" "viewNum t = v" "priId t = selfId s"
    "selfId t = selfId s" "opNum t = vci_opNum cand" "commitNum t = vci_commitNum cand" "oplog t = l" "um_wf (kvMap t)"
    "map_of (kvMap t) = replay_ops (take (max o' (min c (n - 1))) (log_ops l))"
    "\<And>ep i. (ep, StartView i) \<in> set (netOut t) \<Longrightarrow> (ep, StartView i) \<in> set (netOut s) \<or> i = start_info t"
proof -
  let ?info = "\<lparr>vsi_viewNum = v, vsi_opLog = fst (getLog l), vsi_opNum = vci_opNum cand,
    vsi_commitNum = vci_commitNum cand, vsi_replicaId = selfId s\<rparr>"
  define x where "x = s\<lparr>rstate := (rstate s)\<lparr>rs_priId := selfId s, rs_viewNum := v, rs_opNum := vci_opNum cand,
    rs_commitNum := vci_commitNum cand\<rparr>, oplog := l\<rparr>"
  have gl: "snd (getLog (setLog (vci_opLog cand) (oplog s))) = setLog (vci_opLog cand) (oplog s)"
    by (simp add: getLog_inv)
  have a: "adopt_candidate v s = Return ?info x"
    using q cv gl
    by (simp add: adopt_candidate_def Let_def cand [symmetric] quorumReached_def x_def l(1) split_beta)
  obtain y where y: "finish_view now (of_nat o') x = Return () y" "status y = NORMAL" "oplog y = l"
    "opNum y = vci_opNum cand" "commitNum y = vci_commitNum cand" "viewNum y = v" "priId y = selfId s" "um_wf (kvMap y)"
    "map_of (kvMap y) = replay_ops (take (max o' (min c (n - 1))) (log_ops l))"
    using finish_view_spec [of n c x o' now] l reg o(2-5) kv by (auto simp: x_def)
  have y2: "netOut y = netOut s" "selfId y = selfId s"
    using finish_view_frame [OF y(1)] by (simp_all add: x_def)
  obtain cl out where z: "invokeForAllReplicas (selfId y) (invokeStartView nw ?info) y =
      y\<lparr>vcClWrappers := cl, netOut := netOut y @ out\<rparr>" "snd ` set out \<subseteq> {StartView ?info}"
    using vc_sends_broadcast [of "StartView ?info" "invokeStartView nw ?info" y "selfId y", OF vc_sends_calls(3)]
    unfolding vc_sends_def by blast
  let ?t = "vc_cleanUp (y\<lparr>vcClWrappers := cl, netOut := netOut y @ out\<rparr>)"
  have "updateNewView nw now v True s = Return () ?t"
    using a y(1) z(1) o(1) by (simp add: updateNewView_def)
  moreover have "start_info ?t = ?info"
    using y y2 by (simp add: start_info_def)
  moreover have "(ep, StartView i) \<in> set (netOut s) \<or> i = ?info" if "(ep, StartView i) \<in> set (netOut ?t)" for ep i
    using that z(2) y2 by auto
  ultimately show ?thesis
    using that [of ?t] y y2 by simp
qed

section \<open>The backups\<close>

lemma install_as_backup:
  fixes s :: "'a vch_scheme"
  assumes m: "map_of (viewStartInfoMap s) v = Some info" "vsi_viewNum info = v"
    and l: "l = setLog (vsi_opLog info) (oplog s)" "prefix_log n c l"
    and reg: "replicatorRegistered s" "um_wf (kvMap s)" and o: "commitNum s = of_nat o'" "0 < o'" "o' \<le> c" "c \<le> n" "Suc n < 2 ^ 64"
    and kv: "map_of (kvMap s) = replay_ops (take o' (log_ops l))"
  obtains t where "updateNewView nw now v False s = Return () t" "status t = NORMAL" "viewNum t = v"
    "priId t = vsi_replicaId info" "selfId t = selfId s" "opNum t = vsi_opNum info" "commitNum t = vsi_commitNum info"
    "oplog t = l" "um_wf (kvMap t)" "map_of (kvMap t) = replay_ops (take (max o' (min c (n - 1))) (log_ops l))"
proof -
  define x where "x = s\<lparr>rstate := (rstate s)\<lparr>rs_priId := vsi_replicaId info, rs_viewNum := v, rs_opNum := vsi_opNum info,
    rs_commitNum := vsi_commitNum info\<rparr>, oplog := l\<rparr>"
  have a: "adopt_view v s = Return () x"
    using m by (simp add: adopt_view_def x_def l(1))
  obtain y where y: "finish_view now (of_nat o') x = Return () y" "status y = NORMAL" "oplog y = l"
    "opNum y = vsi_opNum info" "commitNum y = vsi_commitNum info" "viewNum y = v" "priId y = vsi_replicaId info" "um_wf (kvMap y)"
    "map_of (kvMap y) = replay_ops (take (max o' (min c (n - 1))) (log_ops l))"
    using finish_view_spec [of n c x o' now] l reg o(2-5) kv by (auto simp: x_def)
  have "selfId y = selfId s"
    using finish_view_frame [OF y(1)] by (simp add: x_def)
  moreover have "updateNewView nw now v False s = Return () (vc_cleanUp y)"
    using a y(1) o(1) by (simp add: updateNewView_def)
  ultimately show ?thesis
    using that [of "vc_cleanUp y"] y by simp
qed


text \<open>A backup whose call to the next primary is answered and that gets the new primary's message.\<close>

lemma changeView_as_backup:
  fixes s :: replica
  assumes inv: "log_inv (oplog s)" and v: "v = viewNum s + 1"
    and idle: "map_of (viewStartInfoMap s) v = None" "viewChangeInfos v s = []" "doViewChangeMap s = []" "startViewMap s = []"
    and j: "getNextPrimaryCandidate (priId s) s = j" "j \<noteq> selfId s" "map_of (replicas s) j = Some ep"
    and nw: "\<And>t. fst (invokeDoViewChange nw (change_info v s) ep (t :: replica))"
    and reqs: "\<forall>q \<in> set reqs. vcr_viewNum q = v" "quorumReached (1 + length reqs) s"
    and info: "vsi_viewNum info = v"
  obtains t where "changeView (change_env nw now reqs (await_startView info)) s = updateNewView nw now v False t"
    "rstate t = (rstate s)\<lparr>rs_status := VIEW_CHANGE, rs_viewNum := v, rs_priId := j\<rparr>"
    "oplog t = oplog s" "selfId t = selfId s" "replicas t = replicas s" "kvMap t = kvMap s"
    "replicatorRegistered t = replicatorRegistered s" "map_of (viewStartInfoMap t) v = Some info"
proof -
  let ?env = "change_env nw now reqs (await_startView info)" and ?i = "change_info v s"
  obtain m cl out where cv: "changeView ?env s = changeView_quorum ?env (viewNum s) v
      (s\<lparr>rstate := (rstate s)\<lparr>rs_status := VIEW_CHANGE, rs_viewNum := v\<rparr>, vcClWrappers := cl, netOut := netOut s @ out,
         viewStartReqMap := m\<rparr>)"
    using idle(1) reqs unfolding v by (rule changeView_reaches_quorum)
  let ?s = "s\<lparr>rstate := (rstate s)\<lparr>rs_status := VIEW_CHANGE, rs_viewNum := v\<rparr>, vcClWrappers := cl, netOut := netOut s @ out,
    viewStartReqMap := m\<rparr>"
  define x where "x = ?s\<lparr>viewChangeInfoMap := um_put v [?i] (viewChangeInfoMap s), doViewChangeMap := WaitMap_incr v []\<rparr>"
  obtain cl' out' where x': "snd (invokeDoViewChange nw ?i ep x) = x\<lparr>vcClWrappers := cl', netOut := netOut x @ out'\<rparr>"
    using vc_sends_calls(2) [of ?i x nw ep] by (auto simp: vc_sends_def)
  define y where "y = x\<lparr>vcClWrappers := cl', netOut := netOut x @ out', rstate := (rstate x)\<lparr>rs_priId := j\<rparr>\<rparr>"
  have i: "(change_info v ?s)\<lparr>vci_oldViewNum := viewNum s\<rparr> = ?i"
    by (simp add: change_info_def)
  have n: "getNextPrimaryCandidate (priId ?s) ?s = j"
    using j(1) by (simp add: getNextPrimaryCandidate_def)
  have dv: "invokeDoViewChange nw ?i ep x = (True, x\<lparr>vcClWrappers := cl', netOut := netOut x @ out'\<rparr>)"
    using nw [of x] x' by (simp add: prod_eq_iff)
  have ra: "replicas_at j x = (ep, x)"
    using j(3) by (simp add: replicas_at_def x_def)
  have sx: "selfId x = selfId s"
    by (simp add: x_def)
  have "changeView_quorum ?env (viewNum s) v ?s =
      (if j = selfId (x\<lparr>vcClWrappers := cl', netOut := netOut x @ out'\<rparr>)
       then wait_as_primary ?env v (set_priId j (x\<lparr>vcClWrappers := cl', netOut := netOut x @ out'\<rparr>))
       else wait_as_backup ?env v (set_priId j (x\<lparr>vcClWrappers := cl', netOut := netOut x @ out'\<rparr>)))"
  proof (rule changeView_quorum_picks [where x = x])
    show "pick_primary (vce_net ?env) ((change_info v ?s)\<lparr>vci_oldViewNum := viewNum s\<rparr>) (length (replicas ?s) + 2) 0
        (getNextPrimaryCandidate (priId ?s) ?s) x = Some (j, x\<lparr>vcClWrappers := cl', netOut := netOut x @ out'\<rparr>)"
      unfolding i n using j(2) by (simp add: ra dv sx)
  qed (use inv idle in \<open>simp_all add: i x_def\<close>, simp_all add: viewChangeInfos_def)
  then have w: "changeView ?env s = wait_as_backup ?env v y"
    using j(2) by (simp add: cv y_def sx)
  define z where "z = y\<lparr>startViewMap := snd (WaitMap_get v [])\<rparr>"
  let ?t = "z\<lparr>viewStartInfoMap := um_put v info (viewStartInfoMap s), startViewMap := WaitMap_incr v (startViewMap z)\<rparr>"
  have c: "WaitMap_cnt v (startViewMap z) = 0"
    by (simp add: z_def)
  have zf: "status z = VIEW_CHANGE" "viewNum z = v" "viewStartInfoMap z = viewStartInfoMap s"
    by (simp_all add: z_def y_def x_def)
  have p: "processStartView info z = Return () ?t"
    using info idle(1) c by (simp add: processStartView_def zf)
  have "y\<lparr>startViewMap := snd (WaitMap_get v (startViewMap y))\<rparr> = z"
    using idle(4) by (simp add: z_def y_def x_def)
  then have "wait_as_backup ?env v y = updateNewView nw now v False ?t"
    using c by (simp add: wait_as_backup_def await_startView_def p)
  then have "changeView ?env s = updateNewView nw now v False ?t"
    by (simp add: w)
  then show ?thesis
    using that [of ?t] by (simp add: z_def y_def x_def)
qed


section \<open>The backups of the first view\<close>

lemma view_of_reachable:
  assumes "cluster_init eps now u C0" "length eps < 2 ^ 64" "cluster_run eps C0 C" "b \<in> {1..<length eps}"
  shows "view_of (backup C b) = (of_nat b, 0, 0, peers eps b, [], [], [], [])"
  using assms by (intro inv_joined(1) [OF reachable_inv]) auto

text \<open>A backup that has committed something is not recovering.\<close>

lemma committed_normal:
  "cluster_inv eps C \<Longrightarrow> b \<in> {1..<length eps} \<Longrightarrow> 0 < commitNum (backup C b) \<Longrightarrow> status (backup C b) = NORMAL"
  using inv_joined(2) [of eps C b] by (fastforce simp: waiting_def)

lemma prefix_log_transfer:
  assumes l: "prefix_log n c l"
  shows "prefix_log n c (setLog (fst (getLog l)) l')" "log_ops (setLog (fst (getLog l)) l') = log_ops l"
proof -
  have inv: "log_inv l"
    using l by (simp add: prefix_log_def)
  show "prefix_log n c (setLog (fst (getLog l)) l')"
    using l by (simp add: prefix_log_def mem.transfer_entry [OF inv] log_numbers [OF inv])
  show "log_ops (setLog (fst (getLog l)) l') = log_ops l"
    using mem.transfer_contents [OF inv, of l'] by (simp add: log_ops_def)
qed


section \<open>The change to the second view\<close>

lemma participant:
  assumes inv: "cluster_inv eps C" and b: "b \<in> {1..<length eps}"
  shows "replicatorRegistered (backup C b)" "um_wf (kvMap (backup C b))" "log_inv (oplog (backup C b))"
    "commitNum (backup C b) \<le> commitNum (pri C)" "unat (commitNum (backup C b)) \<le> unat (opNum (backup C b))"
    "unat (opNum (backup C b)) \<le> unat (opNum (pri C))"
    "log_ops (oplog (backup C b)) = take (unat (opNum (backup C b))) (plog C)"
    "map_of (kvMap (backup C b)) = replay_ops (take (unat (commitNum (backup C b))) (plog C))"
    "prefix_log (unat (opNum (backup C b))) (unat (commitNum (backup C b))) (oplog (backup C b))"
proof -
  have n: "node C b = backup C b" "b < length eps" "backup_ok eps (plog C) (commitNum (pri C)) (backup C b)"
    using b inv by (simp_all add: node_def cluster_inv_def)
  then show "replicatorRegistered (backup C b)" "commitNum (backup C b) \<le> commitNum (pri C)"
    "log_ops (oplog (backup C b)) = take (unat (opNum (backup C b))) (plog C)"
    "unat (opNum (backup C b)) \<le> unat (opNum (pri C))"
    using inv_pri(7) [OF inv] by (simp_all add: backup_ok_def)
  have reg: "regular (backup C b)"
    using n(3) by (simp add: backup_ok_def)
  then show "um_wf (kvMap (backup C b))" "unat (commitNum (backup C b)) \<le> unat (opNum (backup C b))"
    unfolding regular_def word_le_nat_alt by blast+
  show "log_inv (oplog (backup C b))"
    using reg by (rule regular_log_inv)
  show "map_of (kvMap (backup C b)) = replay_ops (take (unat (commitNum (backup C b))) (plog C))"
    using inv_node_store [OF inv n(2)] by (simp add: n(1))
  show "prefix_log (unat (opNum (backup C b))) (unat (commitNum (backup C b))) (oplog (backup C b))"
    using reg by (rule regular_prefix_log)
qed

lemma idle_backup:
  assumes "view_of s = (i, 0, 0, reps, [], [], [], [])" "0 < length reps" "status s = NORMAL"
  shows "selfId s = i" "priId s = 0" "viewNum s = 0" "status s = NORMAL" "replicas s = reps" "map_of (viewStartInfoMap s) v = None"
    "viewChangeInfos v s = []" "doViewChangeMap s = []" "startViewMap s = []" "getNextPrimaryCandidate (priId s) s = 1"
  using assms by (simp_all add: view_of_def viewChangeInfos_def getNextPrimaryCandidate_def)

text \<open>The log chosen among those of some backups is that of one that has committed most.\<close>

lemma chosen_participant:
  assumes "\<And>b. b \<in> insert a (set bs) \<Longrightarrow> viewNum (backup C b) = 0"
  obtains k where "k \<in> insert a (set bs)"
    "(let is = change_info v (backup C a) # map (\<lambda>b. change_info v (backup C b)) bs in is ! candidateIdx is) =
       change_info v (backup C k)"
    "\<And>b. b \<in> insert a (set bs) \<Longrightarrow> commitNum (backup C b) \<le> commitNum (backup C k)"
proof -
  let ?is = "map (\<lambda>b. change_info v (backup C b)) (a # bs)"
  have "\<forall>x \<in> set ?is. vci_oldViewNum x = 0"
    using assms by (auto simp: change_info_def)
  from candidateIdx_op [OF _ this] have m: "\<forall>x \<in> set ?is. vci_opNum x \<le> vci_opNum (?is ! candidateIdx ?is)"
    by simp
  have l: "candidateIdx ?is < length (a # bs)"
    using candidateIdx_view [of ?is] by simp
  let ?k = "(a # bs) ! candidateIdx ?is"
  have i: "?is ! candidateIdx ?is = change_info v (backup C ?k)"
    using l nth_map [of "candidateIdx ?is" "a # bs" "\<lambda>b. change_info v (backup C b)"] by simp
  have "commitNum (backup C b) \<le> commitNum (backup C ?k)" if "b \<in> insert a (set bs)" for b
    using m that unfolding i by (auto simp: change_info_def)
  moreover have "?k \<in> insert a (set bs)"
    using nth_mem [OF l] by simp
  ultimately show ?thesis
    using that i by (simp add: Let_def)
qed

lemma applied_prefix:
  assumes "a \<le> c" "c \<le> n" "kv = replay_ops (take (max a (min c (n - 1))) (take n L))"
  shows "\<exists>m. c - 1 \<le> m \<and> m \<le> c \<and> kv = replay_ops (take m L)"
proof -
  have "max a (min c (n - 1)) \<le> n" "c - 1 \<le> max a (min c (n - 1))" "max a (min c (n - 1)) \<le> c"
    using assms(1,2) by auto
  then show ?thesis
    using assms(3) by (intro exI [of _ "max a (min c (n - 1))"]) (simp add: min_absorb1)
qed

text \<open>The network answers a call to an end point, at the latest when it is repeated.\<close>

definition answering :: "network \<Rightarrow> EndPoint \<Rightarrow> bool" where
  "answering nw ep \<longleftrightarrow> (\<forall>m. fst (nw m ep 1) \<and> fst (nw m ep 2) \<and> snd (nw m ep 2) = CallOk \<and> snd (nw m ep 1) \<in> {CallOk, CallFailed})"

lemma answering_call: "answering nw ep \<Longrightarrow> fst (invokeDoViewChange nw info ep s)"
proof -
  assume "answering nw ep"
  then obtain cl' where "invoke_rpc nw (DoViewChange info) ep (vcClWrappers s) (netOut s) = (True, cl', netOut s @ [(ep, DoViewChange info)])"
    using invoke_rpc_reconnects [of nw "DoViewChange info" ep "vcClWrappers s" "netOut s"] unfolding answering_def by blast
  then show ?thesis
    by (simp add: invokeDoViewChange_def)
qed

lemma takeover_primary:
  assumes inv: "cluster_inv eps C" and len: "1 < length eps" and n: "Suc (unat (opNum (pri C))) < 2 ^ 64"
    and vo: "\<And>b. b \<in> {1..<length eps} \<Longrightarrow> view_of (backup C b) = (of_nat b, 0, 0, peers eps b, [], [], [], [])"
    and cm: "0 < commitNum (backup C 1)"
    and reqs: "\<forall>q \<in> set reqs. vcr_viewNum q = 1" "quorumReached (1 + length reqs) (backup C 1)"
    and bs: "set bs \<subseteq> {2..<length eps}" "quorumReached (1 + length bs) (backup C 1)"
  obtains t k where "changeView (change_env nw now reqs (collect_infos (map (\<lambda>b. change_info 1 (backup C b)) bs))) (backup C 1) = Return () t"
    "status t = NORMAL" "viewNum t = 1" "priId t = 1" "selfId t = 1" "k \<in> insert 1 (set bs)"
    "opNum t = commitNum (backup C k)" "commitNum t = commitNum (backup C k)"
    "oplog t = setLog (fst (getLog (oplog (backup C k)))) (oplog (backup C 1))"
    "\<And>b. b \<in> insert 1 (set bs) \<Longrightarrow> commitNum (backup C b) \<le> commitNum (backup C k)"
    "\<exists>m. unat (commitNum t) - 1 \<le> m \<and> m \<le> unat (commitNum t) \<and> map_of (kvMap t) = replay_ops (take m (plog C))"
    "\<And>ep i. (ep, StartView i) \<in> set (netOut t) \<Longrightarrow> i = start_info t"
proof -
  define s where s: "s = backup C 1"
  have b: "insert 1 (set bs) \<subseteq> {1..<length eps}"
    using bs(1) len by auto
  have one: "1 \<in> {1..<length eps}"
    using len by simp
  have len1: "0 < length (peers eps 1)"
    using len by (simp add: length_peers)
  note p1 = participant [OF inv one, folded s] and s1 = idle_backup [OF vo [OF one] len1 committed_normal [OF inv one cm], folded s]
  have v0: "viewNum (backup C j) = 0" if "j \<in> insert 1 (set bs)" for j
    using vo [of j] b that by (auto simp: view_of_def)
  obtain k where k: "k \<in> insert 1 (set bs)"
    "(let is = change_info 1 s # map (\<lambda>b. change_info 1 (backup C b)) bs in is ! candidateIdx is) = change_info 1 (backup C k)"
    "\<And>b. b \<in> insert 1 (set bs) \<Longrightarrow> commitNum (backup C b) \<le> commitNum (backup C k)"
    using chosen_participant [of 1 bs C 1, OF v0] unfolding s by blast
  have kb: "k \<in> {1..<length eps}"
    using k(1) b by blast
  note pk = participant [OF inv kb]
  obtain t where t: "changeView (change_env nw now reqs (collect_infos (map (\<lambda>b. change_info 1 (backup C b)) bs))) s =
      updateNewView nw now 1 True t"
    "rstate t = (rstate s)\<lparr>rs_status := VIEW_CHANGE, rs_viewNum := 1, rs_priId := selfId s\<rparr>"
    "oplog t = oplog s" "selfId t = selfId s" "replicas t = replicas s" "kvMap t = kvMap s"
    "replicatorRegistered t = replicatorRegistered s"
    "viewChangeInfos 1 t = change_info 1 s # map (\<lambda>b. change_info 1 (backup C b)) bs"
    "\<And>ep i. (ep, StartView i) \<in> set (netOut t) \<Longrightarrow> (ep, StartView i) \<in> set (netOut s)"
    by (rule changeView_as_primary [of s 1 reqs "map (\<lambda>b. change_info 1 (backup C b)) bs" nw now])
      (use p1 s1 len len1 reqs [folded s] bs [folded s] in \<open>auto simp: change_info_def\<close>)
  let ?l = "setLog (fst (getLog (oplog (backup C k)))) (oplog s)"
  have l: "prefix_log (unat (opNum (backup C k))) (unat (commitNum (backup C k))) ?l"
    "log_ops ?l = take (unat (opNum (backup C k))) (plog C)"
    using prefix_log_transfer [OF pk(9)] pk(7) by simp_all
  have le: "unat (commitNum s) \<le> unat (commitNum (backup C k))"
    using k(3) [of 1, folded s] by (simp add: word_le_nat_alt)
  have kv: "map_of (kvMap s) = replay_ops (take (unat (commitNum s)) (log_ops ?l))"
    using p1(8) len le pk(5) by (simp add: l(2) min_def)
  have no: "netOut s = []"
    using inv len unfolding s by (simp add: cluster_inv_def backup_ok_def)
  let ?c = "unat (commitNum (backup C k))" and ?n = "unat (opNum (backup C k))" and ?o = "unat (commitNum s)"
  have ct: "commitNum t = of_nat ?o" "0 < ?o" "Suc ?n < 2 ^ 64"
    using t(2) cm [folded s] n pk(6) by (simp_all add: word_less_nat_alt)
  obtain u where u: "updateNewView nw now 1 True t = Return () u" "status u = NORMAL" "viewNum u = 1" "priId u = selfId t"
    "selfId u = selfId t" "opNum u = commitNum (backup C k)" "commitNum u = commitNum (backup C k)"
    "oplog u = ?l" "map_of (kvMap u) = replay_ops (take (max ?o (min ?c (?n - 1))) (log_ops ?l))"
    "\<And>ep i. (ep, StartView i) \<in> set (netOut u) \<Longrightarrow> (ep, StartView i) \<in> set (netOut t) \<or> i = start_info u"
    by (rule install_as_primary [where s = t and nw = nw and now = now and v = 1 and l = ?l and n = ?n and c = ?c and o' = ?o
          and cand = "change_info 1 (backup C k)"])
      (use t(3,5-8) k(2) bs(2) [folded s] l(1) kv le pk(5) p1(1,2) len ct in
        \<open>simp_all add: change_info_def Let_def quorumReached_def getMajorityCnt_def\<close>)
  have kvu: "\<exists>m. unat (commitNum u) - 1 \<le> m \<and> m \<le> unat (commitNum u) \<and> map_of (kvMap u) = replay_ops (take m (plog C))"
    using applied_prefix [OF le pk(5), of "map_of (kvMap u)" "plog C"] u(9) by (simp add: l(2) u(7))
  have i: "i = start_info u" if "(ep, StartView i) \<in> set (netOut u)" for ep i
    using u(10) [OF that] t(9) no by auto
  have id: "priId u = 1" "selfId u = 1"
    using u(4,5) t(4) s1(1) len len1 by simp_all
  show ?thesis
    by (rule that [OF t(1) [unfolded s u(1)] u(2,3) id k(1) u(6,7,8) [unfolded s] k(3) kvu i])
qed

lemma takeover_backup:
  assumes inv: "cluster_inv eps C" and len: "length eps < 2 ^ 64" and n: "Suc (unat (opNum (pri C))) < 2 ^ 64"
    and b: "b \<in> {2..<length eps}" "view_of (backup C b) = (of_nat b, 0, 0, peers eps b, [], [], [], [])"
    and cm: "0 < commitNum (backup C b)" and nw: "answering nw (eps ! 1)"
    and reqs: "\<forall>q \<in> set reqs. vcr_viewNum q = 1" "quorumReached (1 + length reqs) (backup C b)"
    and k: "k \<in> {1..<length eps}" "commitNum (backup C b) \<le> commitNum (backup C k)"
    and info: "vsi_viewNum info = 1" "vsi_commitNum info = commitNum (backup C k)"
      "vsi_opLog info = fst (getLog (setLog (fst (getLog (oplog (backup C k)))) l0))"
  obtains u where "changeView (change_env nw now reqs (await_startView info)) (backup C b) = Return () u"
    "status u = NORMAL" "viewNum u = 1" "priId u = vsi_replicaId info" "opNum u = vsi_opNum info"
    "commitNum u = commitNum (backup C k)" "log_ops (oplog u) = take (unat (opNum (backup C k))) (plog C)"
    "\<exists>m. unat (commitNum u) - 1 \<le> m \<and> m \<le> unat (commitNum u) \<and> map_of (kvMap u) = replay_ops (take m (plog C))"
proof -
  define s where s: "s = backup C b"
  have bb: "b \<in> {1..<length eps}" "1 < length eps" and lp: "0 < length (peers eps b)"
    using b(1) by (auto simp: length_peers)
  note ps = participant [OF inv bb(1), folded s] and pk = participant [OF inv k(1)]
    and sf = idle_backup [OF b(2) lp committed_normal [OF inv bb(1) cm], folded s]
  have "of_nat b \<noteq> (1 :: u64)"
    using of_nat_u64_inj [of b 1] b(1) len by auto
  then have j: "getNextPrimaryCandidate (priId s) s = 1" "1 \<noteq> selfId s" "map_of (replicas s) 1 = Some (eps ! 1)"
    using sf(1,5,10) map_of_peers [OF len, of 1 b] b(1) by auto
  obtain t where t: "changeView (change_env nw now reqs (await_startView info)) s = updateNewView nw now 1 False t"
    "rstate t = (rstate s)\<lparr>rs_status := VIEW_CHANGE, rs_viewNum := 1, rs_priId := 1\<rparr>"
    "oplog t = oplog s" "selfId t = selfId s" "replicas t = replicas s" "kvMap t = kvMap s"
    "replicatorRegistered t = replicatorRegistered s" "map_of (viewStartInfoMap t) 1 = Some info"
    by (rule changeView_as_backup [of s 1 1 "eps ! 1" nw reqs info now])
      (use ps(3) sf j reqs [folded s] info(1) answering_call [OF nw] in auto)
  let ?l = "setLog (vsi_opLog info) (oplog s)" and ?c = "unat (commitNum (backup C k))"
    and ?n = "unat (opNum (backup C k))" and ?o = "unat (commitNum s)"
  have l: "prefix_log ?n ?c ?l" "log_ops ?l = take ?n (plog C)"
    unfolding info(3) using prefix_log_transfer [OF prefix_log_transfer(1) [OF pk(9)]] prefix_log_transfer(2) [OF pk(9)] pk(7)
    by simp_all
  have le: "?o \<le> ?c"
    using k(2) by (simp add: s word_le_nat_alt)
  have kv: "map_of (kvMap s) = replay_ops (take ?o (log_ops ?l))"
    using ps(8) le pk(5) by (simp add: l(2) min_def)
  have ct: "commitNum t = of_nat ?o" "0 < ?o" "Suc ?n < 2 ^ 64"
    using t(2) cm [folded s] n pk(6) by (simp_all add: word_less_nat_alt)
  obtain u where u: "updateNewView nw now 1 False t = Return () u" "status u = NORMAL" "viewNum u = 1"
    "priId u = vsi_replicaId info" "opNum u = vsi_opNum info" "commitNum u = vsi_commitNum info"
    "oplog u = ?l" "map_of (kvMap u) = replay_ops (take (max ?o (min ?c (?n - 1))) (log_ops ?l))"
    by (rule install_as_backup [where s = t and nw = nw and now = now and v = 1 and l = ?l and n = ?n and c = ?c and o' = ?o
          and info = info])
      (use t(3,5-8) info(1) l(1) kv le pk(5) ps(1,2) ct in simp_all)
  have "\<exists>m. unat (commitNum u) - 1 \<le> m \<and> m \<le> unat (commitNum u) \<and> map_of (kvMap u) = replay_ops (take m (plog C))"
    using applied_prefix [OF le pk(5), of "map_of (kvMap u)" "plog C"] u(8) by (simp add: l(2) u(6) info(2))
  then show ?thesis
    using that [of u] t(1) u l(2) info(2) by (simp add: s)
qed

lemma takeover_installs:
  assumes "cluster_init eps now u C0" "1 < length eps" "length eps < 2 ^ 64" "cluster_run eps C0 C"
    and "Suc (unat (opNum (pri C))) < 2 ^ 64" "0 < commitNum (backup C 1)"
    and "\<forall>q \<in> set reqs. vcr_viewNum q = 1" "quorumReached (1 + length reqs) (pri C)"
    and "set bs \<subseteq> {2..<length eps}" "quorumReached (1 + length bs) (pri C)"
  shows "\<exists>t n. changeView (change_env nw now' reqs (collect_infos (map (\<lambda>b. change_info 1 (backup C b)) bs)))
      (backup C 1) = Return () t \<and>
    status t = NORMAL \<and> viewNum t = 1 \<and> priId t = 1 \<and> selfId t = 1 \<and>
    log_ops (oplog t) = take n (plog C) \<and> opNum t = commitNum t \<and> commitNum t \<le> commitNum (pri C) \<and>
    (\<forall>b \<in> insert 1 (set bs). commitNum (backup C b) \<le> commitNum t) \<and>
    (\<exists>m. unat (commitNum t) - 1 \<le> m \<and> m \<le> unat (commitNum t) \<and> map_of (kvMap t) = replay_ops (take m (plog C))) \<and>
    (\<forall>ep i. (ep, StartView i) \<in> set (netOut t) \<longrightarrow> i = start_info t) \<and>
    (\<forall>b \<in> set bs. \<forall>nw'. 0 < commitNum (backup C b) \<longrightarrow> answering nw' (eps ! 1) \<longrightarrow>
      (\<exists>v. changeView (change_env nw' now' reqs (await_startView (start_info t))) (backup C b) = Return () v \<and>
        status v = NORMAL \<and> viewNum v = 1 \<and> priId v = 1 \<and> opNum v = opNum t \<and> commitNum v = commitNum t \<and>
        log_ops (oplog v) = log_ops (oplog t) \<and>
        (\<exists>m. unat (commitNum v) - 1 \<le> m \<and> m \<le> unat (commitNum v) \<and> map_of (kvMap v) = replay_ops (take m (plog C)))))"
proof -
  have inv: "cluster_inv eps C"
    using reachable_inv [OF assms(4,1) _ assms(3)] assms(2) by linarith
  have vo: "view_of (backup C b) = (of_nat b, 0, 0, peers eps b, [], [], [], [])" if "b \<in> {1..<length eps}" for b
    using assms(1,3,4) that by (rule view_of_reachable)
  have q: "quorumReached i (backup C b) = quorumReached i (pri C)" if "b \<in> {1..<length eps}" for b i
    using vo [OF that] that length_peers [of 0 eps] assms(2) inv_pri(5) [OF inv]
    by (fastforce simp: quorumReached_def getMajorityCnt_def view_of_def length_peers)
  have one: "1 \<in> {1..<length eps}"
    using assms(2) by simp
  obtain t k where t: "changeView (change_env nw now' reqs (collect_infos (map (\<lambda>b. change_info 1 (backup C b)) bs))) (backup C 1) = Return () t"
    "status t = NORMAL" "viewNum t = 1" "priId t = 1" "selfId t = 1" "k \<in> insert 1 (set bs)"
    "opNum t = commitNum (backup C k)" "commitNum t = commitNum (backup C k)"
    "oplog t = setLog (fst (getLog (oplog (backup C k)))) (oplog (backup C 1))"
    "\<And>b. b \<in> insert 1 (set bs) \<Longrightarrow> commitNum (backup C b) \<le> commitNum (backup C k)"
    "\<exists>m. unat (commitNum t) - 1 \<le> m \<and> m \<le> unat (commitNum t) \<and> map_of (kvMap t) = replay_ops (take m (plog C))"
    "\<And>ep i. (ep, StartView i) \<in> set (netOut t) \<Longrightarrow> i = start_info t"
    using takeover_primary [OF inv assms(2,5) vo assms(6,7) _ assms(9), of nw now'] assms(8,10) q [OF one] by blast
  have kb: "k \<in> {1..<length eps}"
    using t(6) assms(2,9) by auto
  note pk = participant [OF inv kb]
  have log: "log_ops (oplog t) = take (unat (opNum (backup C k))) (plog C)"
    using prefix_log_transfer(2) [OF pk(9)] pk(7) by (simp add: t(9))
  have "\<exists>v. changeView (change_env nw' now' reqs (await_startView (start_info t))) (backup C b) = Return () v \<and>
        status v = NORMAL \<and> viewNum v = 1 \<and> priId v = 1 \<and> opNum v = opNum t \<and> commitNum v = commitNum t \<and>
        log_ops (oplog v) = log_ops (oplog t) \<and>
        (\<exists>m. unat (commitNum v) - 1 \<le> m \<and> m \<le> unat (commitNum v) \<and> map_of (kvMap v) = replay_ops (take m (plog C)))"
    if b: "b \<in> set bs" "0 < commitNum (backup C b)" "answering nw' (eps ! 1)" for b nw'
  proof -
    have b2: "b \<in> {2..<length eps}" "b \<in> {1..<length eps}"
      using b(1) assms(9) by auto
    show ?thesis
      by (rule takeover_backup [OF inv assms(3,5) b2(1) vo [OF b2(2)] b(2,3) assms(7) _ kb, where info = "start_info t" and now = now'])
        (use assms(8) q [OF b2(2)] t(3,5,7-10) b(1) log in \<open>auto simp: start_info_def\<close>)
  qed
  then show ?thesis
    using t pk(4) log by (intro exI [of _ t] exI [of _ "unat (opNum (backup C k))"]) simp
qed


text \<open>The second backup follows to the commit too.\<close>

definition ex_takeover :: "action list" where
  "ex_takeover = ex_schedule @ [RecvPrepare 2 ex_prep, LogPrepared 2, RecvCommit 2 \<lparr>ci_viewNum = 0, ci_commitNum = 1\<rparr>]"


section \<open>Writes of the new view\<close>

text \<open>An operation that returns is in the log under its number, committed.\<close>

lemma set_logs_committed:
  assumes "quiet_env env" "KvMemStore_set (vsReplicator env) k v s = Return x t"
  obtains e where "getLogEntry (opNum s + 1) (oplog t) = Some e" "le_committed e" "entry_op e = (\<lparr>kvp_key = k, kvp_val = v\<rparr>, UPDATE)"
proof -
  let ?p = "op_prep UPDATE k v s"
  have "op_run env ?p (rpe_lock env s) = Return () t"
    using quiet_env.set_run [OF assms(1), of s k v] set_needs_primary [of env k v s] set_needs_normal [OF assms] assms(2) by simp
  then have c: "commit (pi_opNum ?p) (log_append ?p (oplog s)) = Some (oplog t)"
    using quiet_env.op_run_logged [OF assms(1), of ?p "rpe_lock env s" t] quiet_env.lock_quiet [OF assms(1), of s] by simp
  have p: "pi_opNum ?p = opNum s + 1" "prep_op ?p = (\<lparr>kvp_key = k, kvp_val = v\<rparr>, UPDATE)" "pi_opType ?p = UPDATE"
    by (simp_all add: op_prep_def prep_op_def)
  show ?thesis
    using that mem.mark_Some [OF c, of "opNum s + 1"] by (simp add: log_append_entry p entry_op_def)
qed

text \<open>C6. A takeover can lose an acknowledged write. When no participant of the view change had learnt all of the old
  primary's commits, the first write that the new primary acknowledges gets the number of an operation that the
  old primary has committed: from then on two nodes have different committed operations under one number.\<close>

theorem takeover_forks_log:
  assumes "cluster_init eps now u C0" "1 < length eps" "length eps < 2 ^ 64" "cluster_run eps C0 C"
    and "Suc (unat (opNum (pri C))) < 2 ^ 64" "0 < commitNum (backup C 1)"
    and "\<forall>q \<in> set reqs. vcr_viewNum q = 1" "quorumReached (1 + length reqs) (pri C)"
    and "set bs \<subseteq> {2..<length eps}" "quorumReached (1 + length bs) (pri C)"
    and "changeView (change_env nw now' reqs (collect_infos (map (\<lambda>b. change_info 1 (backup C b)) bs))) (backup C 1) = Return () t"
    and "commitNum t < commitNum (pri C)" "quiet_env env" "KvMemStore_set (vsReplicator env) k v t = Return x y"
  shows "\<exists>e e'. getLogEntry (commitNum t + 1) (oplog (pri C)) = Some e \<and> le_committed e \<and>
    entry_op e = plog C ! unat (commitNum t) \<and>
    getLogEntry (commitNum t + 1) (oplog y) = Some e' \<and> le_committed e' \<and>
    entry_op e' = (\<lparr>kvp_key = k, kvp_val = v\<rparr>, UPDATE)"
proof -
  have inv: "cluster_inv eps C"
    using reachable_inv [OF assms(4,1) _ assms(3)] assms(2) by linarith
  have "opNum t = commitNum t"
    using takeover_installs [OF assms(1-10), of nw now'] assms(11) by auto
  then obtain e' where e': "getLogEntry (commitNum t + 1) (oplog y) = Some e'" "le_committed e'"
    "entry_op e' = (\<lparr>kvp_key = k, kvp_val = v\<rparr>, UPDATE)"
    using set_logs_committed [OF assms(13,14)] by metis
  have ne: "commitNum t \<noteq> - 1"
    using assms(12) by (rule less_imp_not_max)
  have le: "commitNum t + 1 \<le> commitNum (pri C)"
    using assms(12) by (rule inc_le)
  have pos: "0 < commitNum t + 1"
    using unat_plus1 [OF ne] by (simp add: word_less_nat_alt)
  have "commitNum t + 1 \<le> opNum (pri C)"
    using le inv_pri(8) [OF inv] by (rule order_trans)
  from regular_log_entry [OF inv_pri(1) [OF inv] pos this] obtain e where
    e: "getLogEntry (commitNum t + 1) (oplog (pri C)) = Some e" "entry_op e = plog C ! unat (commitNum t)"
    by (auto simp: unat_plus1 [OF ne])
  moreover have "le_committed e"
    using inv_pri(1) [OF inv] e(1) le unfolding regular_def by blast
  ultimately show ?thesis
    using e' by blast
qed

text \<open>A second operation is committed with the first backup, which does not learn of it.\<close>

definition ex_behind_schedule :: "action list" where
  "ex_behind_schedule = ex_takeover @ [ClientBegin UPDATE ''/b'' ''2'',
     RecvPrepare 1 \<lparr>pi_viewNum = 0, pi_kvPair = \<lparr>kvp_key = ''/b'', kvp_val = ''2''\<rparr>, pi_opNum = 2, pi_opType = UPDATE, pi_commitNum = 1\<rparr>,
     LogPrepared 1, RecvPrepareOk \<lparr>pr_viewNum = 0, pr_opNum = 2, pr_replicaId = 1\<rparr>, ClientFinish]"

definition ex_view1 :: "cluster \<Rightarrow> (replica, unit) res" where
  "ex_view1 D = changeView (change_env good_net 9 [\<lparr>vcr_viewNum = 1, vcr_replicaId = 2\<rparr>]
     (collect_infos (map (\<lambda>b. change_info 1 (backup D b)) [2]))) (backup D 1)"

definition ex_ack1 :: "replica rep_env" where
  "ex_ack1 = ack_env good_net [\<lparr>pr_viewNum = 1, pr_opNum = 2, pr_replicaId = 2\<rparr>]"

theorem takeover_forks_log_witness:
  "\<exists>D t x y e e'. cluster_run ex_eps ex_init D \<and> ex_view1 D = Return () t \<and>
     KvMemStore_set (vsReplicator ex_ack1) ''/c'' ''3'' t = Return x y \<and>
     getLogEntry 2 (oplog (pri D)) = Some e \<and> le_committed e \<and>
     getLogEntry 2 (oplog y) = Some e' \<and> le_committed e' \<and> kvp_key (le_kvPair e) = ''/b'' \<and> kvp_key (le_kvPair e') = ''/c''"
proof -
  have "case acts ex_eps ex_behind_schedule ex_init of None \<Rightarrow> False | Some D \<Rightarrow>
      commitNum (pri D) = 2 \<and> opNum (pri D) = 2 \<and> commitNum (backup D 1) = 1 \<and> quorumReached 2 (pri D) \<and>
      kvp_key (fst (plog D ! 1)) = ''/b'' \<and>
      (case ex_view1 D of Return _ t \<Rightarrow> commitNum t = 1 \<and>
        (case KvMemStore_set (vsReplicator ex_ack1) ''/c'' ''3'' t of Return _ _ \<Rightarrow> True | _ \<Rightarrow> False) | _ \<Rightarrow> False)"
    by code_simp
  then obtain D t x y where D: "acts ex_eps ex_behind_schedule ex_init = Some D" "commitNum (pri D) = 2" "opNum (pri D) = 2"
    "commitNum (backup D 1) = 1" "quorumReached 2 (pri D)" "kvp_key (fst (plog D ! 1)) = ''/b''"
    and t: "ex_view1 D = Return () t" "commitNum t = 1" "KvMemStore_set (vsReplicator ex_ack1) ''/c'' ''3'' t = Return x y"
    by (auto split: option.splits res.splits)
  have run: "cluster_run ex_eps ex_init D"
    using D(1) by (rule acts_run)
  have "quorumReached (1 + length [\<lparr>vcr_viewNum = 1, vcr_replicaId = 2\<rparr>]) (pri D)" "quorumReached (1 + length [2 :: nat]) (pri D)"
    using D(5) by (simp_all add: numeral_2_eq_2)
  then have "\<exists>e e'. getLogEntry (commitNum t + 1) (oplog (pri D)) = Some e \<and> le_committed e \<and>
    entry_op e = plog D ! unat (commitNum t) \<and>
    getLogEntry (commitNum t + 1) (oplog y) = Some e' \<and> le_committed e' \<and>
    entry_op e' = (\<lparr>kvp_key = ''/c'', kvp_val = ''3''\<rparr>, UPDATE)"
    by (intro takeover_forks_log [OF ex_init_ok _ _ run _ _ _ _ _ _ t(1) [unfolded ex_view1_def] _ _ t(3)])
      (use D t(2) in \<open>simp_all add: ex_eps_def ex_ack1_def ack.quiet_env_axioms\<close>)
  then obtain e e' where e: "getLogEntry 2 (oplog (pri D)) = Some e" "le_committed e" "getLogEntry 2 (oplog y) = Some e'"
    "le_committed e'" and op: "entry_op e = plog D ! 1" "entry_op e' = (\<lparr>kvp_key = ''/c'', kvp_val = ''3''\<rparr>, UPDATE)"
    by (auto simp: t(2))
  have "kvp_key (le_kvPair e) = ''/b''" "kvp_key (le_kvPair e') = ''/c''"
    using D(6) arg_cong [OF op(1), of fst] op(2) by (simp_all add: entry_op_def)
  then show ?thesis
    using run t e by blast
qed

end
