(* ===== verification/Shell.thy ===== *)
theory Shell
  imports KvsClient Config
begin

text \<open>
  The command shell (\<open>shell/shell.cc\<close>): splitting a line into arguments, the commands, and the
  interactive and the script loop over an input stream. What is printed is collected as text; the
  remote calls are the argument of the client library.
\<close>

record 'w shell =
  sh_world :: 'w
  sh_out :: string

definition newline :: char where
  "newline = CHR 0x0A"

text \<open>\<open>cout << text << endl\<close>.\<close>

definition print_line :: "string \<Rightarrow> 'w shell \<Rightarrow> 'w shell" where
  "print_line txt s = s\<lparr>sh_out := sh_out s @ txt @ [newline]\<rparr>"

text \<open>
  A client call inside the \<open>try\<close> block of a command: a \<open>ClientException\<close> is printed, any other
  exception goes on to the caller.
\<close>

definition with_client ::
  "('w \<Rightarrow> ('w, 'v) res) \<Rightarrow> ('v \<Rightarrow> 'w shell \<Rightarrow> 'w shell) \<Rightarrow> 'w shell \<Rightarrow> ('w shell, unit) res" where
  "with_client call k s =
     (case call (sh_world s) of
        Abort \<Rightarrow> Abort
      | Return v w \<Rightarrow> Return () (k v (s\<lparr>sh_world := w\<rparr>))
      | Raise e w \<Rightarrow>
          (case e of
             ClientException ce \<Rightarrow> Return () (print_line (ClientException_what ce) (s\<lparr>sh_world := w\<rparr>))
           | _ \<Rightarrow> Raise e (s\<lparr>sh_world := w\<rparr>)))"

section \<open>Commands\<close>

definition Cmd_Help :: "'w shell \<Rightarrow> 'w shell" where
  "Cmd_Help s = fold print_line
     [''create     Create a node'', ''echo       Echo arguments'', ''exit       Exit shell'',
      ''get        Get a node'', ''help       Display the list of commands'',
      ''remove     Remove a node'', ''set        Set a node''] s"

definition Cmd_Echo :: "string list \<Rightarrow> 'w shell \<Rightarrow> 'w shell" where
  "Cmd_Echo argv s = print_line (concat (map (\<lambda>a. a @ '' '') (tl argv))) s"

definition Cmd_Create :: "'w rpc_invoke \<Rightarrow> string list \<Rightarrow> 'w shell \<Rightarrow> ('w shell, unit) res" where
  "Cmd_Create invoke argv s =
     (if length argv \<noteq> 3 then Return () (print_line ''Usage: create PATH VALUE'' s)
      else with_client (Client_create invoke (argv ! 1) (argv ! 2))
        (\<lambda>b. print_line (if b then ''CREATED'' else ''KEY ALREADY EXISTS'')) s)"

definition Cmd_Remove :: "'w rpc_invoke \<Rightarrow> string list \<Rightarrow> 'w shell \<Rightarrow> ('w shell, unit) res" where
  "Cmd_Remove invoke argv s =
     (if length argv \<noteq> 2 then Return () (print_line ''Usage: remove PATH'' s)
      else with_client (Client_remove invoke (argv ! 1))
        (\<lambda>b. print_line (if b then ''REMOVED'' else ''KEY NOT FOUND'')) s)"

definition Cmd_Set :: "'w rpc_invoke \<Rightarrow> string list \<Rightarrow> 'w shell \<Rightarrow> ('w shell, unit) res" where
  "Cmd_Set invoke argv s =
     (if length argv \<noteq> 3 then Return () (print_line ''Usage: set PATH VALUE'' s)
      else with_client (Client_set invoke (argv ! 1) (argv ! 2)) (\<lambda>_ s. s) s)"

definition Cmd_Get :: "'w rpc_invoke \<Rightarrow> string list \<Rightarrow> 'w shell \<Rightarrow> ('w shell, unit) res" where
  "Cmd_Get invoke argv s =
     (if length argv \<noteq> 2 then Return () (print_line ''Usage: get PATH'' s)
      else with_client (Client_get invoke (argv ! 1)) print_line s)"

definition Cmd_List :: "'w rpc_invoke \<Rightarrow> string list \<Rightarrow> 'w shell \<Rightarrow> ('w shell, unit) res" where
  "Cmd_List invoke argv s =
     (if length argv \<noteq> 2 then Return () (print_line ''Usage: list PATH'' s)
      else with_client (Client_list invoke (argv ! 1)) (\<lambda>ks s. fold print_line ks s) s)"

section \<open>Dispatch\<close>

definition DEBUG_MAX_ARGS :: nat where
  "DEBUG_MAX_ARGS = 5"

text \<open>Each blank ends an argument, until the array is full; the last one keeps the rest of the line.\<close>

fun split_args :: "nat \<Rightarrow> string \<Rightarrow> string list" where
  "split_args 0 cur = [cur]"
| "split_args (Suc n) cur =
     (case str_find_char cur CHR '' '' 0 of
        None \<Rightarrow> [cur]
      | Some i \<Rightarrow> take i cur # split_args n (drop (i + 1) cur))"

text \<open>The result is false when the command was \<open>exit\<close>.\<close>

definition DispatchCommand :: "'w rpc_invoke \<Rightarrow> string \<Rightarrow> 'w shell \<Rightarrow> ('w shell, bool) res" where
  "DispatchCommand invoke buf s =
     (let argv = split_args (DEBUG_MAX_ARGS - 1) buf;
          cmd = hd argv;
          continue = (\<lambda>r. bind_res r (\<lambda>_ s. Return True s))
      in if cmd = ''help'' then Return True (Cmd_Help s)
         else if cmd = ''echo'' then Return True (Cmd_Echo argv s)
         else if cmd = ''exit'' then Return False s
         else if cmd = ''create'' then continue (Cmd_Create invoke argv s)
         else if cmd = ''remove'' then continue (Cmd_Remove invoke argv s)
         else if cmd = ''get'' then continue (Cmd_Get invoke argv s)
         else if cmd = ''set'' then continue (Cmd_Set invoke argv s)
         else if cmd = ''list'' then continue (Cmd_List invoke argv s)
         else if cmd = ''#'' then Return True s
         else if cmd \<noteq> [] then Return True (print_line (''Unknown command '' @ [CHR 0x27] @ cmd @ [CHR 0x27]) s)
         else Return True s)"

section \<open>Input\<close>

record istream =
  is_rest :: string
  is_eof :: bool
  is_fail :: bool

definition is_good :: "istream \<Rightarrow> bool" where
  "is_good i \<longleftrightarrow> \<not> is_eof i \<and> \<not> is_fail i"

definition DEBUG_MAX_LINE :: nat where
  "DEBUG_MAX_LINE = 256"

text \<open>
  \<open>istream::getline\<close> into a buffer: it stops at the end of the input, at a line feed, which it
  consumes, or when the buffer is full, which sets the fail bit. On a stream that is not good it
  only sets the fail bit and leaves an empty string.
\<close>

fun getline_loop :: "nat \<Rightarrow> string \<Rightarrow> string \<Rightarrow> string \<times> istream" where
  "getline_loop n [] acc = (acc, \<lparr>is_rest = [], is_eof = True, is_fail = (acc = [])\<rparr>)"
| "getline_loop n (c # cs) acc =
     (if c = newline then (acc, \<lparr>is_rest = cs, is_eof = False, is_fail = False\<rparr>)
      else if n = 0 then (acc, \<lparr>is_rest = c # cs, is_eof = False, is_fail = True\<rparr>)
      else getline_loop (n - 1) cs (acc @ [c]))"

definition getline_buf :: "istream \<Rightarrow> string \<times> istream" where
  "getline_buf i =
     (if is_good i then getline_loop (DEBUG_MAX_LINE - 1) (is_rest i) []
      else ([], i\<lparr>is_fail := True\<rparr>))"

lemma getline_loop_rest:
  "getline_loop n cs acc = (buf, i) \<Longrightarrow> length (is_rest i) \<le> length cs \<and>
     (is_good i \<longrightarrow> length (is_rest i) < length cs)"
  by (induction n cs acc rule: getline_loop.induct) (auto simp: is_good_def split: if_splits)

text \<open>The interactive loop reads while the stream is good.\<close>

function Prompt_loop :: "'w rpc_invoke \<Rightarrow> istream \<Rightarrow> 'w shell \<Rightarrow> ('w shell, bool) res" where
  "Prompt_loop invoke i s =
     (if is_good i then
        let (buf, i') = getline_buf i
        in case DispatchCommand invoke buf (s\<lparr>sh_out := sh_out s @ ''> ''\<rparr>) of
             Abort \<Rightarrow> Abort
           | Raise e s' \<Rightarrow> Raise e s'
           | Return go s' \<Rightarrow> if go then Prompt_loop invoke i' s' else Return False s'
      else Return True s)"
  by pat_completeness auto
termination
proof (relation "measure (\<lambda>(invoke, i, s). length (is_rest i) + (if is_good i then 1 else 0))", goal_cases)
  case (2 invoke i s p buf i')
  then show ?case
    using getline_loop_rest [of "DEBUG_MAX_LINE - 1" "is_rest i" "[]" buf i']
    by (auto simp: getline_buf_def)
qed simp

declare Prompt_loop.simps [simp del]

definition Prompt :: "'w rpc_invoke \<Rightarrow> istream \<Rightarrow> 'w shell \<Rightarrow> ('w shell, bool) res" where
  "Prompt invoke i s = Prompt_loop invoke i (print_line ''Client Shell'' s)"

text \<open>
  The script loop reads until the end of the file was seen; \<^term>\<open>None\<close> is a loop that does not
  end. A file that cannot be opened gives a stream with only the fail bit set.
\<close>

partial_function (option) RunScript :: "'w rpc_invoke \<Rightarrow> istream \<Rightarrow> 'w shell \<Rightarrow> ('w shell, bool) res option"
where
  "RunScript invoke i s =
     (if is_eof i then Some (Return True s)
      else
        let (buf, i') = getline_buf i
        in case DispatchCommand invoke buf s of
             Abort \<Rightarrow> Some Abort
           | Raise e s' \<Rightarrow> Some (Raise e s')
           | Return go s' \<Rightarrow> if go then RunScript invoke i' s' else Some (Return False s'))"

definition open_script :: "string option \<Rightarrow> istream" where
  "open_script file = (case file of
      None \<Rightarrow> \<lparr>is_rest = [], is_eof = False, is_fail = True\<rparr>
    | Some content \<Rightarrow> \<lparr>is_rest = content, is_eof = False, is_fail = False\<rparr>)"

text \<open>
  \<open>main\<close>: the exit status and what was printed. Connecting and opening the script are inputs, and
  so is the text of an exception of the library.
\<close>

definition shell_main ::
  "'w rpc_invoke \<Rightarrow> (EndPoint \<Rightarrow> exn option) \<Rightarrow> (exn \<Rightarrow> string) \<Rightarrow> (string \<Rightarrow> string option) \<Rightarrow> string \<Rightarrow>
   string list \<Rightarrow> 'w shell \<Rightarrow> (nat \<times> 'w shell) option" where
  "shell_main invoke connect what files stdin argv s =
     (if length argv \<noteq> 2 \<and> length argv \<noteq> 3
      then Some (1, print_line ''Usage: shell HOST [SCRIPT]'' s)
      else
        let failed = (\<lambda>e. Some (1, print_line (''Exception: '' @ what e) (print_line ''Connection failed!'' s)))
        in case EndPoint_parse (argv ! 1) of
             Inl e \<Rightarrow> failed e
           | Inr ep \<Rightarrow>
               (case connect ep of
                  Some e \<Rightarrow> failed e
                | None \<Rightarrow>
                    (case (if length argv = 2
                           then Some (Prompt invoke (open_script (Some stdin)) s)
                           else RunScript invoke (open_script (files (argv ! 2))) s) of
                       None \<Rightarrow> None
                     | Some Abort \<Rightarrow> None
                     | Some (Raise e s') \<Rightarrow> Some (1, print_line (what e) s')
                     | Some (Return go s') \<Rightarrow> Some (0, s'))))"

section \<open>Properties\<close>

lemma split_args_words:
  assumes "length ws = Suc k" "k \<le> n" "\<forall>w \<in> set ws. CHR '' '' \<notin> set w"
  shows "split_args n (join_words CHR '' '' ws) = ws"
  using assms
proof (induction ws arbitrary: n k)
  case (Cons w ws)
  have none: "str_find_char w CHR '' '' 0 = None"
    using Cons.prems by (simp add: str_find_char_None)
  show ?case
  proof (cases ws)
    case Nil
    then show ?thesis
      using none by (cases n) simp_all
  next
    case (Cons v vs)
    then obtain m where n: "n = Suc m" "k - 1 \<le> m"
      using Cons.prems by (cases n) auto
    have "str_find_char (w @ CHR '' '' # join_words CHR '' '' ws) CHR '' '' 0 = Some (length w)"
      using Cons.prems by (intro str_find_char_first) simp
    then show ?thesis
      using Cons.IH [of "k - 1" m] Cons.prems n \<open>ws = v # vs\<close> by simp
  qed
qed simp

text \<open>An empty line is no command.\<close>

lemma DispatchCommand_empty: "DispatchCommand invoke [] s = Return True s"
  by (simp add: DispatchCommand_def DEBUG_MAX_ARGS_def numeral_eq_Suc str_find_char_def Let_def)

text \<open>A failed stream that has not seen the end keeps the script loop running for ever.\<close>

lemma RunScript_stuck:
  assumes "is_fail i" "\<not> is_eof i"
  shows "RunScript invoke i s = None"
proof -
  have "\<not> (is_fail i \<and> \<not> is_eof i)" if "RunScript invoke i s = Some y" for y
  proof (rule RunScript.raw_induct [of "\<lambda>inv j u y. \<not> (is_fail j \<and> \<not> is_eof j)", OF _ that])
    fix self :: "'a rpc_invoke \<Rightarrow> istream \<Rightarrow> 'a shell \<Rightarrow> ('a shell, bool) res option"
    fix inv j u y
    assume IH: "\<And>inv j u y. self inv j u = Some y \<Longrightarrow> \<not> (is_fail j \<and> \<not> is_eof j)"
      and eq: "(if is_eof j then Some (Return True u)
        else let (buf, i') = getline_buf j
             in case DispatchCommand inv buf u of Abort \<Rightarrow> Some Abort
                | Raise e s' \<Rightarrow> Some (Raise e s')
                | Return go s' \<Rightarrow> if go then self inv i' s' else Some (Return False s')) = Some y"
    show "\<not> (is_fail j \<and> \<not> is_eof j)"
    proof
      assume j: "is_fail j \<and> \<not> is_eof j"
      then have "self inv (j\<lparr>is_fail := True\<rparr>) u = Some y"
        using eq by (simp add: getline_buf_def is_good_def DispatchCommand_empty)
      then show False
        using IH [of inv "j\<lparr>is_fail := True\<rparr>" u y] j by simp
    qed
  qed
  then show ?thesis
    using assms by (cases "RunScript invoke i s") auto
qed

text \<open>A script whose lines fit into the buffer is read to its end.\<close>

lemma file_lines_cur: "\<exists>l ls. file_lines cs cur = (cur @ l) # ls"
  by (induction cs arbitrary: cur) (simp_all, metis append.assoc)

lemma getline_loop_short:
  assumes "\<forall>l \<in> set (file_lines cs acc). length l \<le> n + length acc" "getline_loop n cs acc = (buf, i)"
  shows "is_eof i \<or> is_good i \<and> length (is_rest i) < length cs \<and>
    set (file_lines (is_rest i) []) \<subseteq> set (file_lines cs acc)"
  using assms
proof (induction n cs acc rule: getline_loop.induct)
  case (2 n c cs acc)
  show ?case
  proof (cases "c = newline")
    case True
    then show ?thesis
      using 2(3) by (auto simp: newline_def is_good_def)
  next
    case False
    then have fl: "file_lines (c # cs) acc = file_lines cs (acc @ [c])"
      by (simp add: newline_def)
    obtain l ls where l: "file_lines cs (acc @ [c]) = (acc @ [c] @ l) # ls"
      using file_lines_cur [of cs "acc @ [c]"] by auto
    have n: "n \<noteq> 0"
      using 2(2) unfolding fl l by auto
    have "getline_loop (n - 1) cs (acc @ [c]) = (buf, i)"
      using 2(3) False n by simp
    moreover have "\<forall>l \<in> set (file_lines cs (acc @ [c])). length l \<le> n - 1 + length (acc @ [c])"
      using 2(2) n unfolding fl by simp
    ultimately show ?thesis
      using 2(1) [OF False n] unfolding fl by auto
  qed
qed auto

lemma RunScript_ends:
  assumes "is_good i" "\<forall>l \<in> set (file_lines (is_rest i) []). length l < DEBUG_MAX_LINE"
  shows "\<exists>y. RunScript invoke i s = Some y"
  using assms
proof (induction "length (is_rest i)" arbitrary: i s rule: less_induct)
  case less
  obtain buf i' where g: "getline_buf i = (buf, i')"
    by fastforce
  then have "getline_loop (DEBUG_MAX_LINE - 1) (is_rest i) [] = (buf, i')"
    using less(2) by (simp add: getline_buf_def)
  from getline_loop_short [OF _ this] have *:
    "is_eof i' \<or> is_good i' \<and> length (is_rest i') < length (is_rest i) \<and>
      set (file_lines (is_rest i') []) \<subseteq> set (file_lines (is_rest i) [])"
    using less(3) by (fastforce simp: DEBUG_MAX_LINE_def)
  have rec: "\<exists>y. RunScript invoke i' t = Some y" for t
  proof (cases "is_eof i'")
    case True
    then show ?thesis
      by (simp add: RunScript.simps)
  next
    case False
    then show ?thesis
      using * less(1) [of i'] less(3) by blast
  qed
  show ?case
    using rec by (subst RunScript.simps) (auto simp: g split: res.split)
qed
text \<open>C20. The script loop ends on a readable script whose lines are shorter than the buffer, and
  never ends on a script that cannot be opened: the stream then has its fail bit set but not its end
  bit, and the loop tests only the latter.\<close>

theorem RunScript_ends_iff_readable:
  "((\<forall>l \<in> set (file_lines content []). length l < DEBUG_MAX_LINE) \<longrightarrow>
      (\<exists>y. RunScript invoke (open_script (Some content)) s = Some y)) \<and>
   RunScript invoke (open_script None) s = None"
  by (simp_all add: open_script_def RunScript_ends is_good_def RunScript_stuck)

theorem RunScript_ends_iff_readable_witness:
  "\<exists>y. RunScript (\<lambda>_ w. Return (res_error NONE) w) (open_script (Some ''create /a 1''))
     \<lparr>sh_world = (), sh_out = []\<rparr> = Some y"
proof -
  have "\<forall>l \<in> set (file_lines ''create /a 1'' []). length l < DEBUG_MAX_LINE"
    by code_simp
  then show ?thesis
    using RunScript_ends_iff_readable [of "''create /a 1''"] by blast
qed

text \<open>C21. A command line of at most five blank-free words is split into exactly these words.\<close>

theorem split_args_round_trip:
  assumes "ws \<noteq> []" "length ws \<le> DEBUG_MAX_ARGS" "\<forall>w \<in> set ws. CHR '' '' \<notin> set w"
  shows "split_args (DEBUG_MAX_ARGS - 1) (join_words CHR '' '' ws) = ws"
  using assms by (intro split_args_words [of ws "length ws - 1"]) auto

theorem split_args_round_trip_witness:
  "split_args (DEBUG_MAX_ARGS - 1) ''create /a 1'' = [''create'', ''/a'', ''1'']"
  using split_args_round_trip [of "[''create'', ''/a'', ''1'']"] by (simp add: DEBUG_MAX_ARGS_def)
end
