(* ===== verification/SqlStmt.thy ===== *)
theory SqlStmt
  imports CppString
begin

text \<open>
  The statement wrapper of the database store (\<open>server/sqlstmt.h\<close>, \<open>server/sqlstmt.cc\<close>): construction, copies,
  stepping, access to the columns of the current row, and the binding of parameters one by one, as a list and as a tuple.

  SQLite is an argument: a record of the library functions the code calls. A prepared statement is a value that the
  functions return changed, so releasing it (the destructor) is no state. What the wrapper relies on when it binds
  parameters is the locale \<open>sql_params\<close>.
\<close>

section \<open>The library\<close>

definition SQLITE_OK :: int where
  "SQLITE_OK = 0"

definition SQLITE_ROW :: int where
  "SQLITE_ROW = 100"

definition SQLITE_DONE :: int where
  "SQLITE_DONE = 101"

definition SQLITE_OPEN_READWRITE :: u32 where
  "SQLITE_OPEN_READWRITE = 2"

definition SQLITE_OPEN_CREATE :: u32 where
  "SQLITE_OPEN_CREATE = 4"

datatype sql_arg = SStr string | SInt int

text \<open>The wrapper only passes floating-point numbers on, so their bits are enough.\<close>

type_synonym i64 = "64 word"
type_synonym c_double = "64 word"

datatype sql_value = SqlNull | SqlInt i64 | SqlReal c_double | SqlText string | SqlBlob string

text \<open>
  Databases \<open>'d\<close>, query texts \<open>'q\<close> and prepared statements \<open>'t\<close> (a null pointer among them) are the library's.
  \<open>sq_bind\<close> stands for the functions \<open>sqlite3_bind_*\<close>, told apart by the value; \<open>sq_column_text\<close> is \<^term>\<open>None\<close> for
  a null pointer.
\<close>

record ('d, 'q, 't) sqlite =
  sq_open_v2 :: "string \<Rightarrow> u32 \<Rightarrow> int \<times> 'd"
  sq_close :: "'d \<Rightarrow> int"
  sq_exec :: "'d \<Rightarrow> 'q \<Rightarrow> int \<times> 'd"
  sq_vmprintf :: "string \<Rightarrow> sql_arg list \<Rightarrow> 'q option"
  sq_text :: "'q \<Rightarrow> string"
  sq_prepare_v2 :: "'d \<Rightarrow> 'q \<Rightarrow> int \<times> 't \<times> bool"
  sq_step :: "'t \<Rightarrow> int \<times> 't"
  sq_reset :: "'t \<Rightarrow> int \<times> 't"
  sq_column_value :: "'t \<Rightarrow> int \<Rightarrow> sql_value"
  sq_column_blob :: "'t \<Rightarrow> int \<Rightarrow> string"
  sq_column_text :: "'t \<Rightarrow> int \<Rightarrow> string option"
  sq_column_int64 :: "'t \<Rightarrow> int \<Rightarrow> i64"
  sq_column_double :: "'t \<Rightarrow> int \<Rightarrow> c_double"
  sq_bind :: "'t \<Rightarrow> int \<Rightarrow> sql_value \<Rightarrow> int \<times> 't"
  sq_nullptr :: 't
  sq_db_filename :: "'d \<Rightarrow> string option"
  sq_errmsg :: "'d \<Rightarrow> string"
  sq_errstr :: "int \<Rightarrow> string"
  sq_db_handle :: "'t \<Rightarrow> 'd"
  sq_sql :: "'t \<Rightarrow> 'q"

section \<open>Statements\<close>

record 't SQLStmt =
  sst_stmt :: 't
  sst_status :: int

definition dbthrow :: "('d, 'q, 't) sqlite \<Rightarrow> 'd \<Rightarrow> 'q option \<Rightarrow> exn" where
  "dbthrow S db query =
     (let dbpath = (case sq_db_filename S db of None \<Rightarrow> ''sqlite3 database'' | Some f \<Rightarrow> f)
      in SqlErr (case query of
           Some q \<Rightarrow> dbpath @ '':'' @ [CHR 0x0A] @ ''  Query: '' @ sq_text S q @ [CHR 0x0A] @
             ''  Error: '' @ sq_errmsg S db
         | None \<Rightarrow> dbpath @ '': '' @ sq_errmsg S db))"

definition set_status :: "('d, 'q, 't) sqlite \<Rightarrow> int \<Rightarrow> 't SQLStmt \<Rightarrow> ('t SQLStmt, unit) res" where
  "set_status S status st =
     (let st = st\<lparr>sst_status := status\<rparr>
      in if status \<noteq> SQLITE_OK \<and> status \<noteq> SQLITE_ROW \<and> status \<noteq> SQLITE_DONE
         then Raise (dbthrow S (sq_db_handle S (sst_stmt st)) None) st
         else Return () st)"

definition SQLStmt_fail :: "('d, 'q, 't) sqlite \<Rightarrow> 't SQLStmt \<Rightarrow> ('t SQLStmt, 'x) res" where
  "SQLStmt_fail S st =
     assert_res (sst_status st \<noteq> SQLITE_OK)
       (if sst_status st = SQLITE_DONE
        then Raise (SqlDone (''No rows left in query: '' @ sq_text S (sq_sql S (sst_stmt st)))) st
        else Raise (SqlErr (''SQLStmt::operator[]: used after error'' @ [CHR 0x0A] @ ''  Query: '' @
               sq_text S (sq_sql S (sst_stmt st)) @ [CHR 0x0A] @ ''  Error: '' @ sq_errstr S (sst_status st))) st)"

definition ensure_row :: "('d, 'q, 't) sqlite \<Rightarrow> 't SQLStmt \<Rightarrow> ('t SQLStmt, unit) res" where
  "ensure_row S st = (if sst_status st \<noteq> SQLITE_ROW then SQLStmt_fail S st else Return () st)"

text \<open>The constructor; a query with something after its first statement is refused.\<close>

definition SQLStmt_new ::
  "('d, 'q, 't) sqlite \<Rightarrow> 'd \<Rightarrow> string \<Rightarrow> sql_arg list \<Rightarrow> exn + 't SQLStmt" where
  "SQLStmt_new S db fmt args =
     (case sq_vmprintf S fmt args of
        None \<Rightarrow> Inl (SqlErr ''sqlite3_vmprintf: out of memory'')
      | Some query \<Rightarrow>
          let (err, t, tail) = sq_prepare_v2 S db query
          in if err \<noteq> 0 then Inl (dbthrow S db (Some query))
             else if tail then Inl (SqlErr (''illegal compound query'' @ [CHR 0x0A] @ ''  Query:  '' @ sq_text S query))
             else Inr \<lparr>sst_stmt = t, sst_status = SQLITE_OK\<rparr>)"

definition SQLStmt_of :: "'t \<Rightarrow> 't SQLStmt" where
  "SQLStmt_of stmt = \<lparr>sst_stmt = stmt, sst_status = SQLITE_OK\<rparr>"

text \<open>The move constructor takes the statement and leaves a null pointer; the status is that of a new object.\<close>

definition SQLStmt_move :: "('d, 'q, 't) sqlite \<Rightarrow> 't SQLStmt \<Rightarrow> 't SQLStmt \<times> 't SQLStmt" where
  "SQLStmt_move S r = (\<lparr>sst_stmt = sst_stmt r, sst_status = SQLITE_OK\<rparr>, r\<lparr>sst_stmt := sq_nullptr S\<rparr>)"

definition SQLStmt_get :: "'t SQLStmt \<Rightarrow> 't" where
  "SQLStmt_get st = sst_stmt st"

definition SQLStmt_getdb :: "('d, 'q, 't) sqlite \<Rightarrow> 't SQLStmt \<Rightarrow> 'd" where
  "SQLStmt_getdb S st = sq_db_handle S (sst_stmt st)"

definition SQLStmt_status :: "'t SQLStmt \<Rightarrow> int" where
  "SQLStmt_status st = sst_status st"

text \<open>The copy constructor prepares the source's query again.\<close>

definition SQLStmt_copy :: "('d, 'q, 't) sqlite \<Rightarrow> 't SQLStmt \<Rightarrow> exn + 't SQLStmt" where
  "SQLStmt_copy S l =
     (let (err, t, tail) = sq_prepare_v2 S (sq_db_handle S (sst_stmt l)) (sq_sql S (sst_stmt l))
      in if err \<noteq> 0
         then Inl (SqlErr (''could not copy query'' @ [CHR 0x0A] @ ''  Query:  '' @
                sq_text S (sq_sql S (sst_stmt l)) @ [CHR 0x0A] @ ''  Error:  '' @ sq_errstr S err @ [CHR 0x0A]))
         else Inr \<lparr>sst_stmt = t, sst_status = SQLITE_OK\<rparr>)"

definition SQLStmt_row :: "'t SQLStmt \<Rightarrow> ('t SQLStmt, bool) res" where
  "SQLStmt_row st =
     (if sst_status st = SQLITE_ROW then Return True st
      else assert_res (sst_status st = SQLITE_DONE) (Return False st))"

definition SQLStmt_done :: "'t SQLStmt \<Rightarrow> ('t SQLStmt, bool) res" where
  "SQLStmt_done st = bind_res (SQLStmt_row st) (\<lambda>b st. Return (\<not> b) st)"

definition SQLStmt_step :: "('d, 'q, 't) sqlite \<Rightarrow> 't SQLStmt \<Rightarrow> ('t SQLStmt, unit) res" where
  "SQLStmt_step S st = (let (status, t) = sq_step S (sst_stmt st) in set_status S status (st\<lparr>sst_stmt := t\<rparr>))"

definition SQLStmt_reset :: "('d, 'q, 't) sqlite \<Rightarrow> 't SQLStmt \<Rightarrow> ('t SQLStmt, unit) res" where
  "SQLStmt_reset S st = (let (status, t) = sq_reset S (sst_stmt st) in set_status S status (st\<lparr>sst_stmt := t\<rparr>))"

text \<open>Access to the columns of the current row.\<close>

definition with_row :: "('d, 'q, 't) sqlite \<Rightarrow> ('t \<Rightarrow> 'x) \<Rightarrow> 't SQLStmt \<Rightarrow> ('t SQLStmt, 'x) res" where
  "with_row S f st = bind_res (ensure_row S st) (\<lambda>_ st. Return (f (sst_stmt st)) st)"

definition SQLStmt_null :: "('d, 'q, 't) sqlite \<Rightarrow> int \<Rightarrow> 't SQLStmt \<Rightarrow> ('t SQLStmt, bool) res" where
  "SQLStmt_null S i = with_row S (\<lambda>t. sq_column_value S t i = SqlNull)"

definition SQLStmt_integer :: "('d, 'q, 't) sqlite \<Rightarrow> int \<Rightarrow> 't SQLStmt \<Rightarrow> ('t SQLStmt, i64) res" where
  "SQLStmt_integer S i = with_row S (\<lambda>t. sq_column_int64 S t i)"

definition SQLStmt_real :: "('d, 'q, 't) sqlite \<Rightarrow> int \<Rightarrow> 't SQLStmt \<Rightarrow> ('t SQLStmt, c_double) res" where
  "SQLStmt_real S i = with_row S (\<lambda>t. sq_column_double S t i)"

definition SQLStmt_str :: "('d, 'q, 't) sqlite \<Rightarrow> int \<Rightarrow> 't SQLStmt \<Rightarrow> ('t SQLStmt, string) res" where
  "SQLStmt_str S i = with_row S (\<lambda>t. sq_column_blob S t i)"

definition SQLStmt_c_str :: "('d, 'q, 't) sqlite \<Rightarrow> int \<Rightarrow> 't SQLStmt \<Rightarrow> ('t SQLStmt, string option) res" where
  "SQLStmt_c_str S i = with_row S (\<lambda>t. sq_column_text S t i)"

definition SQLStmt_value :: "('d, 'q, 't) sqlite \<Rightarrow> int \<Rightarrow> 't SQLStmt \<Rightarrow> ('t SQLStmt, sql_value) res" where
  "SQLStmt_value S i = with_row S (\<lambda>t. sq_column_value S t i)"

text \<open>The specialisations of \<open>column<T>\<close>; that for \<open>bool\<close> says whether the column is null.\<close>

definition column_bool :: "('d, 'q, 't) sqlite \<Rightarrow> int \<Rightarrow> 't SQLStmt \<Rightarrow> ('t SQLStmt, bool) res" where
  "column_bool S i = SQLStmt_null S i"

definition column_i64 :: "('d, 'q, 't) sqlite \<Rightarrow> int \<Rightarrow> 't SQLStmt \<Rightarrow> ('t SQLStmt, i64) res" where
  "column_i64 S i = SQLStmt_integer S i"

definition column_double :: "('d, 'q, 't) sqlite \<Rightarrow> int \<Rightarrow> 't SQLStmt \<Rightarrow> ('t SQLStmt, c_double) res" where
  "column_double S i = SQLStmt_real S i"

definition column_string :: "('d, 'q, 't) sqlite \<Rightarrow> int \<Rightarrow> 't SQLStmt \<Rightarrow> ('t SQLStmt, string) res" where
  "column_string S i = SQLStmt_str S i"

definition column_c_str :: "('d, 'q, 't) sqlite \<Rightarrow> int \<Rightarrow> 't SQLStmt \<Rightarrow> ('t SQLStmt, string option) res" where
  "column_c_str S i = SQLStmt_c_str S i"

section \<open>Binding parameters\<close>

definition SQLStmt_bind_value :: "('d, 'q, 't) sqlite \<Rightarrow> int \<Rightarrow> sql_value \<Rightarrow> 't SQLStmt \<Rightarrow> ('t SQLStmt, unit) res" where
  "SQLStmt_bind_value S i v st =
     (let (status, t) = sq_bind S (sst_stmt st) i v in set_status S status (st\<lparr>sst_stmt := t\<rparr>))"

definition SQLStmt_bind_null :: "('d, 'q, 't) sqlite \<Rightarrow> int \<Rightarrow> 't SQLStmt \<Rightarrow> ('t SQLStmt, unit) res" where
  "SQLStmt_bind_null S i st = SQLStmt_bind_value S i SqlNull st"

definition SQLStmt_bind_int :: "('d, 'q, 't) sqlite \<Rightarrow> int \<Rightarrow> i64 \<Rightarrow> 't SQLStmt \<Rightarrow> ('t SQLStmt, unit) res" where
  "SQLStmt_bind_int S i v st = SQLStmt_bind_value S i (SqlInt v) st"

definition SQLStmt_bind_real :: "('d, 'q, 't) sqlite \<Rightarrow> int \<Rightarrow> c_double \<Rightarrow> 't SQLStmt \<Rightarrow> ('t SQLStmt, unit) res" where
  "SQLStmt_bind_real S i v st = SQLStmt_bind_value S i (SqlReal v) st"

text \<open>The two overloads for strings differ in who keeps the bytes; the third takes a C string and its length, or the
  bytes before the first zero when the length is negative.\<close>

definition SQLStmt_bind_text :: "('d, 'q, 't) sqlite \<Rightarrow> int \<Rightarrow> string \<Rightarrow> 't SQLStmt \<Rightarrow> ('t SQLStmt, unit) res" where
  "SQLStmt_bind_text S i v st = SQLStmt_bind_value S i (SqlText v) st"

definition SQLStmt_bind_cstr :: "('d, 'q, 't) sqlite \<Rightarrow> int \<Rightarrow> string \<Rightarrow> int \<Rightarrow> 't SQLStmt \<Rightarrow> ('t SQLStmt, unit) res" where
  "SQLStmt_bind_cstr S i p len st =
     SQLStmt_bind_value S i (SqlText (if len < 0 then takeWhile (\<lambda>c. c \<noteq> CHR 0x00) p else take (nat len) p)) st"

definition SQLStmt_bind_blob :: "('d, 'q, 't) sqlite \<Rightarrow> int \<Rightarrow> string \<Rightarrow> 't SQLStmt \<Rightarrow> ('t SQLStmt, unit) res" where
  "SQLStmt_bind_blob S i p st = SQLStmt_bind_value S i (SqlBlob p) st"

text \<open>What the overloads of \<open>bind\<close> accept; an \<open>int\<close> is sign-extended, an \<open>unsigned\<close> is not.\<close>

datatype bind_arg =
    BNull
  | BInt64 i64
  | BInt "32 word"
  | BUnsigned "32 word"
  | BDouble c_double
  | BString string
  | BMoved string
  | BCStr string
  | BValue sql_value

fun SQLStmt_bind :: "('d, 'q, 't) sqlite \<Rightarrow> int \<Rightarrow> bind_arg \<Rightarrow> 't SQLStmt \<Rightarrow> ('t SQLStmt, unit) res" where
  "SQLStmt_bind S i BNull st = SQLStmt_bind_null S i st"
| "SQLStmt_bind S i (BInt64 v) st = SQLStmt_bind_int S i v st"
| "SQLStmt_bind S i (BInt v) st = SQLStmt_bind_int S i (scast v) st"
| "SQLStmt_bind S i (BUnsigned v) st = SQLStmt_bind_int S i (ucast v) st"
| "SQLStmt_bind S i (BDouble v) st = SQLStmt_bind_real S i v st"
| "SQLStmt_bind S i (BString v) st = SQLStmt_bind_text S i v st"
| "SQLStmt_bind S i (BMoved v) st = SQLStmt_bind_text S i v st"
| "SQLStmt_bind S i (BCStr v) st = SQLStmt_bind_cstr S i v (- 1) st"
| "SQLStmt_bind S i (BValue v) st = SQLStmt_bind_value S i v st"

text \<open>Several parameters from the first on (\<open>_param\<close>), and a tuple from its last component down (\<open>_tparm_helper\<close>).\<close>

fun param_from :: "('d, 'q, 't) sqlite \<Rightarrow> int \<Rightarrow> bind_arg list \<Rightarrow> 't SQLStmt \<Rightarrow> ('t SQLStmt, unit) res" where
  "param_from S i [] st = Return () st"
| "param_from S i (h # t) st = bind_res (SQLStmt_bind S i h st) (\<lambda>_ st. param_from S (i + 1) t st)"

definition SQLStmt_param :: "('d, 'q, 't) sqlite \<Rightarrow> bind_arg list \<Rightarrow> 't SQLStmt \<Rightarrow> ('t SQLStmt, unit) res" where
  "SQLStmt_param S args st = param_from S 1 args st"

fun tparm_helper :: "('d, 'q, 't) sqlite \<Rightarrow> nat \<Rightarrow> bind_arg list \<Rightarrow> 't SQLStmt \<Rightarrow> ('t SQLStmt, unit) res" where
  "tparm_helper S 0 t st = Return () st"
| "tparm_helper S (Suc n) t st =
     bind_res (SQLStmt_bind S (int (Suc n)) (t ! n) st) (\<lambda>_ st. tparm_helper S n t st)"

definition SQLStmt_tparam :: "('d, 'q, 't) sqlite \<Rightarrow> bind_arg list \<Rightarrow> 't SQLStmt \<Rightarrow> ('t SQLStmt, unit) res" where
  "SQLStmt_tparam S t st = tparm_helper S (length t) t st"

section \<open>What a binding does\<close>

fun bound_value :: "bind_arg \<Rightarrow> sql_value" where
  "bound_value BNull = SqlNull"
| "bound_value (BInt64 v) = SqlInt v"
| "bound_value (BInt v) = SqlInt (scast v)"
| "bound_value (BUnsigned v) = SqlInt (ucast v)"
| "bound_value (BDouble v) = SqlReal v"
| "bound_value (BString v) = SqlText v"
| "bound_value (BMoved v) = SqlText v"
| "bound_value (BCStr v) = SqlText (takeWhile (\<lambda>c. c \<noteq> CHR 0x00) v)"
| "bound_value (BValue v) = v"

lemma SQLStmt_bind_bound: "SQLStmt_bind S i a st = SQLStmt_bind_value S i (bound_value a) st"
  by (cases a) (simp_all add: SQLStmt_bind_null_def SQLStmt_bind_int_def SQLStmt_bind_real_def SQLStmt_bind_text_def
      SQLStmt_bind_cstr_def)

definition SQLITE_RANGE :: int where
  "SQLITE_RANGE = 25"

lemmas sql_codes = SQLITE_OK_def SQLITE_ROW_def SQLITE_DONE_def SQLITE_RANGE_def

text \<open>The library: a statement has some parameters; binding one of them changes just this one, another index is refused.\<close>

locale sql_params =
  fixes S :: "('d, 'q, 't) sqlite"
    and nparams :: "'t \<Rightarrow> nat"
    and bound :: "'t \<Rightarrow> int \<Rightarrow> sql_value"
  assumes bind_param: "1 \<le> i \<Longrightarrow> i \<le> int (nparams t) \<Longrightarrow>
      \<exists>t'. sq_bind S t i v = (SQLITE_OK, t') \<and> nparams t' = nparams t \<and> bound t' = (bound t)(i := v)"
    and bind_range: "i < 1 \<or> int (nparams t) < i \<Longrightarrow> fst (sq_bind S t i v) = SQLITE_RANGE"
begin

lemma bind_inside:
  assumes "1 \<le> i" "i \<le> int (nparams (sst_stmt st))"
  obtains st' where "SQLStmt_bind S i a st = Return () st'" "sst_status st' = SQLITE_OK" "nparams (sst_stmt st') = nparams (sst_stmt st)"
    "bound (sst_stmt st') = (bound (sst_stmt st))(i := bound_value a)"
  using bind_param [OF assms, of "bound_value a"] that
  by (auto simp: SQLStmt_bind_bound SQLStmt_bind_value_def set_status_def)

lemma bind_outside:
  assumes "int (nparams (sst_stmt st)) < i"
  obtains e st' where "SQLStmt_bind S i a st = Raise e st'"
  using bind_range [of i "sst_stmt st" "bound_value a"] assms that
  by (auto simp: SQLStmt_bind_bound SQLStmt_bind_value_def set_status_def sql_codes split_beta)

lemma param_from_binds:
  assumes "1 \<le> i" "i + int (length args) \<le> int (nparams (sst_stmt st)) + 1"
  shows "\<exists>st'. param_from S i args st = Return () st' \<and> nparams (sst_stmt st') = nparams (sst_stmt st) \<and>
    sst_status st' = (if args = [] then sst_status st else SQLITE_OK) \<and>
    (\<forall>j. bound (sst_stmt st') j = (if i \<le> j \<and> j < i + int (length args) then bound_value (args ! nat (j - i)) else bound (sst_stmt st) j))"
  using assms
proof (induction args arbitrary: i st)
  case (Cons a args)
  obtain st1 where st1: "SQLStmt_bind S i a st = Return () st1" "sst_status st1 = SQLITE_OK" "nparams (sst_stmt st1) = nparams (sst_stmt st)"
    "bound (sst_stmt st1) = (bound (sst_stmt st))(i := bound_value a)"
    using bind_inside [of i st a] Cons.prems by auto
  obtain st' where st': "param_from S (i + 1) args st1 = Return () st'" "nparams (sst_stmt st') = nparams (sst_stmt st)"
    "sst_status st' = (if args = [] then sst_status st1 else SQLITE_OK)"
    "\<forall>j. bound (sst_stmt st') j = (if i + 1 \<le> j \<and> j < i + 1 + int (length args) then bound_value (args ! nat (j - (i + 1)))
       else bound (sst_stmt st1) j)"
    using Cons.IH [of "i + 1" st1] Cons.prems st1(3) by auto
  have "bound (sst_stmt st') j = (if i \<le> j \<and> j < i + int (length (a # args)) then bound_value ((a # args) ! nat (j - i))
      else bound (sst_stmt st) j)" for j
  proof -
    have "nat (j - i) = Suc (nat (j - (i + 1)))" if "i < j"
      using that by linarith
    then show ?thesis
      using st'(4) st1(4) by (cases "i < j") auto
  qed
  then show ?case
    using st1 st'(1-3) by auto
qed auto

lemma param_from_too_many:
  assumes "1 \<le> i" "i \<le> int (nparams (sst_stmt st)) + 1" "int (nparams (sst_stmt st)) + 1 < i + int (length args)"
  shows "\<exists>e st'. param_from S i args st = Raise e st'"
  using assms
proof (induction args arbitrary: i st)
  case (Cons a args)
  show ?case
  proof (cases "i \<le> int (nparams (sst_stmt st))")
    case True
    then obtain st1 where "SQLStmt_bind S i a st = Return () st1" "nparams (sst_stmt st1) = nparams (sst_stmt st)"
      using bind_inside [of i st a] Cons.prems(1) by auto
    then show ?thesis
      using Cons.IH [of "i + 1" st1] Cons.prems True by auto
  next
    case False
    then obtain e st' where "SQLStmt_bind S i a st = Raise e st'"
      using bind_outside [of st i a] by auto
    then show ?thesis
      by simp
  qed
qed simp

lemma tparm_binds:
  assumes "n \<le> length args" "n \<le> nparams (sst_stmt st)"
  shows "\<exists>st'. tparm_helper S n args st = Return () st' \<and>
    sst_status st' = (if n = 0 then sst_status st else SQLITE_OK) \<and>
    (\<forall>j. bound (sst_stmt st') j = (if 1 \<le> j \<and> j \<le> int n then bound_value (args ! nat (j - 1)) else bound (sst_stmt st) j))"
  using assms
proof (induction n arbitrary: st)
  case (Suc n)
  obtain st1 where st1: "SQLStmt_bind S (int (Suc n)) (args ! n) st = Return () st1" "sst_status st1 = SQLITE_OK"
    "nparams (sst_stmt st1) = nparams (sst_stmt st)" "bound (sst_stmt st1) = (bound (sst_stmt st))(int (Suc n) := bound_value (args ! n))"
    using bind_inside [of "int (Suc n)" st "args ! n"] Suc.prems by auto
  obtain st' where "tparm_helper S n args st1 = Return () st'" "sst_status st' = (if n = 0 then sst_status st1 else SQLITE_OK)"
    "\<forall>j. bound (sst_stmt st') j = (if 1 \<le> j \<and> j \<le> int n then bound_value (args ! nat (j - 1)) else bound (sst_stmt st1) j)"
    using Suc.IH [of st1] Suc.prems st1(3) by auto
  then show ?case
    using st1 by (auto simp: nat_add_distrib)
qed auto

lemma tparm_too_many:
  assumes "nparams (sst_stmt st) < length args"
  shows "\<exists>e st'. SQLStmt_tparam S args st = Raise e st'"
proof -
  obtain n where n: "length args = Suc n"
    using assms by (cases "length args") auto
  then obtain e st' where "SQLStmt_bind S (int (Suc n)) (args ! n) st = Raise e st'"
    using bind_outside [of st "int (Suc n)"] assms by auto
  then show ?thesis
    by (simp add: SQLStmt_tparam_def n)
qed

end

section \<open>Properties\<close>

text \<open>Which outcome a column access has: a value on a row, an exception after the last row or after an error,
  a failed assertion before the first step.\<close>

lemma with_row_outcome:
  "with_row S f st =
    (if sst_status st = SQLITE_ROW then Return (f (sst_stmt st)) st
     else if sst_status st = SQLITE_OK then Abort
     else if sst_status st = SQLITE_DONE
     then Raise (SqlDone (''No rows left in query: '' @ sq_text S (sq_sql S (sst_stmt st)))) st
     else Raise (SqlErr (''SQLStmt::operator[]: used after error'' @ [CHR 0x0A] @ ''  Query: '' @
            sq_text S (sq_sql S (sst_stmt st)) @ [CHR 0x0A] @ ''  Error: '' @ sq_errstr S (sst_status st))) st)"
  by (simp add: with_row_def ensure_row_def SQLStmt_fail_def)

text \<open>A statement that is moved while it is on a row forgets the row: its columns cannot be read any more.\<close>

lemma moved_statement_forgets_row:
  "SQLStmt_move S st = (st1, st2) \<Longrightarrow> sst_stmt st1 = sst_stmt st \<and> with_row S f st1 = Abort"
  by (auto simp: SQLStmt_move_def with_row_outcome sql_codes)

end
