(* ===== verification/ServerDb.thy ===== *)
theory ServerDb
  imports KvNamespace SqlStmt
begin

text \<open>
  The store in a database file: \<open>ServerDB\<close> (\<open>server/serverdb.cc\<close>) over the statements of \<open>SqlStmt\<close>, which the
  server links but does not use yet. What the code relies on is stated in the locale \<open>kv_table\<close>: the meaning
  of the seven statements on the table \<open>kvpair\<close>.
\<close>

unbundle bit_operations_syntax

section \<open>The store\<close>

text \<open>\<open>dirDepth\<close> counts in an \<open>int\<close>; a path is far shorter than its range.\<close>

fun depth_loop :: "string \<Rightarrow> int \<Rightarrow> int" where
  "depth_loop [] depth = depth"
| "depth_loop (c # cs) depth = depth_loop cs (if c = slash then depth + 1 else depth)"

definition dirDepth :: "string \<Rightarrow> int" where
  "dirDepth path = depth_loop path 0"

text \<open>Running a statement for its result: the database stays as it is.\<close>

definition with_stmt ::
  "exn + 't SQLStmt \<Rightarrow> 'd \<Rightarrow> ('t SQLStmt \<Rightarrow> ('t SQLStmt, 'x) res) \<Rightarrow> ('d, 'x) res" where
  "with_stmt r db f =
     (case r of
        Inl e \<Rightarrow> Raise e db
      | Inr st \<Rightarrow> (case f st of Abort \<Rightarrow> Abort | Raise e _ \<Rightarrow> Raise e db | Return x _ \<Rightarrow> Return x db))"

definition sqlexec ::
  "('d, 'q, 't) sqlite \<Rightarrow> string \<Rightarrow> sql_arg list \<Rightarrow> 'd \<Rightarrow> ('d, unit) res" where
  "sqlexec S fmt args db =
     (case sq_vmprintf S fmt args of
        None \<Rightarrow> Raise (RuntimeError ''sqlite3_vmprintf: out of memory in sqlexec'') db
      | Some query \<Rightarrow>
          let (err, db) = sq_exec S db query
          in if err \<noteq> SQLITE_OK \<and> err \<noteq> SQLITE_DONE \<and> err \<noteq> SQLITE_ROW
             then Raise (RuntimeError ''sqlite3_exec: '') db else Return () db)"

definition fmt_has :: string where
  "fmt_has = ''SELECT key, value FROM kvpair WHERE key = \"%s\"''"

definition fmt_get :: string where
  "fmt_get = ''SELECT value FROM kvpair WHERE key = \"%s\"''"

definition fmt_update :: string where
  "fmt_update = ''UPDATE kvpair SET value = \"%s\" WHERE key = \"%s\";''"

definition fmt_insert :: string where
  "fmt_insert = ''INSERT INTO kvpair (key, value, depth) VALUES (\"%s\", \"%s\", %d);''"

definition fmt_delete :: string where
  "fmt_delete = ''DELETE FROM kvpair WHERE key = \"%s\";''"

definition fmt_list :: string where
  "fmt_list = ''SELECT key FROM kvpair WHERE key LIKE '%s/%%' AND depth = %d''"

definition ServerDB_hasKey :: "('d, 'q, 't) sqlite \<Rightarrow> string \<Rightarrow> 'd \<Rightarrow> ('d, bool) res" where
  "ServerDB_hasKey S path db =
     with_stmt (SQLStmt_new S db fmt_has [SStr path]) db (\<lambda>st.
       bind_res (SQLStmt_step S st) (\<lambda>_ st. SQLStmt_row st))"

definition ServerDB_get :: "('d, 'q, 't) sqlite \<Rightarrow> string \<Rightarrow> 'd \<Rightarrow> ('d, string) res" where
  "ServerDB_get S path db =
     with_stmt (SQLStmt_new S db fmt_get [SStr path]) db (\<lambda>st.
       bind_res (SQLStmt_step S st) (\<lambda>_ st.
         bind_res (SQLStmt_row st) (\<lambda>b st.
           if \<not> b then Raise (RuntimeError ''Key not present'') st else SQLStmt_str S 0 st)))"

definition ServerDB_set :: "('d, 'q, 't) sqlite \<Rightarrow> string \<Rightarrow> string \<Rightarrow> 'd \<Rightarrow> ('d, bool) res" where
  "ServerDB_set S path val db =
     bind_res (ServerDB_hasKey S path db) (\<lambda>update db.
     bind_res (sqlexec S ''BEGIN;'' [] db) (\<lambda>_ db.
     bind_res (if update then sqlexec S fmt_update [SStr val, SStr path] db
               else sqlexec S fmt_insert [SStr path, SStr val, SInt (dirDepth path)] db) (\<lambda>_ db.
     bind_res (sqlexec S ''COMMIT;'' [] db) (\<lambda>_ db. Return update db))))"

definition ServerDB_remove :: "('d, 'q, 't) sqlite \<Rightarrow> string \<Rightarrow> 'd \<Rightarrow> ('d, unit) res" where
  "ServerDB_remove S path db =
     bind_res (ServerDB_hasKey S path db) (\<lambda>b db.
       if \<not> b then Raise (RuntimeError ''Key not found'') db
       else bind_res (sqlexec S ''BEGIN;'' [] db) (\<lambda>_ db.
         bind_res (sqlexec S fmt_delete [SStr path] db) (\<lambda>_ db. sqlexec S ''COMMIT;'' [] db)))"

text \<open>The loop of \<open>list\<close> reads rows until there is none, which nothing bounds; the set is sorted.\<close>

partial_function (option) list_rows ::
  "('d, 'q, 't) sqlite \<Rightarrow> string list \<Rightarrow> 't SQLStmt \<Rightarrow> ('t SQLStmt, string list) res option" where
  "list_rows S r st =
     (case SQLStmt_row st of
        Abort \<Rightarrow> Some Abort
      | Raise e st \<Rightarrow> Some (Raise e st)
      | Return b st \<Rightarrow>
          if \<not> b then Some (Return r st)
          else (case SQLStmt_str S 0 st of
                  Abort \<Rightarrow> Some Abort
                | Raise e st \<Rightarrow> Some (Raise e st)
                | Return k st \<Rightarrow>
                    (case SQLStmt_step S st of
                       Abort \<Rightarrow> Some Abort
                     | Raise e st \<Rightarrow> Some (Raise e st)
                     | Return _ st \<Rightarrow> list_rows S (insort_insert k r) st)))"

definition ServerDB_list :: "('d, 'q, 't) sqlite \<Rightarrow> string \<Rightarrow> 'd \<Rightarrow> ('d, string list) res option" where
  "ServerDB_list S path db =
     (let depth = dirDepth path + 1
      in case SQLStmt_new S db fmt_list [SStr path, SInt depth] of
           Inl e \<Rightarrow> Some (Raise e db)
         | Inr st \<Rightarrow>
             (case SQLStmt_step S st of
                Abort \<Rightarrow> Some Abort
              | Raise e st \<Rightarrow> Some (Raise e db)
              | Return _ st \<Rightarrow> map_option (\<lambda>r. with_stmt (Inr st) db (\<lambda>_. r)) (list_rows S [] st)))"

definition ServerDB_create :: "('d, 'q, 't) sqlite \<Rightarrow> string \<Rightarrow> ('d, unit) res" where
  "ServerDB_create S file =
     (let (status, db) = sq_open_v2 S file (SQLITE_OPEN_READWRITE OR SQLITE_OPEN_CREATE)
      in assert_res (status = SQLITE_OK)
           (bind_res (sqlexec S ''BEGIN;'' [] db) (\<lambda>_ db.
            bind_res (sqlexec S ''CREATE TABLE kvpair (key TEXT PRIMARY KEY NOT NULL, value TEXT, depth INT);'' [] db) (\<lambda>_ db.
            sqlexec S ''COMMIT;'' [] db))))"

text \<open>\<open>missing\<close> says whether \<open>access\<close> fails with \<open>ENOENT\<close>.\<close>

definition ServerDB_open :: "('d, 'q, 't) sqlite \<Rightarrow> bool \<Rightarrow> string \<Rightarrow> ('d, unit) res" where
  "ServerDB_open S missing file =
     (if missing then ServerDB_create S file
      else let (status, db) = sq_open_v2 S file SQLITE_OPEN_READWRITE
           in assert_res (status = SQLITE_OK) (Return () db))"

definition ServerDB_close :: "('d, 'q, 't) sqlite \<Rightarrow> 'd \<Rightarrow> ('d, unit) res" where
  "ServerDB_close S db = assert_res (sq_close S db = SQLITE_OK) (Return () db)"

definition ServerDB_new :: "('d, 'q, 't) sqlite \<Rightarrow> bool \<Rightarrow> string \<Rightarrow> ('d, unit) res" where
  "ServerDB_new S missing file = ServerDB_open S missing file"

definition ServerDB_destroy :: "('d, 'q, 't) sqlite \<Rightarrow> 'd \<Rightarrow> ('d, unit) res" where
  "ServerDB_destroy S db = ServerDB_close S db"

section \<open>What the store relies on\<close>

text \<open>Stepping a statement yields these rows and then no more.\<close>

fun yields :: "('d, 'q, 't) sqlite \<Rightarrow> 't \<Rightarrow> string list list \<Rightarrow> bool" where
  "yields S t [] \<longleftrightarrow> fst (sq_step S t) = SQLITE_DONE"
| "yields S t (r # rs) \<longleftrightarrow> fst (sq_step S t) = SQLITE_ROW \<and>
     (\<forall>i < length r. sq_column_blob S (snd (sq_step S t)) (int i) = r ! i) \<and> yields S (snd (sq_step S t)) rs"

text \<open>SQL's \<open>LIKE\<close>: \<open>%\<close> any text, \<open>_\<close> any character, other characters up to ASCII case.\<close>

definition sql_fold :: "char \<Rightarrow> nat" where
  "sql_fold c = (let n = of_char c in if 65 \<le> n \<and> n \<le> 90 then n + 32 else n)"

fun sql_like :: "string \<Rightarrow> string \<Rightarrow> bool" where
  "sql_like [] s \<longleftrightarrow> s = []"
| "sql_like (p # ps) [] \<longleftrightarrow> p = CHR ''%'' \<and> sql_like ps []"
| "sql_like (p # ps) (c # cs) \<longleftrightarrow>
     (if p = CHR ''%'' then sql_like ps (c # cs) \<or> sql_like (p # ps) cs
      else (p = CHR ''_'' \<or> sql_fold p = sql_fold c) \<and> sql_like ps cs)"

text \<open>Texts without quotes, which \<open>%s\<close> puts into the statement as they are.\<close>

definition plain :: "string \<Rightarrow> bool" where
  "plain s \<longleftrightarrow> set s \<inter> {CHR 0x22, CHR 0x27, CHR 0x00} = {}"

locale kv_table =
  fixes S :: "('d, 'q, 't) sqlite"
    and idle :: "'d \<Rightarrow> bool"
    and tbl :: "'d \<Rightarrow> string \<Rightarrow> (string \<times> int) option"
  assumes format: "\<exists>q. sq_vmprintf S fmt args = Some q"
    and select_has: "plain k \<Longrightarrow> sq_vmprintf S fmt_has [SStr k] = Some q \<Longrightarrow>
      \<exists>t. sq_prepare_v2 S d q = (0, t, False) \<and>
        yields S t (case tbl d k of None \<Rightarrow> [] | Some (v, n) \<Rightarrow> [[k, v]])"
    and select_get: "plain k \<Longrightarrow> sq_vmprintf S fmt_get [SStr k] = Some q \<Longrightarrow>
      \<exists>t. sq_prepare_v2 S d q = (0, t, False) \<and>
        yields S t (case tbl d k of None \<Rightarrow> [] | Some (v, n) \<Rightarrow> [[v]])"
    and select_list: "plain k \<Longrightarrow> sq_vmprintf S fmt_list [SStr k, SInt n] = Some q \<Longrightarrow>
      \<exists>t. sq_prepare_v2 S d q = (0, t, False) \<and> (\<exists>ks. yields S t (map (\<lambda>k. [k]) ks) \<and>
        set ks = {k'. \<exists>v. tbl d k' = Some (v, n) \<and> sql_like (k @ ''/%'') k'})"
    and exec_begin: "idle d \<Longrightarrow> sq_vmprintf S ''BEGIN;'' [] = Some q \<Longrightarrow>
      \<exists>d'. sq_exec S d q = (SQLITE_OK, d') \<and> \<not> idle d' \<and> tbl d' = tbl d"
    and exec_commit: "\<not> idle d \<Longrightarrow> sq_vmprintf S ''COMMIT;'' [] = Some q \<Longrightarrow>
      \<exists>d'. sq_exec S d q = (SQLITE_OK, d') \<and> idle d' \<and> tbl d' = tbl d"
    and exec_update: "plain k \<Longrightarrow> plain v \<Longrightarrow> tbl d k = Some (w, n) \<Longrightarrow>
      sq_vmprintf S fmt_update [SStr v, SStr k] = Some q \<Longrightarrow>
      \<exists>d'. sq_exec S d q = (SQLITE_OK, d') \<and> idle d' = idle d \<and> tbl d' = (tbl d)(k \<mapsto> (v, n))"
    and exec_insert: "plain k \<Longrightarrow> plain v \<Longrightarrow> tbl d k = None \<Longrightarrow>
      sq_vmprintf S fmt_insert [SStr k, SStr v, SInt n] = Some q \<Longrightarrow>
      \<exists>d'. sq_exec S d q = (SQLITE_OK, d') \<and> idle d' = idle d \<and> tbl d' = (tbl d)(k \<mapsto> (v, n))"
    and exec_delete: "plain k \<Longrightarrow> sq_vmprintf S fmt_delete [SStr k] = Some q \<Longrightarrow>
      \<exists>d'. sq_exec S d q = (SQLITE_OK, d') \<and> idle d' = idle d \<and> tbl d' = (tbl d)(k := None)"
begin

lemma sqlexec_ok:
  assumes "\<And>q. sq_vmprintf S fmt args = Some q \<Longrightarrow> \<exists>d'. sq_exec S d q = (SQLITE_OK, d') \<and> P d'"
  shows "\<exists>d'. sqlexec S fmt args d = Return () d' \<and> P d'"
proof -
  obtain q where q: "sq_vmprintf S fmt args = Some q"
    using format by blast
  then show ?thesis
    using assms [OF q] by (auto simp: sqlexec_def)
qed

lemma new_ok:
  assumes "\<And>q. sq_vmprintf S fmt args = Some q \<Longrightarrow> \<exists>t. sq_prepare_v2 S d q = (0, t, False) \<and> P t"
  shows "\<exists>t. SQLStmt_new S d fmt args = Inr \<lparr>sst_stmt = t, sst_status = SQLITE_OK\<rparr> \<and> P t"
proof -
  obtain q where q: "sq_vmprintf S fmt args = Some q"
    using format by blast
  then show ?thesis
    using assms [OF q] by (auto simp: SQLStmt_new_def)
qed

lemma step_yields:
  "yields S (sst_stmt st) rs \<Longrightarrow> SQLStmt_step S st = Return ()
     \<lparr>sst_stmt = snd (sq_step S (sst_stmt st)), sst_status = (if rs = [] then SQLITE_DONE else SQLITE_ROW)\<rparr>"
  by (cases st; cases rs) (simp_all add: SQLStmt_step_def set_status_def split_beta)

lemma hasKey_table:
  assumes "plain k"
  shows "ServerDB_hasKey S k d = Return (tbl d k \<noteq> None) d"
proof -
  obtain t where "SQLStmt_new S d fmt_has [SStr k] = Inr \<lparr>sst_stmt = t, sst_status = SQLITE_OK\<rparr>"
    "yields S t (case tbl d k of None \<Rightarrow> [] | Some (v, n) \<Rightarrow> [[k, v]])"
    using new_ok [OF select_has [OF assms, of _ d]] by blast
  then show ?thesis
    by (auto simp: ServerDB_hasKey_def with_stmt_def step_yields SQLStmt_row_def SQLITE_ROW_def
        SQLITE_DONE_def split: option.splits)
qed

lemma get_table:
  assumes "plain k"
  shows "ServerDB_get S k d =
    (case tbl d k of None \<Rightarrow> Raise (RuntimeError ''Key not present'') d | Some (v, n) \<Rightarrow> Return v d)"
proof -
  obtain t where "SQLStmt_new S d fmt_get [SStr k] = Inr \<lparr>sst_stmt = t, sst_status = SQLITE_OK\<rparr>"
    "yields S t (case tbl d k of None \<Rightarrow> [] | Some (v, n) \<Rightarrow> [[v]])"
    using new_ok [OF select_get [OF assms, of _ d]] by blast
  then show ?thesis
    by (auto simp: ServerDB_get_def with_stmt_def step_yields SQLStmt_row_def SQLITE_ROW_def
        SQLITE_DONE_def SQLStmt_str_def with_row_def ensure_row_def split: option.splits)
qed

lemma transaction:
  assumes "idle d" "\<And>d'. tbl d' = tbl d \<Longrightarrow> \<exists>e. f d' = Return () e \<and> idle e = idle d' \<and> tbl e = m"
  shows "\<exists>e. bind_res (sqlexec S ''BEGIN;'' [] d) (\<lambda>_ d. bind_res (f d) (\<lambda>_ d. sqlexec S ''COMMIT;'' [] d)) =
    Return () e \<and> idle e \<and> tbl e = m"
proof -
  obtain d1 where d1: "sqlexec S ''BEGIN;'' [] d = Return () d1" "\<not> idle d1" "tbl d1 = tbl d"
    using sqlexec_ok [OF exec_begin [OF assms(1)]] by blast
  then obtain d2 where d2: "f d1 = Return () d2" "\<not> idle d2" "tbl d2 = m"
    using assms(2) by blast
  obtain e where "sqlexec S ''COMMIT;'' [] d2 = Return () e" "idle e" "tbl e = tbl d2"
    using sqlexec_ok [OF exec_commit [OF d2(2)]] by blast
  then show ?thesis
    using d1(1) d2 by simp
qed

lemma set_table:
  assumes "plain k" "plain v" "idle d"
  shows "\<exists>e. ServerDB_set S k v d = Return (tbl d k \<noteq> None) e \<and> idle e \<and>
    tbl e = (tbl d)(k \<mapsto> (v, case tbl d k of None \<Rightarrow> dirDepth k | Some (w, n) \<Rightarrow> n))"
proof -
  let ?f = "\<lambda>d'. if tbl d k \<noteq> None then sqlexec S fmt_update [SStr v, SStr k] d'
    else sqlexec S fmt_insert [SStr k, SStr v, SInt (dirDepth k)] d'"
  let ?m = "(tbl d)(k \<mapsto> (v, case tbl d k of None \<Rightarrow> dirDepth k | Some (w, n) \<Rightarrow> n))"
  have "\<exists>e. ?f d' = Return () e \<and> idle e = idle d' \<and> tbl e = ?m" if "tbl d' = tbl d" for d'
  proof (cases "tbl d k")
    case None
    then show ?thesis
      using sqlexec_ok [OF exec_insert [OF assms(1,2), of d' "dirDepth k"]] that by simp
  next
    case (Some wn)
    then show ?thesis
      using sqlexec_ok [OF exec_update [OF assms(1,2), of d' "fst wn" "snd wn"]] that by (cases wn) simp
  qed
  from transaction [OF assms(3) this] obtain e where
    "bind_res (sqlexec S ''BEGIN;'' [] d) (\<lambda>_ d. bind_res (?f d) (\<lambda>_ d. sqlexec S ''COMMIT;'' [] d)) = Return () e"
    "idle e" "tbl e = ?m"
    by blast
  moreover have "ServerDB_set S k v d = bind_res (bind_res (sqlexec S ''BEGIN;'' [] d)
      (\<lambda>_ d. bind_res (?f d) (\<lambda>_ d. sqlexec S ''COMMIT;'' [] d))) (\<lambda>_ d'. Return (tbl d k \<noteq> None) d')"
    unfolding ServerDB_set_def hasKey_table [OF assms(1)] bind_res.simps bind_res_assoc by (rule refl)
  ultimately show ?thesis
    by simp
qed

lemma remove_table:
  assumes "plain k" "idle d"
  shows "if tbl d k = None then ServerDB_remove S k d = Raise (RuntimeError ''Key not found'') d
    else \<exists>e. ServerDB_remove S k d = Return () e \<and> idle e \<and> tbl e = (tbl d)(k := None)"
proof -
  have "\<exists>e. sqlexec S fmt_delete [SStr k] d' = Return () e \<and> idle e = idle d' \<and> tbl e = (tbl d)(k := None)"
    if "tbl d' = tbl d" for d'
    using sqlexec_ok [OF exec_delete [OF assms(1), of _ d']] that by simp
  from transaction [OF assms(2) this] show ?thesis
    by (simp add: ServerDB_remove_def hasKey_table [OF assms(1)])
qed

lemma list_rows_yields:
  assumes "yields S (sst_stmt st) (map (\<lambda>k. [k]) ks)" "sorted r" "distinct r"
  shows "\<exists>r' st'. (case SQLStmt_step S st of Return _ st1 \<Rightarrow> list_rows S r st1 | _ \<Rightarrow> None) = Some (Return r' st') \<and>
    sorted r' \<and> distinct r' \<and> set r' = set r \<union> set ks"
  using assms
proof (induction ks arbitrary: st r)
  case Nil
  then show ?case
    using step_yields [OF Nil(1)]
    by (simp add: list_rows.simps SQLStmt_row_def SQLITE_ROW_def SQLITE_DONE_def)
next
  case (Cons k ks)
  let ?st = "\<lparr>sst_stmt = snd (sq_step S (sst_stmt st)), sst_status = SQLITE_ROW\<rparr>"
  have y: "yields S (sst_stmt ?st) (map (\<lambda>k. [k]) ks)" "sq_column_blob S (sst_stmt ?st) 0 = k"
    using Cons.prems(1) by simp_all
  obtain r' st' where "(case SQLStmt_step S ?st of Return _ st1 \<Rightarrow> list_rows S (insort_insert k r) st1 | _ \<Rightarrow> None) =
      Some (Return r' st')" "sorted r' \<and> distinct r' \<and> set r' = set (insort_insert k r) \<union> set ks"
    using Cons.IH [OF y(1), of "insort_insert k r"] Cons.prems(2,3)
    by (auto simp: sorted_insort_insert distinct_insort_insert)
  then have "(case SQLStmt_step S st of Return _ st1 \<Rightarrow> list_rows S r st1 | _ \<Rightarrow> None) = Some (Return r' st')"
    using y step_yields [OF Cons.prems(1)]
    by (simp add: list_rows.simps [of S r] SQLStmt_row_def SQLStmt_str_def with_row_def ensure_row_def step_yields [OF y(1)])
  then show ?case
    using \<open>sorted r' \<and> _\<close> by (auto simp: set_insort_insert)
qed

lemma list_table:
  assumes "plain k"
  shows "\<exists>ks. ServerDB_list S k d = Some (Return ks d) \<and> sorted ks \<and> distinct ks \<and>
    set ks = {k'. \<exists>v. tbl d k' = Some (v, dirDepth k + 1) \<and> sql_like (k @ ''/%'') k'}"
proof -
  let ?K = "{k'. \<exists>v. tbl d k' = Some (v, dirDepth k + 1) \<and> sql_like (k @ ''/%'') k'}"
  obtain t ks where t: "SQLStmt_new S d fmt_list [SStr k, SInt (dirDepth k + 1)] =
      Inr \<lparr>sst_stmt = t, sst_status = SQLITE_OK\<rparr>" and y: "yields S t (map (\<lambda>k. [k]) ks)" "set ks = ?K"
    using new_ok [OF select_list [OF assms, of "dirDepth k + 1" _ d]] by blast
  obtain st where st: "SQLStmt_step S \<lparr>sst_stmt = t, sst_status = SQLITE_OK\<rparr> = Return () st"
    using step_yields [of "\<lparr>sst_stmt = t, sst_status = SQLITE_OK\<rparr>"] y(1) by simp
  obtain r st' where "list_rows S [] st = Some (Return r st')" "sorted r" "distinct r" "set r = set ks"
    using list_rows_yields [of "\<lparr>sst_stmt = t, sst_status = SQLITE_OK\<rparr>" ks "[]"] y(1) by (auto simp: st)
  then show ?thesis
    using y(2) by (auto simp: ServerDB_list_def t st with_stmt_def)
qed

end

section \<open>A table in memory\<close>

text \<open>
  An instance of the interface: a query is its format and arguments, a database an association list
  and whether no transaction is open, a statement the rows it has left, its current row and its parameters (one for
  each question mark of the format).
\<close>

type_synonym mem_db = "(string \<times> string \<times> int) list \<times> bool"

fun mem_rows :: "mem_db \<Rightarrow> string \<times> sql_arg list \<Rightarrow> string list list" where
  "mem_rows (m, i) (f, [SStr k]) =
     (case map_of m k of None \<Rightarrow> [] | Some (v, n) \<Rightarrow> if f = fmt_has then [[k, v]] else [[v]])"
| "mem_rows (m, i) (f, [SStr k, SInt n]) =
     map (\<lambda>k'. [k']) (filter (\<lambda>k'. map_option snd (map_of m k') = Some n \<and> sql_like (k @ ''/%'') k')
       (remdups (map fst m)))"
| "mem_rows _ _ = []"

fun mem_exec :: "mem_db \<Rightarrow> string \<times> sql_arg list \<Rightarrow> int \<times> mem_db" where
  "mem_exec (m, i) (f, [SStr v, SStr k]) =
     (SQLITE_OK, (case map_of m k of None \<Rightarrow> m | Some (w, n) \<Rightarrow> AList.update k (v, n) m, i))"
| "mem_exec (m, i) (f, [SStr k, SStr v, SInt n]) = (SQLITE_OK, (AList.update k (v, n) m, i))"
| "mem_exec (m, i) (f, [SStr k]) = (SQLITE_OK, (AList.delete k m, i))"
| "mem_exec (m, i) (f, []) = (SQLITE_OK, (m, f \<noteq> ''BEGIN;''))"
| "mem_exec d _ = (1, d)"

type_synonym mem_stmt = "string list list \<times> string list \<times> sql_value list"

fun mem_step :: "mem_stmt \<Rightarrow> int \<times> mem_stmt" where
  "mem_step ([], c, ps) = (SQLITE_DONE, ([], c, ps))"
| "mem_step (r # rs, c, ps) = (SQLITE_ROW, (rs, r, ps))"

fun mem_bind :: "mem_stmt \<Rightarrow> int \<Rightarrow> sql_value \<Rightarrow> int \<times> mem_stmt" where
  "mem_bind (rs, c, ps) i v =
     (if 1 \<le> i \<and> i \<le> int (length ps) then (SQLITE_OK, (rs, c, ps[nat (i - 1) := v])) else (SQLITE_RANGE, (rs, c, ps)))"

definition mem_params :: "string \<Rightarrow> sql_value list" where
  "mem_params f = replicate (length (filter (\<lambda>c. c = CHR ''?'') f)) SqlNull"

definition mem_sqlite :: "(mem_db, string \<times> sql_arg list, mem_stmt) sqlite" where
  "mem_sqlite =
    \<lparr>sq_open_v2 = (\<lambda>_ _. (SQLITE_OK, ([], True))), sq_close = (\<lambda>_. SQLITE_OK), sq_exec = mem_exec,
     sq_vmprintf = (\<lambda>f a. Some (f, a)), sq_text = fst,
     sq_prepare_v2 = (\<lambda>d q. (0, (mem_rows d q, [], mem_params (fst q)), False)),
     sq_step = mem_step, sq_reset = (\<lambda>t. (SQLITE_OK, t)),
     sq_column_value = (\<lambda>(rs, r, ps) i. SqlText (r ! nat i)), sq_column_blob = (\<lambda>(rs, r, ps) i. r ! nat i),
     sq_column_text = (\<lambda>(rs, r, ps) i. Some (r ! nat i)), sq_column_int64 = (\<lambda>_ _. 0), sq_column_double = (\<lambda>_ _. 0),
     sq_bind = mem_bind, sq_nullptr = ([], [], []),
     sq_db_filename = (\<lambda>_. None), sq_errmsg = (\<lambda>_. []), sq_errstr = (\<lambda>_. []),
     sq_db_handle = (\<lambda>_. ([], True)), sq_sql = (\<lambda>_. ([], []))\<rparr>"

definition mem_tbl :: "mem_db \<Rightarrow> string \<Rightarrow> (string \<times> int) option" where
  "mem_tbl d = map_of (fst d)"

lemma mem_yields: "yields mem_sqlite (rs, c, ps) rs"
  by (induction rs arbitrary: c) (simp_all add: mem_sqlite_def)

interpretation mem_table: kv_table mem_sqlite snd mem_tbl
proof
  fix k n q d
  assume "sq_vmprintf mem_sqlite fmt_list [SStr k, SInt n] = Some q"
  then have p: "sq_prepare_v2 mem_sqlite d q = (0, (mem_rows d (fmt_list, [SStr k, SInt n]), [], mem_params fmt_list), False)"
    by (auto simp: mem_sqlite_def)
  let ?ks = "filter (\<lambda>k'. map_option snd (map_of (fst d) k') = Some n \<and> sql_like (k @ ''/%'') k')
    (remdups (map fst (fst d)))"
  have r: "mem_rows d (fmt_list, [SStr k, SInt n]) = map (\<lambda>k. [k]) ?ks"
    by (cases d) simp
  have s: "set ?ks = {k'. \<exists>v. mem_tbl d k' = Some (v, n) \<and> sql_like (k @ ''/%'') k'}"
    by (auto simp: mem_tbl_def dest: map_of_SomeD intro: rev_image_eqI)
  show "\<exists>t. sq_prepare_v2 mem_sqlite d q = (0, t, False) \<and> (\<exists>ks. yields mem_sqlite t (map (\<lambda>k. [k]) ks) \<and>
      set ks = {k'. \<exists>v. mem_tbl d k' = Some (v, n) \<and> sql_like (k @ ''/%'') k'})"
    using mem_yields [of "map (\<lambda>k. [k]) ?ks" "[]" "mem_params fmt_list"] s unfolding p r by blast
next
  fix k q d
  assume "sq_vmprintf mem_sqlite fmt_has [SStr k] = Some q"
  then have "sq_prepare_v2 mem_sqlite d q = (0, (mem_rows d (fmt_has, [SStr k]), [], mem_params fmt_has), False)"
    by (auto simp: mem_sqlite_def)
  then show "\<exists>t. sq_prepare_v2 mem_sqlite d q = (0, t, False) \<and>
      yields mem_sqlite t (case mem_tbl d k of None \<Rightarrow> [] | Some (v, n) \<Rightarrow> [[k, v]])"
    using mem_yields [of "mem_rows d (fmt_has, [SStr k])" "[]" "mem_params fmt_has"]
    by (cases d) (auto simp: mem_tbl_def split: option.splits)
next
  fix k q d
  assume "sq_vmprintf mem_sqlite fmt_get [SStr k] = Some q"
  then have "sq_prepare_v2 mem_sqlite d q = (0, (mem_rows d (fmt_get, [SStr k]), [], mem_params fmt_get), False)"
    by (auto simp: mem_sqlite_def)
  then show "\<exists>t. sq_prepare_v2 mem_sqlite d q = (0, t, False) \<and>
      yields mem_sqlite t (case mem_tbl d k of None \<Rightarrow> [] | Some (v, n) \<Rightarrow> [[v]])"
    using mem_yields [of "mem_rows d (fmt_get, [SStr k])" "[]" "mem_params fmt_get"]
    by (cases d) (auto simp: mem_tbl_def fmt_get_def fmt_has_def split: option.splits)
qed (auto simp: mem_sqlite_def mem_tbl_def AList.update_conv' AList.delete_conv')

definition mem_nparams :: "mem_stmt \<Rightarrow> nat" where
  "mem_nparams t = length (snd (snd t))"

definition mem_bound :: "mem_stmt \<Rightarrow> int \<Rightarrow> sql_value" where
  "mem_bound t i = (if 1 \<le> i \<and> i \<le> int (mem_nparams t) then snd (snd t) ! nat (i - 1) else SqlNull)"

interpretation mem_parameters: sql_params mem_sqlite mem_nparams mem_bound
proof
  fix i t v
  assume i: "1 \<le> i" "i \<le> int (mem_nparams t)"
  obtain rs c ps where t: "t = (rs, c, ps)"
    by (cases t) auto
  have "mem_bound (rs, c, ps[nat (i - 1) := v]) = (mem_bound t)(i := v)"
    using i by (auto simp: fun_eq_iff t mem_bound_def mem_nparams_def nth_list_update)
  then show "\<exists>t'. sq_bind mem_sqlite t i v = (SQLITE_OK, t') \<and> mem_nparams t' = mem_nparams t \<and> mem_bound t' = (mem_bound t)(i := v)"
    using i by (simp add: t mem_sqlite_def mem_nparams_def)
next
  fix i t v
  assume "i < 1 \<or> int (mem_nparams t) < i"
  then show "fst (sq_bind mem_sqlite t i v) = SQLITE_RANGE"
    by (cases t) (auto simp: mem_sqlite_def mem_nparams_def)
qed

section \<open>Properties\<close>


definition ex_db :: mem_db where
  "ex_db = ([(''/a_b'', ''1'', 1), (''/axb'', ''2'', 1), (''/axb/c'', ''3'', 2)], True)"


lemma depth_loop_count: "depth_loop p n = n + int (length (filter (\<lambda>c. c = slash) p))"
  by (induction p arbitrary: n) auto

lemma dirDepth_append: "dirDepth (p @ q) = dirDepth p + dirDepth q"
  by (simp add: dirDepth_def depth_loop_count)

lemma dirDepth_comp: "slash \<notin> set c \<Longrightarrow> dirDepth c = 0"
  by (auto simp: dirDepth_def depth_loop_count filter_empty_conv)

lemma dirDepth_print_path: "(\<forall>c \<in> set cs. slash \<notin> set c) \<Longrightarrow> dirDepth (print_path cs) = int (length cs)"
proof (induction cs)
  case (Cons c cs)
  have "dirDepth (print_path (c # cs)) = 1 + dirDepth c + dirDepth (print_path cs)"
    by (simp add: dirDepth_def depth_loop_count)
  then show ?case
    using Cons by (simp add: dirDepth_comp)
qed (simp add: dirDepth_def)

lemma sql_like_percent: "sql_like ''%'' s"
  by (induction s) simp_all

lemma sql_like_skip: "sql_like ps s \<Longrightarrow> sql_like (CHR ''%'' # ps) s"
  by (cases s) simp_all

lemma sql_like_prefix: "sql_like (p @ ''%'') (p @ s)"
proof (induction p)
  case (Cons c p)
  then show ?case
    using sql_like_skip [of "p @ ''%''" "p @ s"] by simp
qed (simp add: sql_like_percent)

text \<open>\<open>set\<close> and \<open>remove\<close> keep the depth column right: it is the number of slashes of the key.\<close>

theorem ServerDB_depth_kept:
  assumes "kv_table S idle tbl" "plain k" "plain v" "idle d"
    and "\<forall>j w n. tbl d j = Some (w, n) \<longrightarrow> n = dirDepth j"
  shows "(\<forall>b e. ServerDB_set S k v d = Return b e \<longrightarrow> (\<forall>j w n. tbl e j = Some (w, n) \<longrightarrow> n = dirDepth j)) \<and>
    (\<forall>u e. ServerDB_remove S k d = Return u e \<longrightarrow> (\<forall>j w n. tbl e j = Some (w, n) \<longrightarrow> n = dirDepth j))"
  using kv_table.set_table [OF assms(1-4)] kv_table.remove_table [OF assms(1,2,4)] assms(5)
  by (auto split: if_splits option.splits)

lemma ex_db_depth: "\<forall>j w n. mem_tbl ex_db j = Some (w, n) \<longrightarrow> n = dirDepth j"
  by (auto simp: mem_tbl_def ex_db_def dirDepth_def split: if_splits)

theorem ServerDB_depth_kept_witness:
  "\<exists>e. ServerDB_set mem_sqlite ''/a_b/d'' ''6'' ex_db = Return False e \<and>
     (\<forall>j w n. mem_tbl e j = Some (w, n) \<longrightarrow> n = dirDepth j)"
proof -
  have p: "plain ''/a_b/d''" "plain ''6''" "snd ex_db"
    by (simp_all add: plain_def ex_db_def)
  have "(case ServerDB_set mem_sqlite ''/a_b/d'' ''6'' ex_db of Return b e \<Rightarrow> \<not> b | _ \<Rightarrow> False)"
    by code_simp
  then obtain e where "ServerDB_set mem_sqlite ''/a_b/d'' ''6'' ex_db = Return False e"
    by (auto split: res.splits)
  then show ?thesis
    using ServerDB_depth_kept [OF mem_table.kv_table_axioms p ex_db_depth] by blast
qed



text \<open>The two ways to bind all parameters agree: \<open>param\<close> from the first argument on and \<open>tparam\<close> from the last one
  down return exactly when the statement has enough parameters, and then bind the same values, argument \<open>j\<close> to
  parameter \<open>j + 1\<close>, and leave the others.\<close>

theorem params_agree:
  assumes "sql_params S nparams bound"
  shows "(if length args \<le> nparams (sst_stmt st)
     then \<exists>st1 st2. SQLStmt_param S args st = Return () st1 \<and> SQLStmt_tparam S args st = Return () st2 \<and>
       sst_status st1 = sst_status st2 \<and>
       (\<forall>j. bound (sst_stmt st1) j = bound (sst_stmt st2) j) \<and>
       (\<forall>j < length args. bound (sst_stmt st1) (int j + 1) = bound_value (args ! j)) \<and>
       (\<forall>j. j < 1 \<or> int (length args) < j \<longrightarrow> bound (sst_stmt st1) j = bound (sst_stmt st) j)
     else (\<exists>e st'. SQLStmt_param S args st = Raise e st') \<and> (\<exists>e st'. SQLStmt_tparam S args st = Raise e st'))"
proof (cases "length args \<le> nparams (sst_stmt st)")
  case True
  obtain st1 where st1: "SQLStmt_param S args st = Return () st1"
    "sst_status st1 = (if args = [] then sst_status st else SQLITE_OK)"
    "\<forall>j. bound (sst_stmt st1) j = (if 1 \<le> j \<and> j < 1 + int (length args) then bound_value (args ! nat (j - 1)) else bound (sst_stmt st) j)"
    using sql_params.param_from_binds [OF assms, of 1 args st] True by (auto simp: SQLStmt_param_def)
  obtain st2 where st2: "SQLStmt_tparam S args st = Return () st2"
    "sst_status st2 = (if length args = 0 then sst_status st else SQLITE_OK)"
    "\<forall>j. bound (sst_stmt st2) j = (if 1 \<le> j \<and> j \<le> int (length args) then bound_value (args ! nat (j - 1)) else bound (sst_stmt st) j)"
    using sql_params.tparm_binds [OF assms le_refl True] by (auto simp: SQLStmt_tparam_def)
  show ?thesis
    unfolding if_P [OF True] by (intro exI [of _ st1] exI [of _ st2]) (use st1 st2 in auto)
next
  case False
  then show ?thesis
    using sql_params.param_from_too_many [OF assms, of 1 st args] sql_params.tparm_too_many [OF assms, of st args]
    by (simp add: SQLStmt_param_def)
qed

theorem params_agree_witness:
  "\<exists>st st1 st2. SQLStmt_new mem_sqlite ex_db ''SELECT key FROM kvpair WHERE depth = ? AND value = ?'' [] = Inr st \<and>
     SQLStmt_param mem_sqlite [BInt (- 1), BString ''1''] st = Return () st1 \<and>
     SQLStmt_tparam mem_sqlite [BInt (- 1), BString ''1''] st = Return () st2 \<and>
     mem_bound (sst_stmt st1) 1 = SqlInt (- 1) \<and> mem_bound (sst_stmt st2) 1 = SqlInt (- 1)"
proof -
  let ?st = "\<lparr>sst_stmt = (mem_rows ex_db (''SELECT key FROM kvpair WHERE depth = ? AND value = ?'', []), [], [SqlNull, SqlNull]),
    sst_status = SQLITE_OK\<rparr>" and ?args = "[BInt (- 1), BString ''1'']"
  have new: "SQLStmt_new mem_sqlite ex_db ''SELECT key FROM kvpair WHERE depth = ? AND value = ?'' [] = Inr ?st"
    by (simp add: SQLStmt_new_def mem_sqlite_def mem_params_def)
  have len: "length ?args \<le> mem_nparams (sst_stmt ?st)"
    by (simp add: mem_nparams_def)
  obtain st1 st2 where st: "SQLStmt_param mem_sqlite ?args ?st = Return () st1" "SQLStmt_tparam mem_sqlite ?args ?st = Return () st2"
    "\<forall>j. mem_bound (sst_stmt st1) j = mem_bound (sst_stmt st2) j"
    "\<forall>j < length ?args. mem_bound (sst_stmt st1) (int j + 1) = bound_value (?args ! j)"
    using params_agree [OF mem_parameters.sql_params_axioms, of ?args ?st, unfolded if_P [OF len]] by blast
  have "mem_bound (sst_stmt st1) 1 = SqlInt (- 1)"
    using st(4) [rule_format, of 0] by simp
  then show ?thesis
    using new st by (metis (no_types))
qed

end
