(* ===== verification/Process.thy ===== *)
theory Process
  imports Dispatch
begin

text \<open>
  The life of the server process: the two singletons (\<open>KvMemStore\<close> and \<open>Configurator\<close>), the destructors, the
  listener threads and the end of \<open>main\<close> (\<open>server/server.cc\<close>). An outcome \<^term>\<open>None\<close> is a call that does not return.
\<close>

section \<open>Singletons\<close>

text \<open>
  A static pointer is null, points to an object, or to memory that has been freed: \<open>deleteInstance\<close> does not reset it.
\<close>

datatype 'a instance_ptr = Null | Live 'a | Dangling

fun instance_get :: "'a \<Rightarrow> 'a instance_ptr \<Rightarrow> 'a instance_ptr" where
  "instance_get new Null = Live new"
| "instance_get new p = p"

text \<open>Deleting runs the destructor; deleting freed memory is undefined.\<close>

fun instance_delete ::
  "('a \<Rightarrow> ('a, unit) res option) \<Rightarrow> 'a instance_ptr \<Rightarrow> ('a instance_ptr, unit) res option" where
  "instance_delete destroy Null = Some (Return () Null)"
| "instance_delete destroy (Live x) =
     (case destroy x of
        None \<Rightarrow> None
      | Some (Return _ _) \<Rightarrow> Some (Return () Dangling)
      | Some _ \<Rightarrow> Some Abort)"
| "instance_delete destroy Dangling = Some Abort"

section \<open>Destructors\<close>

text \<open>
  The destructor of the replicator joins its two threads, which loop forever; joining a thread that was never started
  throws, which ends the process in a destructor.
\<close>

definition VsReplicator_destroy :: "'a replica_scheme \<Rightarrow> ('a replica_scheme, unit) res option" where
  "VsReplicator_destroy s = (if threadsStarted s then None else Some Abort)"

text \<open>The thread of the recovery handler ends only when it meets a status other than normal.\<close>

definition RecoveryHandler_destroy :: "'a rch_scheme \<Rightarrow> ('a rch_scheme, unit) res option" where
  "RecoveryHandler_destroy s = (if recThreadAlive s then None else Some (Return () s))"

definition KvMemStore_destroy :: "'a replica_scheme \<Rightarrow> ('a replica_scheme, unit) res option" where
  "KvMemStore_destroy s = (if replicatorRegistered s then VsReplicator_destroy s else Some (Return () s))"

text \<open>The store's constructor sets no replicator; the rest of the process state comes with it.\<close>

definition KvMemStore_new :: "'a kvmem_scheme \<Rightarrow> 'a kvmem_scheme" where
  "KvMemStore_new s = s\<lparr>kvMap := [], replicatorRegistered := False\<rparr>"

definition KvMemStore_getInstance :: "'a kvmem_scheme \<Rightarrow> 'a kvmem_scheme instance_ptr \<Rightarrow> 'a kvmem_scheme instance_ptr" where
  "KvMemStore_getInstance s p = instance_get (KvMemStore_new s) p"

definition KvMemStore_deleteInstance :: "'a replica_scheme instance_ptr \<Rightarrow> ('a replica_scheme instance_ptr, unit) res option" where
  "KvMemStore_deleteInstance p = instance_delete KvMemStore_destroy p"

definition Configurator_getInstance :: "Configurator instance_ptr \<Rightarrow> Configurator instance_ptr" where
  "Configurator_getInstance p = instance_get Configurator_new p"

text \<open>The destructor of the configurator is empty: it does not delete the replicator.\<close>

definition Configurator_deleteInstance :: "Configurator instance_ptr \<Rightarrow> (Configurator instance_ptr, unit) res option" where
  "Configurator_deleteInstance p = instance_delete (\<lambda>c. Some (Return () c)) p"

section \<open>The end of main\<close>

text \<open>A listener thread rethrows what \<open>run\<close> throws, and nothing catches it there.\<close>

definition runListener :: "('s, unit) res \<Rightarrow> ('s, unit) res" where
  "runListener run = uncaught run"

text \<open>
  \<open>main\<close> to its end. \<open>serve\<close> is the two listeners at work, in both threads: \<^term>\<open>None\<close> as long as they run, an
  exception when one of them throws. Then \<open>main\<close> joins them and deletes the configurator.
\<close>

definition server_process ::
  "string list \<Rightarrow> (string \<Rightarrow> string option) \<Rightarrow> (string \<Rightarrow> bool) \<Rightarrow>
   (string \<times> string \<Rightarrow> Configurator \<Rightarrow> (Configurator, unit) res option) \<Rightarrow> time_point \<Rightarrow> bool \<Rightarrow> bool \<Rightarrow>
   (Configurator instance_ptr, nat) res option" where
  "server_process argv files listen serve now uninit1 uninit2 =
     (case server_main argv files listen now uninit1 uninit2 of
        Return (Inl code) c \<Rightarrow> Some (Return code Null)
      | Return (Inr ports) c \<Rightarrow>
          (case serve ports c of
             None \<Rightarrow> None
           | Some r \<Rightarrow>
               (case runListener r of
                  Return _ c \<Rightarrow> map_option (\<lambda>r. bind_res r (\<lambda>_ p. Return 0 p)) (Configurator_deleteInstance (Live c))
                | _ \<Rightarrow> Some Abort))
      | _ \<Rightarrow> Some Abort)"

section \<open>What remains\<close>

text \<open>The store's instance of a started server cannot be deleted: the call never returns.\<close>

lemma started_store_not_deletable:
  "start_replica i reps now u r = Return () s \<Longrightarrow> KvMemStore_deleteInstance (Live s) = None"
  by (auto simp: start_replica_Return KvMemStore_deleteInstance_def KvMemStore_destroy_def VsReplicator_destroy_def)

text \<open>After its deletion the configurator's instance stays dangling and must not be deleted again.\<close>

lemma deleted_configurator_dangles:
  "Configurator_deleteInstance (Live c) = Some (Return () Dangling) \<and>
   Configurator_getInstance Dangling = Dangling \<and> Configurator_deleteInstance Dangling = Some Abort"
  by (simp add: Configurator_deleteInstance_def Configurator_getInstance_def)

text \<open>How a server process ends: with code 1 without an argument; with code 0 only when both listeners return; and when
  a listener throws, it is aborted.\<close>

lemma server_process_ends:
  "server_process argv files listen serve now u1 u2 =
    (if length argv < 2 then Some (Return 1 Null)
     else case server_main argv files listen now u1 u2 of
       Return (Inr ports) c \<Rightarrow>
         (case serve ports c of None \<Rightarrow> None | Some (Return _ c') \<Rightarrow> Some (Return 0 Dangling) | Some _ \<Rightarrow> Some Abort)
     | _ \<Rightarrow> Some Abort)"
proof (cases "length argv < 2")
  case True
  then show ?thesis
    by (simp add: server_process_def server_main_def)
next
  case False
  have "server_main argv files listen now u1 u2 \<noteq> Return (Inl code) c" for code c
    using False by (auto simp: server_main_def outcome_simps Let_def split: if_splits)
  then show ?thesis
    using False by (auto simp: server_process_def runListener_def Configurator_deleteInstance_def
        split: res.splits option.splits sum.splits)
qed

end
