(* ===== verification/Spec2Isabelle.thy ===== *)
theory Spec2Isabelle
  imports Takeover Shell Faults ServerDb Process
begin

text \<open>
  metaDR is a key/value store for metadata: a few servers hold a tree of named nodes, replicate every
  change by the Viewstamped Replication protocol, and answer a client library and a command shell by
  remote calls. This library models the program (sources under \<open>src/\<close>) as HOL functions, state passed
  explicitly, and proves what it does.

  \<^bold>\<open>Parts and how they interact.\<close> A server (\<open>server/server.cc\<close>) reads its configuration
  (\<open>configurator.cc\<close>), creates the replicator (\<open>vsReplicator.cc\<close>) with its view-change and recovery
  handlers, registers it with the in-memory store (\<open>kvMemStore.cc\<close>), and serves the client interface
  (\<open>kvStoreImpl.cc\<close>) and the three replica interfaces. A client write goes from the shell and the client
  library through the wire types and \<open>call_dispatch\<close> to \<open>kvStoreImpl\<close>, which checks and prunes the key
  and calls the store; the store asks the replicator, which logs the operation, sends it to the other
  replicas, waits for a majority of acknowledgements, commits it and lets the store apply it. Backups
  log in the order of operation numbers and apply what the primary says is committed. A heartbeat
  thread keeps the primary alive in the eyes of the backups, and starts recovery and view changes.

  \<^bold>\<open>State.\<close> The state of a server process is one record, extended along the imports: \<open>kvmem\<close> (store),
  \<open>base\<close> (ids, peers, protocol state, log, calls delivered), \<open>vch\<close> (view change), \<open>rch\<close> (recovery) and
  \<open>replica\<close> (replicator). An operation is polymorphic in the fields it does not know. An outcome
  (\<open>res\<close>) is \<open>Return\<close> with a value, \<open>Raise\<close> with an exception and the state at the throw, or \<open>Abort\<close>
  for a failed assertion. Numbers of the protocol are 64-bit words; a \<open>std::unordered_map\<close> is an
  association list with distinct keys, since the order of its elements is not specified.

  \<^bold>\<open>Theories and sources.\<close>
  \<^item> \<open>Prelude\<close>, \<open>CppString\<close>: outcomes, word and map lemmas, the operations of \<open>std::string\<close> in use.
  \<^item> \<open>KvTypes\<close>, \<open>VrTypes\<close>: the structs, enums and the union of \<open>include/kvStore.hh\<close>, \<open>vrTypes.hh\<close>,
    \<open>vsReplication.hh\<close>, \<open>viewChange.hh\<close>, \<open>recovery.hh\<close>; \<open>Xdr\<close>: their save and load functions and the
    assignment of \<open>Result\<close>.
  \<^item> \<open>OpLog\<close>: \<open>opLogHandler.h\<close> as the locale \<open>op_log\<close>, \<open>inMemOpLogHandler.cc\<close> as its interpretation.
  \<^item> \<open>KeyFormat\<close>: \<open>checkKeyFormat\<close> and \<open>pruneKey\<close>; \<open>KvMemStore\<close>: \<open>kvMemStore.cc\<close> over the replicator
    interface of \<open>replicator.h\<close>; \<open>KvStoreApi\<close>: the five calls of \<open>kvStoreImpl.cc\<close>; \<open>KvNamespace\<close>: the
    tree of names they implement, for every replicator that meets \<open>replicator_contract\<close>.
  \<^item> \<open>ReplicaState\<close>: \<open>vsReplicaState.cc\<close>; \<open>VrCommon\<close>: \<open>vrCommon.h\<close>, \<open>vrCommon.cc\<close> and
    \<open>concurrentQueue.h\<close> (locale \<open>fifo\<close>); \<open>Rpc\<close>: \<open>clientBase.h\<close>, \<open>clientWrapper.h\<close> and the retry loop
    of the three handlers.
  \<^item> \<open>ViewChange\<close>: \<open>viewChangeHandler.cc\<close>; \<open>Recovery\<close>: \<open>recoveryHandler.cc\<close>; \<open>Replicator\<close>:
    \<open>vsReplicator.cc\<close>.
  \<^item> \<open>Config\<close>: \<open>configurator.cc\<close>, \<open>endPoint.cc\<close>; \<open>Dispatch\<close>: the generated \<open>call_dispatch\<close> functions, the
    client stubs, the server objects of \<open>*Impl.cc\<close> and the start of \<open>server.cc\<close>; \<open>Process\<close>: the
    singletons and their deletion, the destructors, the listeners and \<open>main\<close> to its end.
  \<^item> \<open>KvsClient\<close>: \<open>kvsClient.cc\<close>; \<open>Shell\<close>: \<open>shell.cc\<close>; \<open>SqlStmt\<close>: \<open>sqlstmt.h\<close> and
    \<open>sqlstmt.cc\<close>; \<open>ServerDb\<close>: \<open>serverdb.h\<close> and \<open>serverdb.cc\<close>.
  \<^item> \<open>Replication\<close>, \<open>Cluster\<close>, \<open>Service\<close>, \<open>Failover\<close>, \<open>Node\<close>, \<open>Takeover\<close>, \<open>Faults\<close> and
    this theory hold no translated code: they state and prove the properties of the definitions above.

  \<^bold>\<open>What is shown.\<close>
  \<^item> Agreement of replicas in normal operation. \<open>Replication\<close> shows which handlers keep one replica
    regular (log numbered from 1 to \<open>opNum\<close>, committed exactly up to \<open>commitNum\<close>, store equal to the
    replay of the committed part). \<open>Cluster\<close> composes the handlers of all nodes into a step relation, in
    which backups may also crash and recover while the others go on; its invariant, by rule induction, gives
    agreement, durability on every quorum of nodes in normal status, the stability of the committed log, and
    that a recovery with enough answers returns. A crashed primary cannot recover before its view has ended.
  \<^item> The client's view. \<open>Service\<close> shows that the five calls on a primary implement a tree of names, what
    a successful and a timed-out write leave behind, and that no call aborts; \<open>create_then_get\<close> goes
    through the client library, the stubs, the encoded bytes and \<open>call_dispatch\<close> to the store and back.
  \<^item> Recovery and view change. \<open>Failover\<close> shows that \<open>recover\<close>, from the broadcast to its return, installs
    the primary's state, that the search for the next primary ends, which log is chosen, and which
    operations are applied afterwards. \<open>Takeover\<close> continues the runs of \<open>Cluster\<close> with the change to the
    second view: with a quorum taking part, all participants install the same view, log and numbers; when
    none of them knows the last commit, the next write replaces a committed operation.
  \<^item> One replica over all its views. \<open>Node\<close> interleaves every handler and thread of a replica, view
    changes and recovery included, with arbitrary messages: the log stays well formed and the view
    number never decreases.
  \<^item> Progress and faults. \<open>Faults\<close> shows that a write with enough acknowledgements succeeds, and what a
    repeated message, a timed-out operation or an unexpected status does.
  \<^item> Input and output. Keys, command lines, configuration files, wire formats and the database have
    round trips or equivalences with a direct definition.

  \<^bold>\<open>Bounds and loops.\<close> The search for the next primary in \<open>changeView\<close> has fuel \<open>length replicas + 2\<close>,
  one round of all ids and one step more; \<open>primary_search_ends\<close> shows that this is always enough. The
  loops of \<open>RunScript\<close> and of \<open>ServerDB::list\<close> may not end and are \<open>partial_function (option)\<close>: when
  they end is a theorem. All other loops are structural or have a termination proof. The rounds of the
  server's endless threads are one definition each.

  \<^bold>\<open>Time, threads and the network.\<close> A wait on a condition variable is a function of the environment
  that returns whether the time ran out and the state other threads left; results about a wait say
  what they assume of it (\<open>quiet_env\<close>: no view change or recovery in between). The mutexes make each
  handler atomic and are no state. A call to a replica may be answered, delivered with its answer lost,
  or fail; the handlers record what was delivered. The runs of \<open>Cluster\<close> are those of the first view: no
  operation times out, no view changes, no handler aborts, an acknowledgement is not sent twice, and a
  backup does not restart twice in the second that is its nonce; prepare and commit calls may be lost, repeated
  and reordered, and a recovering backup may use answers given at any time since its restart. What happens outside these limits is
  shown in \<open>Faults\<close>.

  \<^bold>\<open>Parameters.\<close> The XDR library (archives, service objects, sockets) and SQLite are arguments. What is
  assumed of them is the locales \<open>xdr_archive\<close>, \<open>srpc_service\<close>, \<open>sql_params\<close> and \<open>kv_table\<close>, each with an
  instance: RFC 4506, a decoder, a table in memory and its parameters. A double is its 64 bits.

  \<^bold>\<open>Not modelled.\<close> \<open>sqlite3.h\<close> (declarations of a third-party library); the accept loops of the
  listeners (code of the XDR library; \<open>Process\<close> takes them as the argument \<open>serve\<close>); deadlock between
  mutexes; enum values outside the enumerators and the length check of \<open>xstring<512>\<close> when a client fills
  an argument (both are library code); build files and test scripts.

  \<^bold>\<open>Limits.\<close> Agreement is stated for one view and one change of view: \<open>takeover_forks_log\<close> shows that it
  does not survive the change in general, so there is no such theorem about runs over many views.
\<close>

section \<open>Safety of the cluster\<close>

text \<open>C1. Agreement. In every state a cluster of started nodes reaches in its first view, in any
  interleaving of client operations, heartbeats, deliveries, crashes of backups and recoveries that overlap
  with all of this, with prepare and commit calls and answers to a recovery lost, late or repeated (no operation
  times out, no acknowledgement is sent twice and no nonce of a recovery is used twice by one node), the store of every node is
  the replay of the first \<open>commitNum\<close> operations of the primary's log, no node has committed more than
  the primary, and two nodes that have committed the same number of operations have the same store.\<close>

theorem replicas_agree:
  assumes "cluster_init eps now u C0" "0 < length eps" "length eps < 2 ^ 64" "cluster_run eps C0 C"
    and "i < length eps"
  shows "map_of (kvMap (node C i)) = replay_ops (take (unat (commitNum (node C i))) (plog C)) \<and>
    commitNum (node C i) \<le> commitNum (pri C) \<and>
    (\<forall>j < length eps. commitNum (node C j) = commitNum (node C i) \<longrightarrow>
       map_of (kvMap (node C j)) = map_of (kvMap (node C i)))"
proof -
  have inv: "cluster_inv eps C"
    using reachable_inv assms(1-4) by blast
  show ?thesis
    using inv_node_store [OF inv] inv_node(2) [OF inv] assms(5) by auto
qed

lemma ex_run:
  obtains D where "cluster_run ex_eps ex_init D" "commitNum (pri D) = 1" "opNum (pri D) = 1"
    "commitNum (backup D 1) = 1" "opNum (backup D 1) = 1" "opNum (backup D 2) = 0"
    "map_of (kvMap (pri D)) ''/a'' = Some ''1''" "status (backup D 1) = NORMAL" "status (backup D 2) = NORMAL"
proof -
  have "map_option (\<lambda>D. (commitNum (pri D), opNum (pri D), commitNum (backup D 1), opNum (backup D 1),
      opNum (backup D 2), map_of (kvMap (pri D)) ''/a'', status (backup D 1), status (backup D 2))) (acts ex_eps ex_schedule ex_init) =
    Some (1, 1, 1, 1, 0, Some ''1'', NORMAL, NORMAL)"
    by code_simp
  then obtain D where D: "acts ex_eps ex_schedule ex_init = Some D"
    "(commitNum (pri D), opNum (pri D), commitNum (backup D 1), opNum (backup D 1),
      opNum (backup D 2), map_of (kvMap (pri D)) ''/a'', status (backup D 1), status (backup D 2)) =
    (1, 1, 1, 1, 0, Some ''1'', NORMAL, NORMAL)"
    unfolding map_option_eq_Some by blast
  then show ?thesis
    using that [OF acts_run [OF D(1)]] by (simp only: prod.inject)
qed

text \<open>Then the second backup, which has missed everything, crashes and recovers while the next operation begins.\<close>

lemma ex_recovered_run:
  obtains D where "cluster_run ex_eps ex_init D" "commitNum (pri D) = 1" "commitNum (backup D 2) = 1"
    "map_of (kvMap (pri D)) ''/a'' = Some ''1''"
proof -
  have "map_option (\<lambda>D. (commitNum (pri D), commitNum (backup D 2), map_of (kvMap (pri D)) ''/a''))
      (acts ex_eps (ex_schedule @ [Crash 2 7, Answer 1 2, Answer 0 2, ClientBegin UPDATE ''/b'' ''2'', Recovers 2]) ex_init) =
    Some (1, 1, Some ''1'')"
    by code_simp
  then show ?thesis
    using that acts_run unfolding map_option_eq_Some by (metis prod.inject)
qed

theorem replicas_agree_witness:
  "\<exists>D. cluster_run ex_eps ex_init D \<and> commitNum (pri D) = 1 \<and> map_of (kvMap (pri D)) ''/a'' = Some ''1'' \<and>
     map_of (kvMap (backup D 2)) = map_of (kvMap (pri D))"
proof -
  obtain D where D: "cluster_run ex_eps ex_init D" "commitNum (pri D) = 1" "commitNum (backup D 2) = 1"
    "map_of (kvMap (pri D)) ''/a'' = Some ''1''"
    by (rule ex_recovered_run)
  have "\<forall>j < length ex_eps. commitNum (node D j) = commitNum (node D 0) \<longrightarrow>
      map_of (kvMap (node D j)) = map_of (kvMap (node D 0))"
    using replicas_agree [OF ex_init_ok _ _ D(1), of 0] by (simp add: ex_eps_def)
  from this [rule_format, of 2] have "map_of (kvMap (backup D 2)) = map_of (kvMap (pri D))"
    using D(2,3) by (simp add: ex_eps_def node_def)
  then show ?thesis
    using D by blast
qed






lemma ex_crashed_run:
  obtains D where "cluster_run ex_eps ex_init D" "status (pri D) = NORMAL" "status (backup D 1) = NORMAL" "status (backup D 2) = RECOVERING"
    "lastNonce D 2 = 7" "map_of (kvMap (pri D)) ''/a'' = Some ''1''" "length (replicas (pri D)) = 2"
    "\<not> receivedRespFromPri (backup D 2)"
proof -
  have "map_option (\<lambda>D. (status (pri D), status (backup D 1), status (backup D 2), lastNonce D 2, map_of (kvMap (pri D)) ''/a'',
      length (replicas (pri D)), \<not> receivedRespFromPri (backup D 2))) (acts ex_eps (ex_schedule @ [Crash 2 7]) ex_init) =
    Some (NORMAL, NORMAL, RECOVERING, 7, Some ''1'', 2, True)"
    by code_simp
  then show ?thesis
    using that acts_run unfolding map_option_eq_Some by (metis prod.inject)
qed


text \<open>The nonce of a recovery is the time in whole seconds, and nothing else tells two requests of a node apart. A backup
  recovers, takes part in a commit and restarts within the same second; late copies of the answers to its first
  request then bring it back to its old state. In normal status it has lost the committed operation, which only the
  primary still holds.\<close>

definition ex_second_schedule :: "action list" where
  "ex_second_schedule = [Crash 2 7, Answer 1 2, Answer 0 2, Recovers 2, ClientBegin UPDATE ''/a'' ''1'', RecvPrepare 2 ex_prep,
     LogPrepared 2, RecvPrepareOk \<lparr>pr_viewNum = 0, pr_opNum = 1, pr_replicaId = 2\<rparr>, ClientFinish]"

definition ex_restarted :: replica where
  "ex_restarted = (started 2 (peers ex_eps 2))\<lparr>rstate := (ReplicaState_new 0)\<lparr>rs_status := RECOVERING\<rparr>\<rparr>"

theorem reused_nonce_loses_commit:
  "\<exists>C t. cluster_run ex_eps ex_init C \<and> commitNum (pri C) = 1 \<and> holds_op 1 C 2 \<and>
     recover (woken_env good_net (7 * ns_per_sec) (inbox C 2)) ex_restarted = Return () t \<and> status t = NORMAL \<and>
     \<not> holds_op 1 (put_backup 2 t C) 1 \<and> \<not> holds_op 1 (put_backup 2 t C) 2"
proof -
  have "(case acts ex_eps ex_second_schedule ex_init of
      Some C \<Rightarrow> (case recover (woken_env good_net (7 * ns_per_sec) (inbox C 2)) ex_restarted of
          Return _ t \<Rightarrow> commitNum (pri C) = 1 \<and> status t = NORMAL \<and> opNum (backup C 2) = 1 \<and>
            getLogEntry 1 (oplog (backup C 1)) = None \<and> getLogEntry 1 (oplog t) = None
        | _ \<Rightarrow> False)
    | None \<Rightarrow> False)"
    by code_simp
  then obtain C t where C: "acts ex_eps ex_second_schedule ex_init = Some C" "commitNum (pri C) = 1" "opNum (backup C 2) = 1"
    and t: "recover (woken_env good_net (7 * ns_per_sec) (inbox C 2)) ex_restarted = Return () t" "status t = NORMAL"
    and none: "getLogEntry 1 (oplog (backup C 1)) = None" "getLogEntry 1 (oplog t) = None"
    by (auto split: option.splits res.splits)
  have run: "cluster_run ex_eps ex_init C"
    using acts_run C(1) .
  have "cluster_inv ex_eps C"
    using reachable_inv [OF run ex_init_ok] by (simp add: ex_eps_def)
  moreover have "2 < length ex_eps"
    by code_simp
  ultimately have "holds_op 1 C 2"
    using C(3) by (intro holds_op_opNum [of ex_eps]) (simp_all add: node_def)
  moreover have "\<not> holds_op 1 (put_backup 2 t C) 1" "\<not> holds_op 1 (put_backup 2 t C) 2"
    using none by (simp_all add: holds_op_def node_def)
  ultimately show ?thesis
    using run C(2) t by blast
qed

section \<open>From the client to the store\<close>

lemma client_create_outcome:
  assumes "Client_create (KvStoreApi_dispatch R) p v s = Return True t"
  shows "api_create R \<lparr>kvp_key = p, kvp_val = v\<rparr> s = Return (res_error NONE) t"
  using assms unfolding served.create_outcome
  by (cases "api_create R \<lparr>kvp_key = p, kvp_val = v\<rparr> s") (simp_all split: if_splits)

lemma api_create_key: "api_create R arg s = Return (res_error NONE) t \<Longrightarrow> isPrimary R s \<and> checkKeyFormat (kvp_key arg) = NONE"
  by (auto simp: api_create_def split: if_splits)

lemma api_get_value:
  assumes "isPrimary R s" "checkKeyFormat q = NONE" "abs_ns s (path_of q) = Some v"
  shows "api_get R q s = Return (Res_val v) s"
proof -
  have wf: "wf_path (path_of q)"
    using assms(2) by (rule wf_path_of_key)
  then have "map_of (kvMap s) (print_path (path_of q)) = Some v"
    using assms(3) by (simp add: abs_ns_def split: if_splits)
  then show ?thesis
    using assms wf by (simp add: api_get_def with_pruned_wf hasKey_def KvMemStore_get_def)
qed

lemma create_then_get_value:
  assumes "quiet_env env" "threadsStarted s"
    and "Client_create (KvStoreApi_dispatch (vsReplicator env)) p v s = Return True t"
    and "selfId t = priId t" "checkKeyFormat q = NONE" "path_of q = path_of p"
  shows "api_get (vsReplicator env) q t = Return (Res_val v) t"
proof -
  let ?R = "vsReplicator env" and ?arg = "\<lparr>kvp_key = p, kvp_val = v\<rparr>"
  have c: "api_create ?R ?arg s = Return (res_error NONE) t"
    using assms(3) by (rule client_create_outcome)
  then have k: "isPrimary ?R s" "checkKeyFormat p = NONE"
    using api_create_key [OF c] by simp_all
  have "case ns_create (path_of p) v (abs_ns s) of
      (NsErr e, m) \<Rightarrow> api_create ?R ?arg s = Return (res_error e) s
    | (NsOk, m) \<Rightarrow> replicated_outcome (api_create ?R ?arg s) (abs_ns s) m"
    using replicator_contract.create_refines [OF quiet_env.is_contract [OF assms(1)] k(1), of ?arg] k assms(2)
      quiet_env.isPrimary_vs [OF assms(1)] quiet_env.set_not_Abort [OF assms(1)]
    by simp
  then have "abs_ns t (path_of p) = Some v"
    using c by (auto simp: ns_create_def replicated_outcome_def split: if_splits)
  then show ?thesis
    using assms(4-6) by (intro api_get_value) (simp_all add: quiet_env.isPrimary_vs [OF assms(1)])
qed

text \<open>C22. Through the client library and over the wire: after \<open>create\<close> on a connection to a server has returned
  true, \<open>get\<close> returns the created value for every spelling of the key, as long as the server is still the
  primary. Keys and value have to fit the wire format.\<close>

theorem create_then_get:
  assumes "xdr_archive ar" "srpc_service (KvProc_arg ar) (KvStoreApi_serve env) (save_Result ar) t"
    and "quiet_env env" "cf_replicator c = Some s" "threadsStarted s"
    and "length p \<le> 512" "length v \<le> XDR_MAX_LEN" "length q \<le> XDR_MAX_LEN"
    and "Client_create (wire_invoke ar t) p v c = Return True c'"
    and "cf_replicator c' = Some s'" "selfId s' = priId s'" "checkKeyFormat q = NONE" "path_of q = path_of p"
  shows "Client_get (wire_invoke ar t) q c' = Return v c'"
proof -
  have "kv_fits \<lparr>kvp_key = p, kvp_val = v\<rparr>"
    using assms(6,7) by (simp add: kv_fits_def)
  from client_create_wire [OF assms(1,2) this assms(4)]
  have "Client_create (KvStoreApi_dispatch (vsReplicator env)) p v s = Return True s'"
    using assms(9,10) by (cases "Client_create (KvStoreApi_dispatch (vsReplicator env)) p v s") auto
  then have "api_get (vsReplicator env) q s' = Return (Res_val v) s'"
    using create_then_get_value [OF assms(3,5)] assms(11-13) by blast
  then show ?thesis
    using client_get_wire [OF assms(1,2,8,7,10)] by simp
qed

text \<open>A server whose replicator is the primary of the examples.\<close>

definition ex_server :: Configurator where
  "ex_server = \<lparr>cf_replicaId = 0, cf_clientPort = ''9000'', cf_replicationPort = ''7000'', cf_replicas = [],
     cf_replicator = Some ex_primary\<rparr>"

abbreviation ex_service :: "KvProc \<Rightarrow> byte list \<Rightarrow> Configurator \<Rightarrow> (Configurator, byte list) res" where
  "ex_service \<equiv> decode_and_run (KvProc_arg rfc4506) (KvStoreApi_serve ex_env) (save_Result rfc4506)"

theorem create_then_get_witness:
  "\<exists>c. Client_create (wire_invoke rfc4506 ex_service) ''/a'' ''1'' ex_server = Return True c \<and>
     Client_get (wire_invoke rfc4506 ex_service) ''//a'' c = Return ''1'' c"
proof -
  have "(case Client_create (KvStoreApi_dispatch (vsReplicator ex_env)) ''/a'' ''1'' ex_primary of
      Return b s \<Rightarrow> b \<and> selfId s = priId s | _ \<Rightarrow> False)"
    by code_simp
  then obtain s where "Client_create (KvStoreApi_dispatch (vsReplicator ex_env)) ''/a'' ''1'' ex_primary = Return True s"
    "selfId s = priId s"
    by (auto split: res.splits)
  moreover have "kv_fits \<lparr>kvp_key = ''/a'', kvp_val = ''1''\<rparr>" "cf_replicator ex_server = Some ex_primary"
    by (simp_all add: kv_fits_def XDR_MAX_LEN_def ex_server_def)
  ultimately obtain c where c: "Client_create (wire_invoke rfc4506 ex_service) ''/a'' ''1'' ex_server = Return True c"
    "cf_replicator c = Some s" "selfId s = priId s"
    using client_create_wire [OF rfc.xdr_archive_axioms decoding.srpc_service_axioms, of "''/a''" "''1''" ex_server ex_primary ex_env]
    by simp
  have "checkKeyFormat ''//a'' = NONE" "path_of ''//a'' = path_of ''/a''"
    by code_simp+
  then have "Client_get (wire_invoke rfc4506 ex_service) ''//a'' c = Return ''1'' c"
    by (intro create_then_get [OF rfc.xdr_archive_axioms decoding.srpc_service_axioms ex_env_quiet(1) _ ex_primary_ok(4)
        _ _ _ c]) (simp_all add: ex_server_def XDR_MAX_LEN_def)
  with c(1) show ?thesis
    by blast
qed

end
